(* ===== verification/Prelude.thy ===== *)
theory Prelude
  imports Main "HOL-Library.Word" "HOL-Library.Signed_Division" "HOL-Library.Multiset"
begin

text \<open>
  Shared vocabulary of the development.

  Go values are represented as follows.  A Go \<open>string\<close> is an immutable byte
  sequence, so it is a \<^typ>\<open>string\<close> (a list of 8-bit characters).  A Go
  \<open>[]byte\<close> distinguishes nil from the empty slice, and the code tests for nil, so
  a slice is an optional byte list.  An \<open>int64\<close> is a 64-bit word: addition and
  subtraction wrap around, comparison and division read the word as signed.  A
  function that may panic returns a value of type \<open>go\<close>.
\<close>

section \<open>Types\<close>

type_synonym bytes = "char list"
type_synonym slice = "bytes option"
type_synonym int64 = "64 word"

text \<open>The outcome of a Go function that may panic.\<close>

datatype 'a go = Ret 'a | Panic string

named_theorems go_defs \<open>definitions of small operations, unfolded together\<close>

section \<open>Signed 64-bit arithmetic\<close>

text \<open>Go's comparison, quotient and remainder on \<open>int64\<close>; the last two truncate towards
  zero.\<close>

definition le64 :: "int64 \<Rightarrow> int64 \<Rightarrow> bool" where
  "le64 a b \<longleftrightarrow> sint a \<le> sint b"

definition lt64 :: "int64 \<Rightarrow> int64 \<Rightarrow> bool" where
  "lt64 a b \<longleftrightarrow> sint a < sint b"

definition quot64 :: "int64 \<Rightarrow> int64 \<Rightarrow> int64" where
  "quot64 a b = word_of_int (sint a sdiv sint b)"

definition rem64 :: "int64 \<Rightarrow> int64 \<Rightarrow> int64" where
  "rem64 a b = word_of_int (sint a smod sint b)"

lemma sint64_of_int:
  fixes k :: int
  assumes "- (2 ^ 63) \<le> k" and "k < 2 ^ 63"
  shows "sint (word_of_int k :: int64) = k"
  using assms by (simp add: signed_of_int signed_take_bit_int_eq_self)

lemma sint64_of_nat:
  assumes "n < 2 ^ 63"
  shows "sint (of_nat n :: int64) = int n"
proof -
  have "int n < 2 ^ 63"
    using assms by (simp flip: of_nat_less_iff)
  then have "sint (word_of_int (int n) :: int64) = int n"
    by (intro sint64_of_int) simp_all
  then show ?thesis by simp
qed

lemma sint64_bounds: "- (2 ^ 63) \<le> sint (a :: int64)" "sint (a :: int64) < 2 ^ 63"
  using sint_greater_eq [of a] sint_less [of a] by simp_all

lemma sint64_less_trans [simp]: "lt64 a b \<longleftrightarrow> \<not> le64 b a"
  by (auto simp: lt64_def le64_def)

lemma le64_refl [simp]: "le64 a a"
  by (simp add: le64_def)

lemma map_le_SomeD: "m \<subseteq>\<^sub>m m' \<Longrightarrow> m k = Some v \<Longrightarrow> m' k = Some v"
  by (metis domI map_le_def)

end
