(* ===== verification/GoTime.thy ===== *)
theory GoTime
  imports Prelude
begin

text \<open>
  The part of Go's \<open>time\<close> package the cache uses: the zero time, \<open>IsZero\<close>,
  \<open>Before\<close>, \<open>Unix\<close> and \<open>UnixNano\<close>, and the wire format of an expiry, which is
  a number of nanoseconds since the Unix epoch in an \<open>int64\<close>, with 0 for "no
  expiry" (src/group.go \<open>setPeer\<close>, \<open>getFromPeer\<close>; src/transport/http_transport.go
  \<open>ServeHTTP\<close>).

  A \<open>time.Time\<close> is modelled by its wall clock: seconds since 1 January of year 1 UTC and
  the nanosecond within the second.  The monotonic clock reading a \<open>time.Now()\<close> value may
  carry is not modelled.
\<close>

datatype gotime = Time (t_sec: int) (t_nsec: int)

definition zero_time :: gotime where
  "zero_time = Time 0 0"

definition IsZero :: "gotime \<Rightarrow> bool" where
  "IsZero t \<longleftrightarrow> t_sec t = 0 \<and> t_nsec t = 0"

definition Before :: "gotime \<Rightarrow> gotime \<Rightarrow> bool" where
  "Before t u \<longleftrightarrow> t_sec t < t_sec u \<or> t_sec t = t_sec u \<and> t_nsec t < t_nsec u"

text \<open>The seconds from year 1 to 1970, and the nanoseconds of a second.\<close>

definition unixToInternal :: int where
  "unixToInternal = 62135596800"

definition time_Second :: int where
  "time_Second = 1000000000"

text \<open>\<open>time.Unix(sec, nsec)\<close> normalises the nanoseconds into one second.\<close>

definition Unix :: "int64 \<Rightarrow> int64 \<Rightarrow> gotime" where
  "Unix sec nsec =
     (if sint nsec < 0 \<or> sint nsec \<ge> time_Second then
        let n = quot64 nsec (word_of_int time_Second);
            sec1 = sec + n;
            nsec1 = nsec - n * word_of_int time_Second
        in if sint nsec1 < 0
           then Time (sint (sec1 - 1) + unixToInternal) (sint nsec1 + time_Second)
           else Time (sint sec1 + unixToInternal) (sint nsec1)
      else Time (sint sec + unixToInternal) (sint nsec))"

text \<open>\<open>t.UnixNano()\<close> wraps around outside the years 1678 to 2262.\<close>

definition unix_nano :: "gotime \<Rightarrow> int" where
  "unix_nano t = (t_sec t - unixToInternal) * time_Second + t_nsec t"

definition UnixNano :: "gotime \<Rightarrow> int64" where
  "UnixNano t = word_of_int (unix_nano t)"

text \<open>\<open>t.Sub(u)\<close>: the difference in nanoseconds, at the nearest end of the range if it does not fit.\<close>

definition time_Sub :: "gotime \<Rightarrow> gotime \<Rightarrow> int64" where
  "time_Sub t u =
     (let d = (t_sec t - t_sec u) * time_Second + (t_nsec t - t_nsec u)
      in word_of_int (max (- (2 ^ 63)) (min d (2 ^ 63 - 1))))"

definition time_Millisecond :: int where
  "time_Millisecond = 1000000"

text \<open>A time value is well formed when its nanosecond is within the second.\<close>

definition wf_time :: "gotime \<Rightarrow> bool" where
  "wf_time t \<longleftrightarrow> 0 \<le> t_nsec t \<and> t_nsec t < time_Second"

section \<open>The wire format of an expiry\<close>

text \<open>\<open>setPeer\<close> and the GET branch of \<open>ServeHTTP\<close>: the zero time is sent as 0.\<close>

definition encode_expire :: "gotime \<Rightarrow> int64" where
  "encode_expire e = (if \<not> IsZero e then UnixNano e else 0)"

text \<open>\<open>getFromPeer\<close> and the PUT branch of \<open>ServeHTTP\<close>: an absent or zero expiry is the zero
  time.\<close>

definition decode_expire :: "int64 option \<Rightarrow> gotime" where
  "decode_expire oe =
     (case oe of
        None \<Rightarrow> zero_time
      | Some n \<Rightarrow>
          if n \<noteq> 0
          then Unix (quot64 n (word_of_int time_Second)) (rem64 n (word_of_int time_Second))
          else zero_time)"


section \<open>Reading the wire format\<close>

lemma time_Second_word: "sint (word_of_int time_Second :: int64) = time_Second"
  by (rule sint64_of_int) (simp_all add: time_Second_def)

text \<open>Truncating division by a second, in terms of the flooring \<open>div\<close> and \<open>mod\<close>.\<close>

lemma sdiv_second:
  "n sdiv time_Second =
     (if n < 0 \<and> n mod time_Second \<noteq> 0 then n div time_Second + 1 else n div time_Second)"
  by (auto simp: time_Second_def signed_divide_int_def sgn_if zdiv_zminus1_eq_if mod_eq_0_iff_dvd)

lemma smod_second:
  "n smod time_Second =
     (if n < 0 \<and> n mod time_Second \<noteq> 0 then n mod time_Second - time_Second
      else n mod time_Second)"
proof -
  have a: "n smod time_Second = n - n sdiv time_Second * time_Second"
    using minus_sdiv_mult_eq_smod [of n time_Second] by simp
  have b: "n mod time_Second = n - n div time_Second * time_Second"
    by (simp add: minus_div_mult_eq_mod)
  show ?thesis
  proof (cases "n < 0 \<and> n mod time_Second \<noteq> 0")
    case True
    then have "n smod time_Second = n - (n div time_Second + 1) * time_Second"
      using a sdiv_second [of n] by simp
    also have "\<dots> = n mod time_Second - time_Second"
      using b by (simp only: distrib_right)
    finally show ?thesis using True by simp
  next
    case False
    then show ?thesis using a b sdiv_second [of n] by auto
  qed
qed

lemma sint_quot_second:
  "sint (quot64 n (word_of_int time_Second)) = sint n sdiv time_Second"
proof -
  have "- (2 ^ 63) \<le> sint n sdiv time_Second \<and> sint n sdiv time_Second < 2 ^ 63"
    using sint64_bounds [of n] unfolding sdiv_second by (auto simp: time_Second_def)
  then show ?thesis
    unfolding quot64_def time_Second_word by (intro sint64_of_int) simp_all
qed

lemma sint_rem_second:
  "sint (rem64 n (word_of_int time_Second)) = sint n smod time_Second"
proof -
  have "0 \<le> sint n mod time_Second \<and> sint n mod time_Second < time_Second"
    by (simp add: time_Second_def)
  then have "- (2 ^ 63) \<le> sint n smod time_Second \<and> sint n smod time_Second < 2 ^ 63"
    unfolding smod_second by (auto simp: time_Second_def)
  then show ?thesis
    unfolding rem64_def time_Second_word by (intro sint64_of_int) simp_all
qed

text \<open>Decoding a non-zero wire value gives the time that many nanoseconds from the epoch,
  also for times before it.\<close>

lemma decode_expire_nonzero:
  assumes "n \<noteq> 0"
  shows "decode_expire (Some n)
    = Time (sint n div time_Second + unixToInternal) (sint n mod time_Second)"
proof -
  let ?q = "quot64 n (word_of_int time_Second)" and ?r = "rem64 n (word_of_int time_Second)"
  have m: "0 \<le> sint n mod time_Second" "sint n mod time_Second < time_Second"
    by (simp_all add: time_Second_def)
  have dec: "decode_expire (Some n) = Unix ?q ?r"
    using assms by (simp add: decode_expire_def)
  show ?thesis
  proof (cases "sint n < 0 \<and> sint n mod time_Second \<noteq> 0")
    case False
    then show ?thesis
      using m by (auto simp: dec Unix_def sint_quot_second sint_rem_second sdiv_second smod_second)
  next
    case True
    have r: "sint ?r = sint n mod time_Second - time_Second"
      using True by (simp add: sint_rem_second smod_second)
    then have neg: "sint ?r < 0" "- time_Second < sint ?r" using m True by auto
    have q0: "quot64 ?r (word_of_int time_Second) = 0"
    proof -
      have "sint ?r mod time_Second = sint n mod time_Second"
        by (simp add: r)
      moreover have "sint ?r div time_Second = -1"
        using neg by (simp add: time_Second_def)
      ultimately have "sint ?r sdiv time_Second = 0"
        using neg True by (simp add: sdiv_second)
      then show ?thesis by (simp add: quot64_def time_Second_word)
    qed
    have "sint ?q = sint n div time_Second + 1"
      using True by (simp add: sint_quot_second sdiv_second)
    moreover have "sint n div time_Second \<ge> - (2 ^ 63)" "sint n div time_Second < 2 ^ 63"
      using sint64_bounds [of n] by (auto simp: time_Second_def)
    ultimately have "word_of_int (sint ?q - 1) = (word_of_int (sint n div time_Second) :: int64)"
      and "sint (word_of_int (sint n div time_Second) :: int64) = sint n div time_Second"
      by (simp_all add: sint64_of_int)
    then have "sint (?q - 1) = sint n div time_Second" by simp
    then show ?thesis
      using neg r by (simp add: dec Unix_def q0)
  qed
qed

lemma decode_expire_unset [simp]:
  "decode_expire None = zero_time" "decode_expire (Some 0) = zero_time"
  by (simp_all add: decode_expire_def)

lemma unix_nano_div_mod:
  assumes "wf_time t"
  shows "unix_nano t div time_Second = t_sec t - unixToInternal"
    and "unix_nano t mod time_Second = t_nsec t"
proof -
  have n: "0 \<le> t_nsec t" "t_nsec t < time_Second" using assms by (auto simp: wf_time_def)
  then show "unix_nano t div time_Second = t_sec t - unixToInternal"
    by (simp add: unix_nano_def div_add1_eq time_Second_def)
  show "unix_nano t mod time_Second = t_nsec t"
    using n unfolding unix_nano_def by (simp only: mod_mult_self3 mod_pos_pos_trivial)
qed

text \<open>An expiry survives the wire when its nanosecond count fits an \<open>int64\<close> and it is not the
  epoch itself.\<close>

lemma decode_encode_expire:
  assumes "wf_time e" "\<not> IsZero e"
    and "- (2 ^ 63) \<le> unix_nano e" "unix_nano e < 2 ^ 63" "unix_nano e \<noteq> 0"
  shows "decode_expire (Some (encode_expire e)) = e"
proof -
  have s: "sint (UnixNano e) = unix_nano e"
    unfolding UnixNano_def using assms(3,4) by (rule sint64_of_int)
  then have "UnixNano e \<noteq> 0" using assms(5) by auto
  then show ?thesis
    using assms(1,2) by (simp add: encode_expire_def decode_expire_nonzero s unix_nano_div_mod)
qed

lemma decode_encode_zero [simp]: "decode_expire (Some (encode_expire zero_time)) = zero_time"
  by (simp add: encode_expire_def zero_time_def IsZero_def)

section \<open>Properties\<close>

text \<open>An expiry survives the wire: encoding a time as \<open>int64\<close> nanoseconds and decoding it on
  the other side gives the same time to the nanosecond, and no expiry stays no expiry, for every
  time in the range of \<open>UnixNano\<close> (the years 1678 to 2262) but one.\<close>

lemma expire_roundtrip:
  assumes "wf_time e" "e = zero_time \<or> - (2 ^ 63) \<le> unix_nano e \<and> unix_nano e < 2 ^ 63"
    and "unix_nano e \<noteq> 0"
  shows "decode_expire (Some (encode_expire e)) = e"
proof (cases "IsZero e")
  case True
  then have "e = zero_time" by (cases e) (simp add: IsZero_def zero_time_def)
  then show ?thesis by simp
next
  case False
  then have "e \<noteq> zero_time" by (auto simp: IsZero_def zero_time_def)
  then show ?thesis using decode_encode_expire [OF assms(1) False] assms(2,3) by simp
qed

theorem expire_roundtrip_witness:
  "decode_expire (Some (encode_expire (Time 63900000000 7))) = Time 63900000000 7"
  by (rule expire_roundtrip)
    (simp_all add: wf_time_def time_Second_def unix_nano_def unixToInternal_def)

text \<open>C36.  What the wire does to an expiry, for every time in the range of \<open>UnixNano\<close> and for no expiry:
  the receiver reads the time that was sent, to the nanosecond, and no expiry as no expiry, with one
  exception.  An entry that expires at the Unix epoch is sent as 0, which the receiver reads as no
  expiry at all.\<close>

theorem expire_epoch_lost:
  assumes "wf_time e" "e = zero_time \<or> - (2 ^ 63) \<le> unix_nano e \<and> unix_nano e < 2 ^ 63"
  shows "decode_expire (Some (encode_expire e)) = (if unix_nano e = 0 then zero_time else e)"
  using expire_roundtrip [OF assms] by (simp add: encode_expire_def UnixNano_def)

theorem expire_epoch_lost_witness:
  "decode_expire (Some (encode_expire (Time unixToInternal 0))) = zero_time \<and>
   \<not> IsZero (Time unixToInternal 0) \<and>
   decode_expire (Some (encode_expire (Time unixToInternal 1))) = Time unixToInternal 1"
  using expire_epoch_lost [of "Time unixToInternal 0"] expire_epoch_lost [of "Time unixToInternal 1"]
  by (simp add: wf_time_def time_Second_def unix_nano_def unixToInternal_def IsZero_def)

end
