(* ===== verification/Lru.thy ===== *)
theory Lru
  imports GoTime
begin

text \<open>
  The LRU cache of src/internal/lru/lru.go.

  The source keeps a doubly linked list of entries, most recently used first, and a map from
  keys to list elements.  A list element is a pointer, so the model numbers the elements: the
  list is a list of pairs of a pointer and the entry it points to, and the map takes a key to a
  pointer.  \<open>ll\<close> and \<open>cache\<close> are assigned together wherever the source assigns them, so a
  nil \<open>cache\<close> (\<^term>\<open>None\<close>) stands for both being nil.

  The \<open>OnEvicted\<close> callback is a closure over state of the caller.  That state is threaded
  through the operations; its type is the parameter \<open>'s\<close>.  The clock \<open>Now\<close> is read once, in
  \<open>Get\<close>; the reading is an argument there.
\<close>

section \<open>The data structure\<close>

record ('k, 'v) entry =
  e_key :: 'k
  e_value :: 'v
  e_expire :: gotime

type_synonym ('k, 'v) element = "nat \<times> ('k, 'v) entry"

record ('k, 'v, 's) lru_cache =
  MaxEntries :: int
  OnEvicted :: "('k \<Rightarrow> 'v \<Rightarrow> 's \<Rightarrow> 's) option"
  ll :: "('k, 'v) element list"
  cache :: "('k \<rightharpoonup> nat) option"
  next_ptr :: nat

subsection \<open>container/list\<close>

definition list_Remove :: "nat \<Rightarrow> ('k, 'v) element list \<Rightarrow> ('k, 'v) element list" where
  "list_Remove p xs = filter (\<lambda>x. fst x \<noteq> p) xs"

definition list_MoveToFront :: "nat \<Rightarrow> ('k, 'v) element list \<Rightarrow> ('k, 'v) element list" where
  "list_MoveToFront p xs =
     (case map_of xs p of None \<Rightarrow> xs | Some e \<Rightarrow> (p, e) # list_Remove p xs)"

definition list_Back :: "('k, 'v) element list \<Rightarrow> nat option" where
  "list_Back xs = (if xs = [] then None else Some (fst (last xs)))"

text \<open>Assigning through an element pointer.\<close>

definition list_assign ::
  "nat \<Rightarrow> (('k, 'v) entry \<Rightarrow> ('k, 'v) entry) \<Rightarrow> ('k, 'v) element list \<Rightarrow> ('k, 'v) element list"
where
  "list_assign p f xs = map (\<lambda>x. if fst x = p then (p, f (snd x)) else x) xs"

subsection \<open>Operations\<close>

text \<open>\<open>New\<close>: the map and the list are allocated.\<close>

definition lru_New :: "int \<Rightarrow> ('k, 'v, 's) lru_cache" where
  "lru_New maxEntries =
     \<lparr>MaxEntries = maxEntries, OnEvicted = None, ll = [], cache = Some Map.empty, next_ptr = 0\<rparr>"

text \<open>The literal \<open>&lru.Cache{OnEvicted: f}\<close>: every other field is zero.\<close>

definition lru_literal :: "('k \<Rightarrow> 'v \<Rightarrow> 's \<Rightarrow> 's) option \<Rightarrow> ('k, 'v, 's) lru_cache" where
  "lru_literal f =
     \<lparr>MaxEntries = 0, OnEvicted = f, ll = [], cache = None, next_ptr = 0\<rparr>"

text \<open>Calling the callback if there is one.\<close>

definition call_OnEvicted :: "('k, 'v, 's) lru_cache \<Rightarrow> 'k \<Rightarrow> 'v \<Rightarrow> 's \<Rightarrow> 's" where
  "call_OnEvicted c k v s = (case OnEvicted c of None \<Rightarrow> s | Some f \<Rightarrow> f k v s)"

definition lru_removeElement ::
  "nat \<Rightarrow> ('k, 'v, 's) lru_cache \<Rightarrow> 's \<Rightarrow> ('k, 'v, 's) lru_cache \<times> 's"
where
  "lru_removeElement p c s =
     (case map_of (ll c) p of
        None \<Rightarrow> (c, s)
      | Some kv \<Rightarrow>
          (c\<lparr>ll := list_Remove p (ll c),
             cache := map_option (\<lambda>m. m(e_key kv := None)) (cache c)\<rparr>,
           call_OnEvicted c (e_key kv) (e_value kv) s))"

definition lru_RemoveOldest ::
  "('k, 'v, 's) lru_cache \<Rightarrow> 's \<Rightarrow> ('k, 'v, 's) lru_cache \<times> 's"
where
  "lru_RemoveOldest c s =
     (if cache c = None then (c, s)
      else case list_Back (ll c) of None \<Rightarrow> (c, s) | Some p \<Rightarrow> lru_removeElement p c s)"

definition lru_Add ::
  "'k \<Rightarrow> 'v \<Rightarrow> gotime \<Rightarrow> ('k, 'v, 's) lru_cache \<Rightarrow> 's \<Rightarrow> ('k, 'v, 's) lru_cache \<times> 's"
where
  "lru_Add k v expire c0 s =
     (let c = (if cache c0 = None then c0\<lparr>cache := Some Map.empty, ll := []\<rparr> else c0);
          m = (case cache c of None \<Rightarrow> Map.empty | Some m \<Rightarrow> m)
      in case m k of
           Some p \<Rightarrow>
             (case map_of (ll c) p of
                None \<Rightarrow> (c, s)
              | Some eee \<Rightarrow>
                  (c\<lparr>ll := list_assign p (\<lambda>x. x\<lparr>e_expire := expire, e_value := v\<rparr>)
                             (list_MoveToFront p (ll c))\<rparr>,
                   call_OnEvicted c k (e_value eee) s))
         | None \<Rightarrow>
             (let p = next_ptr c;
                  c1 = c\<lparr>ll := (p, \<lparr>e_key = k, e_value = v, e_expire = expire\<rparr>) # ll c,
                         cache := Some (m(k \<mapsto> p)), next_ptr := Suc p\<rparr>
              in if MaxEntries c1 \<noteq> 0 \<and> int (length (ll c1)) > MaxEntries c1
                 then lru_RemoveOldest c1 s else (c1, s)))"

text \<open>The expiry test of \<open>Get\<close>.\<close>

definition expired :: "gotime \<Rightarrow> gotime \<Rightarrow> bool" where
  "expired now e \<longleftrightarrow> \<not> IsZero e \<and> Before e now"

definition lru_Get ::
  "gotime \<Rightarrow> 'k \<Rightarrow> ('k, 'v, 's) lru_cache \<Rightarrow> 's \<Rightarrow> 'v option \<times> ('k, 'v, 's) lru_cache \<times> 's"
where
  "lru_Get now k c s =
     (case cache c of
        None \<Rightarrow> (None, c, s)
      | Some m \<Rightarrow>
          (case m k of
             None \<Rightarrow> (None, c, s)
           | Some ele \<Rightarrow>
               (case map_of (ll c) ele of
                  None \<Rightarrow> (None, c, s)
                | Some ent \<Rightarrow>
                    if expired now (e_expire ent)
                    then let (c', s') = lru_removeElement ele c s in (None, c', s')
                    else (Some (e_value ent), c\<lparr>ll := list_MoveToFront ele (ll c)\<rparr>, s))))"

definition lru_Remove ::
  "'k \<Rightarrow> ('k, 'v, 's) lru_cache \<Rightarrow> 's \<Rightarrow> ('k, 'v, 's) lru_cache \<times> 's"
where
  "lru_Remove k c s =
     (case cache c of
        None \<Rightarrow> (c, s)
      | Some m \<Rightarrow> (case m k of None \<Rightarrow> (c, s) | Some ele \<Rightarrow> lru_removeElement ele c s))"

definition lru_Len :: "('k, 'v, 's) lru_cache \<Rightarrow> int" where
  "lru_Len c = (if cache c = None then 0 else int (length (ll c)))"

text \<open>\<open>Clear\<close> calls the callback for every element of the map, in the order \<open>ks\<close> in which
  \<open>range\<close> visits its keys.\<close>

definition lru_Clear ::
  "'k list \<Rightarrow> ('k, 'v, 's) lru_cache \<Rightarrow> 's \<Rightarrow> ('k, 'v, 's) lru_cache \<times> 's"
where
  "lru_Clear ks c s =
     (c\<lparr>ll := [], cache := None\<rparr>,
      if OnEvicted c = None then s
      else fold (\<lambda>k t.
                   case cache c of
                     None \<Rightarrow> t
                   | Some m \<Rightarrow>
                       (case m k of
                          None \<Rightarrow> t
                        | Some e \<Rightarrow>
                            (case map_of (ll c) e of
                               None \<Rightarrow> t
                             | Some kv \<Rightarrow> call_OnEvicted c (e_key kv) (e_value kv) t)))
                ks s)"


section \<open>Specification: a recency list\<close>

text \<open>
  What the cache promises, without pointers: a list of entries with distinct keys, most recently
  used first.  Each operation returns the new list and the entries it drops, in the order in
  which they are reported to the callback.
\<close>

definition rl_without :: "'k \<Rightarrow> ('k, 'v) entry list \<Rightarrow> ('k, 'v) entry list" where
  "rl_without k xs = filter (\<lambda>x. e_key x \<noteq> k) xs"

definition rl_lookup :: "'k \<Rightarrow> ('k, 'v) entry list \<Rightarrow> ('k, 'v) entry option" where
  "rl_lookup k xs = find (\<lambda>x. e_key x = k) xs"

definition rl_oldest ::
  "('k, 'v) entry list \<Rightarrow> ('k, 'v) entry list \<times> ('k, 'v) entry list"
where
  "rl_oldest xs = (if xs = [] then ([], []) else (butlast xs, [last xs]))"

definition rl_add ::
  "int \<Rightarrow> ('k, 'v) entry \<Rightarrow> ('k, 'v) entry list
     \<Rightarrow> ('k, 'v) entry list \<times> ('k, 'v) entry list"
where
  "rl_add maxEntries x xs =
     (case rl_lookup (e_key x) xs of
        Some y \<Rightarrow> (x # rl_without (e_key x) xs, [y])
      | None \<Rightarrow>
          if maxEntries \<noteq> 0 \<and> int (length xs) + 1 > maxEntries
          then rl_oldest (x # xs) else (x # xs, []))"

definition rl_get ::
  "gotime \<Rightarrow> 'k \<Rightarrow> ('k, 'v) entry list
     \<Rightarrow> 'v option \<times> ('k, 'v) entry list \<times> ('k, 'v) entry list"
where
  "rl_get now k xs =
     (case rl_lookup k xs of
        None \<Rightarrow> (None, xs, [])
      | Some x \<Rightarrow>
          if expired now (e_expire x) then (None, rl_without k xs, [x])
          else (Some (e_value x), x # rl_without k xs, []))"

definition rl_remove ::
  "'k \<Rightarrow> ('k, 'v) entry list \<Rightarrow> ('k, 'v) entry list \<times> ('k, 'v) entry list"
where
  "rl_remove k xs =
     (case rl_lookup k xs of None \<Rightarrow> (xs, []) | Some x \<Rightarrow> (rl_without k xs, [x]))"

text \<open>Clearing drops every entry, in the order in which the keys are visited: by increasing rank.\<close>

definition rl_clear ::
  "('k \<Rightarrow> nat) \<Rightarrow> ('k, 'v) entry list \<Rightarrow> ('k, 'v) entry list \<times> ('k, 'v) entry list"
where
  "rl_clear rank xs = ([], sort_key (rank \<circ> e_key) xs)"

section \<open>Representation invariant\<close>

text \<open>The map and the list agree: the elements have distinct pointers, all of them allocated, and
  distinct keys, and the map takes a key to the element that holds it.\<close>

definition linked :: "('k, 'v) element list \<Rightarrow> ('k \<rightharpoonup> nat) \<Rightarrow> nat \<Rightarrow> bool" where
  "linked l m n \<longleftrightarrow>
     distinct (map fst l) \<and> distinct (map (e_key \<circ> snd) l) \<and> (\<forall>x\<in>set l. fst x < n) \<and>
     (\<forall>k p. m k = Some p \<longleftrightarrow> (\<exists>e. (p, e) \<in> set l \<and> e_key e = k))"

definition lru_inv :: "('k, 'v, 's) lru_cache \<Rightarrow> bool" where
  "lru_inv c \<longleftrightarrow>
     (case cache c of None \<Rightarrow> ll c = [] | Some m \<Rightarrow> linked (ll c) m (next_ptr c))"

text \<open>The entries of a cache, most recently used first.\<close>

definition lru_entries :: "('k, 'v, 's) lru_cache \<Rightarrow> ('k, 'v) entry list" where
  "lru_entries c = map snd (ll c)"

text \<open>Reporting a list of dropped entries.\<close>

definition notify :: "('k, 'v, 's) lru_cache \<Rightarrow> ('k, 'v) entry list \<Rightarrow> 's \<Rightarrow> 's" where
  "notify c xs s = fold (\<lambda>x. call_OnEvicted c (e_key x) (e_value x)) xs s"

subsection \<open>Lookup in a recency list\<close>

lemma rl_lookup_Nil [simp]: "rl_lookup k [] = None"
  by (simp add: rl_lookup_def)

lemma rl_lookup_Cons [simp]:
  "rl_lookup k (x # xs) = (if e_key x = k then Some x else rl_lookup k xs)"
  by (simp add: rl_lookup_def)

lemma rl_lookup_None: "rl_lookup k xs = None \<longleftrightarrow> k \<notin> e_key ` set xs"
  by (induction xs) auto

lemma rl_lookup_SomeD: "rl_lookup k xs = Some x \<Longrightarrow> x \<in> set xs \<and> e_key x = k"
  by (induction xs) (auto split: if_splits)

lemma rl_lookup_mem:
  "distinct (map e_key xs) \<Longrightarrow> x \<in> set xs \<Longrightarrow> rl_lookup (e_key x) xs = Some x"
  by (induction xs) (auto simp: rev_image_eqI)

lemma rl_without_id [simp]: "k \<notin> e_key ` set xs \<Longrightarrow> rl_without k xs = xs"
  by (auto simp: rl_without_def intro: filter_True)

lemma rl_lookup_without [simp]:
  "rl_lookup k' (rl_without k xs) = (if k' = k then None else rl_lookup k' xs)"
  by (induction xs) (auto simp: rl_without_def)

lemma keys_rl_without: "e_key ` set (rl_without k xs) = e_key ` set xs - {k}"
  by (auto simp: rl_without_def)

lemma distinct_rl_without: "distinct (map e_key xs) \<Longrightarrow> distinct (map e_key (rl_without k xs))"
  by (simp add: rl_without_def distinct_map_filter)

lemma rl_lookup_butlast:
  "distinct (map e_key xs) \<Longrightarrow> xs \<noteq> [] \<Longrightarrow>
   rl_lookup k (butlast xs) = (if k = e_key (last xs) then None else rl_lookup k xs)"
proof (induction xs)
  case (Cons x xs)
  then show ?case
    by (cases "xs = []") (auto dest: last_in_set)
qed simp

lemma rl_without_Cons:
  "rl_without k (x # xs) = (if e_key x = k then rl_without k xs else x # rl_without k xs)"
  by (simp add: rl_without_def)

lemma mset_rl_without:
  "distinct (map e_key xs) \<Longrightarrow> rl_lookup k xs = Some x \<Longrightarrow>
   mset xs = add_mset x (mset (rl_without k xs))"
  by (induction xs) (auto simp: rl_without_Cons split: if_splits)

subsection \<open>The list and the map\<close>

lemma linked_distinct_keys: "linked l m n \<Longrightarrow> distinct (map e_key (map snd l))"
  by (simp add: linked_def)

lemma linked_map_of: "linked l m n \<Longrightarrow> (p, e) \<in> set l \<Longrightarrow> map_of l p = Some e"
  by (simp add: linked_def)

lemma linked_lookup:
  assumes "linked l m n"
  shows "rl_lookup k (map snd l) = (case m k of None \<Rightarrow> None | Some p \<Rightarrow> map_of l p)"
proof (cases "m k")
  case None
  then have "\<not> (\<exists>p e. (p, e) \<in> set l \<and> e_key e = k)"
    using assms unfolding linked_def by (metis option.distinct(1))
  then have "k \<notin> e_key ` set (map snd l)" by fastforce
  then show ?thesis using None by (simp add: rl_lookup_None)
next
  case (Some p)
  then obtain e where e: "(p, e) \<in> set l" "e_key e = k"
    using assms unfolding linked_def by blast
  then have "e \<in> set (map snd l)" by force
  then have "rl_lookup k (map snd l) = Some e"
    using rl_lookup_mem [OF linked_distinct_keys [OF assms]] e(2) by blast
  then show ?thesis using Some e linked_map_of [OF assms] by simp
qed

lemma linked_iff: "linked l m n \<Longrightarrow> m k = Some p \<longleftrightarrow> (\<exists>e. (p, e) \<in> set l \<and> e_key e = k)"
  by (simp add: linked_def)

lemma linked_Some:
  assumes "linked l m n" "m k = Some p"
  obtains e where "map_of l p = Some e" "(p, e) \<in> set l" "e_key e = k"
proof -
  from assms obtain e where "(p, e) \<in> set l" "e_key e = k"
    using linked_iff [OF assms(1)] by blast
  then show ?thesis using that linked_map_of [OF assms(1)] by blast
qed

lemma linked_remove_keys:
  assumes "linked l m n" "(p, e) \<in> set l"
  shows "map snd (list_Remove p l) = rl_without (e_key e) (map snd l)"
proof -
  have inj: "inj_on fst (set l)" "inj_on (e_key \<circ> snd) (set l)"
    using assms(1) by (auto simp: linked_def distinct_map)
  have "fst x = p \<longleftrightarrow> e_key (snd x) = e_key e" if "x \<in> set l" for x
    using inj_onD [OF inj(1), of x "(p, e)"] inj_onD [OF inj(2), of x "(p, e)"] assms(2) that
    by (cases x) auto
  then have "filter (\<lambda>x. fst x \<noteq> p) l = filter (\<lambda>x. e_key (snd x) \<noteq> e_key e) l"
    by (intro filter_cong) auto
  then show ?thesis by (simp add: list_Remove_def rl_without_def filter_map comp_def)
qed

lemma linked_remove:
  assumes "linked l m n" "(p, e) \<in> set l"
  shows "linked (list_Remove p l) (m(e_key e := None)) n"
proof -
  have d: "distinct (map fst l)" "distinct (map (e_key \<circ> snd) l)"
    and b: "\<forall>x\<in>set l. fst x < n"
    using assms(1) unfolding linked_def by simp_all
  have mp: "m (e_key e) = Some p" using linked_iff [OF assms(1)] assms(2) by blast
  have "(m(e_key e := None)) k = Some q \<longleftrightarrow>
      (\<exists>e'. (q, e') \<in> set (list_Remove p l) \<and> e_key e' = k)" for k q
  proof (cases "k = e_key e")
    case True
    then have "q = p" if "(q, e') \<in> set l" "e_key e' = k" for e'
      using that mp linked_iff [OF assms(1), of k q] by auto
    then show ?thesis using True by (auto simp: list_Remove_def)
  next
    case False
    then have "q \<noteq> p" if "(q, e') \<in> set l" "e_key e' = k" for e'
      using that eq_key_imp_eq_value [OF d(1), of p e e'] assms(2) by auto
    then show ?thesis
      using False linked_iff [OF assms(1), of k q] by (auto simp: list_Remove_def)
  qed
  then show ?thesis
    using d b unfolding linked_def by (simp add: list_Remove_def distinct_map_filter)
qed

lemma linked_permute:
  assumes "linked l m n" "set l' = set l" "length l' = length l"
  shows "linked l' m n"
proof -
  have "distinct (map fst l')"
  proof (rule card_distinct)
    show "card (set (map fst l')) = length (map fst l')"
      using assms distinct_card [of "map fst l"] by (simp add: linked_def)
  qed
  moreover have "distinct (map (e_key \<circ> snd) l')"
  proof (rule card_distinct)
    show "card (set (map (e_key \<circ> snd) l')) = length (map (e_key \<circ> snd) l')"
      using assms distinct_card [of "map (e_key \<circ> snd) l"] by (simp add: linked_def)
  qed
  ultimately show ?thesis
    using assms by (simp add: linked_def)
qed

lemma rl_without_append: "rl_without k (xs @ ys) = rl_without k xs @ rl_without k ys"
  by (simp add: rl_without_def)

lemma rl_without_Nil [simp]: "rl_without k [] = []"
  by (simp add: rl_without_def)

lemma linked_MoveToFront:
  assumes "linked l m n" "m k = Some p"
  shows "linked (list_MoveToFront p l) m n"
    and "map_of l p = Some e \<Longrightarrow>
      map snd (list_MoveToFront p l) = e # rl_without k (map snd l)"
proof -
  obtain e' where e': "map_of l p = Some e'" "(p, e') \<in> set l" "e_key e' = k"
    using linked_Some [OF assms] .
  have move: "list_MoveToFront p l = (p, e') # list_Remove p l"
    using e' by (simp add: list_MoveToFront_def)
  have "inj_on fst (set l)" using assms(1) by (simp add: linked_def distinct_map)
  then have u: "\<forall>x\<in>set l. fst x = p \<longrightarrow> x = (p, e')"
    by (intro ballI impI, elim inj_onD) (use e'(2) in simp_all)
  have "set (list_MoveToFront p l) = insert (p, e') {x \<in> set l. fst x \<noteq> p}"
    unfolding move list_Remove_def by simp
  also have "\<dots> = set l" using u e'(2) by blast
  finally have "set (list_MoveToFront p l) = set l" .
  moreover have "length (list_MoveToFront p l) = length l"
  proof -
    have "map snd (list_Remove p l) = rl_without k (map snd l)"
      using linked_remove_keys [OF assms(1) e'(2)] e'(3) by simp
    moreover have "rl_lookup k (map snd l) = Some e'"
      using linked_lookup [OF assms(1)] assms(2) e'(1) by simp
    ultimately have "mset (map snd l) = add_mset e' (mset (map snd (list_Remove p l)))"
      using mset_rl_without [OF linked_distinct_keys [OF assms(1)], of k e'] by simp
    then have "size (mset (map snd l)) = Suc (size (mset (map snd (list_Remove p l))))"
      by (simp only: size_add_mset)
    then show ?thesis unfolding move by simp
  qed
  ultimately show "linked (list_MoveToFront p l) m n"
    by (rule linked_permute [OF assms(1)])
  show "map_of l p = Some e \<Longrightarrow>
      map snd (list_MoveToFront p l) = e # rl_without k (map snd l)"
    using e' linked_remove_keys [OF assms(1) e'(2)] unfolding move by simp
qed

lemma key_pairs:
  "(\<exists>e. (q, e) \<in> set l \<and> e_key e = k) \<longleftrightarrow> (q, k) \<in> set (map (\<lambda>x. (fst x, e_key (snd x))) l)"
  by force

lemma linked_assign:
  assumes "linked l m n" "\<And>x. e_key (f x) = e_key x"
  shows "linked (list_assign p f l) m n"
proof -
  have "map fst (list_assign p f l) = map fst l"
    "map (e_key \<circ> snd) (list_assign p f l) = map (e_key \<circ> snd) l"
    using assms(2) by (auto simp: list_assign_def)
  moreover have "map (\<lambda>x. (fst x, e_key (snd x))) (list_assign p f l)
      = map (\<lambda>x. (fst x, e_key (snd x))) l"
    using assms(2) by (auto simp: list_assign_def)
  then have "(\<exists>e. (q, e) \<in> set (list_assign p f l) \<and> e_key e = k) \<longleftrightarrow>
      (\<exists>e. (q, e) \<in> set l \<and> e_key e = k)" for q k
    by (simp add: key_pairs)
  moreover have "\<forall>x\<in>set (list_assign p f l). fst x < n"
    using assms(1) by (auto simp: list_assign_def linked_def)
  ultimately show ?thesis using assms(1) unfolding linked_def by simp
qed

lemma linked_PushFront:
  assumes "linked l m n" "m (e_key e) = None"
  shows "linked ((n, e) # l) (m(e_key e \<mapsto> n)) (Suc n)"
proof -
  have new: "\<forall>x\<in>set l. e_key (snd x) \<noteq> e_key e"
    using linked_lookup [OF assms(1), of "e_key e"] assms(2)
    by (auto simp: rl_lookup_None image_iff)
  have old: "\<forall>x\<in>set l. fst x < n" "distinct (map fst l)" "distinct (map (e_key \<circ> snd) l)"
    using assms(1) by (simp_all add: linked_def)
  have "(m(e_key e \<mapsto> n)) k = Some q \<longleftrightarrow>
      (\<exists>e'. (q, e') \<in> set ((n, e) # l) \<and> e_key e' = k)" for k q
    using new linked_iff [OF assms(1), of k q] by (cases "k = e_key e") auto
  moreover have "distinct (map fst ((n, e) # l))" "distinct (map (e_key \<circ> snd) ((n, e) # l))"
    "\<forall>x\<in>set ((n, e) # l). fst x < Suc n"
    using old new by auto
  ultimately show ?thesis unfolding linked_def by blast
qed

lemma linked_empty [simp]: "linked [] Map.empty n"
  by (simp add: linked_def)

lemma assign_front:
  assumes "linked l m n" "m k = Some p" "map_of l p = Some e"
  shows "map snd (list_assign p f (list_MoveToFront p l)) = f e # rl_without k (map snd l)"
proof -
  have move: "list_MoveToFront p l = (p, e) # list_Remove p l"
    using assms(3) by (simp add: list_MoveToFront_def)
  moreover have "map (\<lambda>x. if fst x = p then (p, f (snd x)) else x) (list_Remove p l)
      = list_Remove p l"
    by (auto simp: list_Remove_def intro: map_idI)
  ultimately show ?thesis
    using linked_MoveToFront(2) [OF assms] by (simp add: list_assign_def)
qed

subsection \<open>Frame and callback\<close>

lemma notify_Nil [simp]: "notify c [] s = s"
  by (simp add: notify_def)

lemma notify_Cons [simp]:
  "notify c (x # xs) s = notify c xs (call_OnEvicted c (e_key x) (e_value x) s)"
  by (simp add: notify_def)

lemma call_OnEvicted_cong:
  "OnEvicted c = OnEvicted d \<Longrightarrow> call_OnEvicted c = call_OnEvicted d"
  by (simp add: call_OnEvicted_def fun_eq_iff)

lemma notify_cong: "OnEvicted c = OnEvicted d \<Longrightarrow> notify c = notify d"
  using call_OnEvicted_cong [of c d] by (intro ext) (simp add: notify_def)

section \<open>Refinement of the recency list\<close>

lemma removeElement_spec:
  fixes c :: "('k, 'v, 's) lru_cache" and s :: 's
  assumes "lru_inv c" "cache c = Some m" "m k = Some p" "map_of (ll c) p = Some e"
  defines "r \<equiv> lru_removeElement p c s"
  shows "lru_inv (fst r)" "lru_entries (fst r) = rl_without k (lru_entries c)"
    "snd r = notify c [e] s" "cache (fst r) \<noteq> None"
    "MaxEntries (fst r) = MaxEntries c" "OnEvicted (fst r) = OnEvicted c"
proof -
  have l: "linked (ll c) m (next_ptr c)" using assms(1,2) by (simp add: lru_inv_def)
  have e: "(p, e) \<in> set (ll c)" "e_key e = k"
    using linked_Some [OF l assms(3)] assms(4) by auto
  show "lru_inv (fst r)"
    using linked_remove [OF l e(1)] e(2) assms(2,4)
    by (simp add: r_def lru_removeElement_def lru_inv_def)
  show "lru_entries (fst r) = rl_without k (lru_entries c)"
    using linked_remove_keys [OF l e(1)] e(2) assms(4)
    by (simp add: r_def lru_removeElement_def lru_entries_def)
qed (use assms(2,4) in \<open>simp_all add: r_def lru_removeElement_def\<close>)

lemma RemoveOldest_spec:
  fixes c :: "('k, 'v, 's) lru_cache" and s :: 's
  assumes "lru_inv c"
  defines "r \<equiv> lru_RemoveOldest c s"
  shows "lru_inv (fst r)" "lru_entries (fst r) = fst (rl_oldest (lru_entries c))"
    "snd r = notify c (snd (rl_oldest (lru_entries c))) s"
    "MaxEntries (fst r) = MaxEntries c" "OnEvicted (fst r) = OnEvicted c"
proof -
  consider (nil) "ll c = []" | (some) m ys p e
      where "cache c = Some m" "ll c = ys @ [(p, e)]" "linked (ll c) m (next_ptr c)"
    using assms(1) by (cases "cache c"; cases "ll c" rule: rev_cases) (auto simp: lru_inv_def)
  then have "lru_inv (fst r) \<and> lru_entries (fst r) = fst (rl_oldest (lru_entries c)) \<and>
    snd r = notify c (snd (rl_oldest (lru_entries c))) s \<and>
    MaxEntries (fst r) = MaxEntries c \<and> OnEvicted (fst r) = OnEvicted c"
  proof cases
    case nil
    then show ?thesis
      using assms(1)
      by (auto simp: r_def lru_RemoveOldest_def list_Back_def rl_oldest_def lru_entries_def)
  next
    case (some m ys p e)
    have mem: "(p, e) \<in> set (ll c)" using some(2) by simp
    have mk: "m (e_key e) = Some p" using linked_iff [OF some(3)] mem by blast
    have pe: "map_of (ll c) p = Some e" using linked_map_of [OF some(3) mem] .
    have r: "r = lru_removeElement p c s"
      using some(1,2) by (simp add: r_def lru_RemoveOldest_def list_Back_def)
    have "e_key e \<notin> e_key ` set (map snd ys)"
      using linked_distinct_keys [OF some(3)] some(2) by auto
    then have "rl_without (e_key e) (lru_entries c) = butlast (lru_entries c)"
      using some(2) by (simp add: lru_entries_def rl_without_append rl_without_Cons)
    then show ?thesis
      using removeElement_spec [OF assms(1) some(1) mk pe, of s] some(2) unfolding r
      by (simp add: rl_oldest_def lru_entries_def)
  qed
  then show "lru_inv (fst r)" "lru_entries (fst r) = fst (rl_oldest (lru_entries c))"
    "snd r = notify c (snd (rl_oldest (lru_entries c))) s"
    "MaxEntries (fst r) = MaxEntries c" "OnEvicted (fst r) = OnEvicted c"
    by simp_all
qed

text \<open>The source's \<open>Add\<close> with the map allocated: what both branches start from.\<close>

lemma Add_allocated:
  assumes "lru_inv c"
  obtains d m where "cache d = Some m" "linked (ll d) m (next_ptr d)" "ll d = ll c"
    "MaxEntries d = MaxEntries c" "OnEvicted d = OnEvicted c"
    "\<And>k v e s. lru_Add k v e c s = lru_Add k v e d s"
proof (cases "cache c")
  case None
  then show ?thesis
    using assms that [of "c\<lparr>cache := Some Map.empty, ll := []\<rparr>" Map.empty]
    by (simp add: lru_inv_def lru_Add_def)
next
  case (Some m)
  then show ?thesis using assms that [of c m] by (simp add: lru_inv_def)
qed

lemma Add_spec:
  fixes c :: "('k, 'v, 's) lru_cache" and s :: 's and k :: 'k and v :: 'v and e :: gotime
  assumes "lru_inv c"
  defines "x \<equiv> \<lparr>e_key = k, e_value = v, e_expire = e\<rparr>"
  defines "r \<equiv> lru_Add k v e c s"
  shows "lru_inv (fst r) \<and> lru_entries (fst r) = fst (rl_add (MaxEntries c) x (lru_entries c)) \<and>
    snd r = notify c (snd (rl_add (MaxEntries c) x (lru_entries c))) s \<and>
    MaxEntries (fst r) = MaxEntries c \<and> OnEvicted (fst r) = OnEvicted c"
proof -
  obtain d m where d: "cache d = Some m" "linked (ll d) m (next_ptr d)" "ll d = ll c"
    "MaxEntries d = MaxEntries c" "OnEvicted d = OnEvicted c"
    and add: "lru_Add k v e c s = lru_Add k v e d s"
    using Add_allocated [OF assms(1)] by metis
  have look: "rl_lookup k (lru_entries c) = (case m k of None \<Rightarrow> None | Some p \<Rightarrow> map_of (ll d) p)"
    using linked_lookup [OF d(2)] d(3) by (simp add: lru_entries_def)
  show ?thesis
  proof (cases "m k")
    case (Some p)
    obtain y where y: "map_of (ll d) p = Some y" "(p, y) \<in> set (ll d)" "e_key y = k"
      using linked_Some [OF d(2) Some] .
    let ?f = "\<lambda>z. z\<lparr>e_expire := e, e_value := v\<rparr>"
    let ?l = "list_assign p ?f (list_MoveToFront p (ll d))"
    have r: "r = (d\<lparr>ll := ?l\<rparr>, call_OnEvicted d k (e_value y) s)"
      using Some y(1) d(1) unfolding r_def add by (simp add: lru_Add_def)
    have "linked ?l m (next_ptr d)"
      by (rule linked_assign [OF linked_MoveToFront(1) [OF d(2) Some]]) simp
    moreover have "?f y = x" using y(3) by (simp add: x_def)
    then have "map snd ?l = x # rl_without k (lru_entries c)"
      using assign_front [OF d(2) Some y(1), of ?f] d(3) by (simp add: lru_entries_def)
    moreover have "rl_add (MaxEntries c) x (lru_entries c) = (x # rl_without k (lru_entries c), [y])"
      using look Some y(1) by (simp add: rl_add_def x_def)
    ultimately show ?thesis
      using d y(3) call_OnEvicted_cong [OF d(5)]
      by (simp add: r lru_inv_def lru_entries_def)
  next
    case None
    let ?d = "d\<lparr>ll := (next_ptr d, x) # ll d, cache := Some (m(k \<mapsto> next_ptr d)),
                next_ptr := Suc (next_ptr d)\<rparr>"
    have r: "r = (if MaxEntries ?d \<noteq> 0 \<and> int (length (ll ?d)) > MaxEntries ?d
                  then lru_RemoveOldest ?d s else (?d, s))"
      using None d(1) unfolding r_def add by (simp add: lru_Add_def x_def Let_def)
    have inv: "lru_inv ?d"
      using linked_PushFront [OF d(2), of x] None by (simp add: lru_inv_def x_def)
    have ent: "lru_entries ?d = x # lru_entries c"
      using d(3) by (simp add: lru_entries_def)
    have look': "rl_lookup (e_key x) (lru_entries c) = None"
      using look None by (simp add: x_def)
    show ?thesis
    proof (cases "MaxEntries ?d \<noteq> 0 \<and> int (length (ll ?d)) > MaxEntries ?d")
      case True
      then have "rl_add (MaxEntries c) x (lru_entries c) = rl_oldest (x # lru_entries c)"
        using d(3,4) look' by (auto simp: rl_add_def lru_entries_def)
      moreover have "r = lru_RemoveOldest ?d s" unfolding r by (rule if_P [OF True])
      ultimately show ?thesis
        using RemoveOldest_spec [OF inv, of s] d(4,5) notify_cong [of ?d c] by (simp add: ent)
    next
      case False
      then have "rl_add (MaxEntries c) x (lru_entries c) = (x # lru_entries c, [])"
        using d(3,4) look' by (auto simp: rl_add_def lru_entries_def)
      moreover have "r = (?d, s)" unfolding r by (rule if_not_P [OF False])
      ultimately show ?thesis using inv ent d(4,5) by simp
    qed
  qed
qed

lemma Get_spec:
  fixes c :: "('k, 'v, 's) lru_cache" and s :: 's
  assumes "lru_inv c" "lru_Get now k c s = (ov, c', s')" "rl_get now k (lru_entries c) = (ow, xs, es)"
  shows "lru_inv c' \<and> ov = ow \<and> lru_entries c' = xs \<and> s' = notify c es s \<and>
    MaxEntries c' = MaxEntries c \<and> OnEvicted c' = OnEvicted c"
proof (cases "cache c")
  case None
  then show ?thesis
    using assms by (auto simp: lru_inv_def lru_Get_def rl_get_def lru_entries_def)
next
  case (Some m)
  have l: "linked (ll c) m (next_ptr c)" using Some assms(1) by (simp add: lru_inv_def)
  have look: "rl_lookup k (lru_entries c) = (case m k of None \<Rightarrow> None | Some p \<Rightarrow> map_of (ll c) p)"
    using linked_lookup [OF l] by (simp add: lru_entries_def)
  show ?thesis
  proof (cases "m k")
    case None
    then show ?thesis using assms Some look by (simp add: lru_Get_def rl_get_def)
  next
    case mk: (Some p)
    obtain y where y: "map_of (ll c) p = Some y" "(p, y) \<in> set (ll c)" "e_key y = k"
      using linked_Some [OF l mk] .
    show ?thesis
    proof (cases "expired now (e_expire y)")
      case True
      then show ?thesis
        using assms look Some mk y removeElement_spec [OF assms(1) Some mk y(1), of s]
        by (simp add: lru_Get_def rl_get_def split: prod.splits)
    next
      case False
      then show ?thesis
        using assms look Some mk y linked_MoveToFront(1) [OF l mk]
          linked_MoveToFront(2) [OF l mk y(1)]
        by (auto simp: lru_Get_def rl_get_def lru_inv_def lru_entries_def)
    qed
  qed
qed

lemma Remove_spec:
  fixes c :: "('k, 'v, 's) lru_cache" and s :: 's and k :: 'k
  assumes "lru_inv c"
  defines "r \<equiv> lru_Remove k c s"
  shows "lru_inv (fst r) \<and> lru_entries (fst r) = fst (rl_remove k (lru_entries c)) \<and>
    snd r = notify c (snd (rl_remove k (lru_entries c))) s \<and>
    MaxEntries (fst r) = MaxEntries c \<and> OnEvicted (fst r) = OnEvicted c"
proof (cases "cache c")
  case None
  then show ?thesis
    using assms by (auto simp: r_def lru_inv_def lru_Remove_def rl_remove_def lru_entries_def)
next
  case (Some m)
  have l: "linked (ll c) m (next_ptr c)" using Some assms(1) by (simp add: lru_inv_def)
  have look: "rl_lookup k (lru_entries c) = (case m k of None \<Rightarrow> None | Some p \<Rightarrow> map_of (ll c) p)"
    using linked_lookup [OF l] by (simp add: lru_entries_def)
  show ?thesis
  proof (cases "m k")
    case None
    then show ?thesis using assms Some look by (simp add: r_def lru_Remove_def rl_remove_def)
  next
    case mk: (Some p)
    obtain y where y: "map_of (ll c) p = Some y" using linked_Some [OF l mk] by metis
    then show ?thesis
      using look Some mk removeElement_spec [OF assms(1) Some mk y, of s]
      by (simp add: r_def lru_Remove_def rl_remove_def)
  qed
qed

lemma Clear_notify:
  assumes "lru_inv c"
  shows "set ks \<subseteq> e_key ` set (lru_entries c) \<Longrightarrow>
    snd (lru_Clear ks c s) = notify c (map (\<lambda>k. the (rl_lookup k (lru_entries c))) ks) s"
proof -
  let ?g = "\<lambda>k. rl_lookup k (lru_entries c)"
  have step: "(case cache c of None \<Rightarrow> t | Some m \<Rightarrow> (case m k of None \<Rightarrow> t | Some e \<Rightarrow>
      (case map_of (ll c) e of None \<Rightarrow> t
       | Some kv \<Rightarrow> call_OnEvicted c (e_key kv) (e_value kv) t))) =
    (case ?g k of None \<Rightarrow> t | Some kv \<Rightarrow> call_OnEvicted c (e_key kv) (e_value kv) t)" for k t
    using assms linked_lookup [of "ll c" _ "next_ptr c" k]
    by (auto simp: lru_inv_def lru_entries_def split: option.splits)
  assume ks: "set ks \<subseteq> e_key ` set (lru_entries c)"
  then have g: "\<forall>k\<in>set ks. ?g k \<noteq> None" by (auto simp: rl_lookup_None)
  have folded: "fold (\<lambda>k t. case ?g k of None \<Rightarrow> t
      | Some kv \<Rightarrow> call_OnEvicted c (e_key kv) (e_value kv) t) ks s = notify c (map (\<lambda>k. the (?g k)) ks) s"
    using g by (induction ks arbitrary: s) auto
  moreover have "notify c xs s = s" if "OnEvicted c = None" for xs
    using that unfolding notify_def by (induction xs arbitrary: s) (auto simp: call_OnEvicted_def)
  ultimately show ?thesis
    by (simp add: lru_Clear_def step)
qed

lemma insort_key_map: "insort_key f (g x) (map g xs) = map g (insort_key (f \<circ> g) x xs)"
  by (induction xs) auto

lemma sort_key_map: "sort_key f (map g xs) = map g (sort_key (f \<circ> g) xs)"
  by (induction xs) (simp_all add: insort_key_map comp_def)

text \<open>The keys of the cache in the order in which \<open>range\<close> visits them.  The order is not specified:
  whichever it is, some rank of the keys gives it.\<close>

definition visited :: "('k \<Rightarrow> nat) \<Rightarrow> ('k, 'v, 's) lru_cache \<Rightarrow> 'k list" where
  "visited rank c = sort_key rank (map e_key (lru_entries c))"

lemma lru_entries_distinct: "lru_inv c \<Longrightarrow> distinct (map e_key (lru_entries c))"
  using linked_distinct_keys by (auto simp: lru_inv_def lru_entries_def split: option.splits)

lemma visited_any:
  assumes "distinct ks" "set ks = e_key ` set (lru_entries c)" "lru_inv c"
  shows "\<exists>rank. visited rank c = ks"
proof -
  define rank where "rank k = the (map_of (zip ks [0..<length ks]) k)" for k
  have map: "map rank ks = [0..<length ks]"
    by (rule nth_equalityI) (simp_all add: rank_def map_of_zip_nth assms(1))
  then have "distinct (map rank ks)" by simp
  then have inj: "inj_on rank (set ks)" by (simp only: distinct_map)
  have set: "set (visited rank c) = set ks" by (simp add: visited_def assms(2))
  have "distinct (visited rank c)"
    using lru_entries_distinct [OF assms(3)] by (simp add: visited_def)
  then have "distinct (map rank (visited rank c))" using inj set by (simp add: distinct_map)
  moreover have "sorted (map rank (visited rank c))" by (simp add: visited_def)
  moreover have "inj_on rank (set (visited rank c) \<union> set ks)" using inj set by simp
  ultimately have "visited rank c = ks"
    using map_sorted_distinct_set_unique [of rank "visited rank c" ks] map set by simp
  then show ?thesis by blast
qed

lemma Clear_spec:
  fixes c :: "('k, 'v, 's) lru_cache" and s :: 's and rank :: "'k \<Rightarrow> nat"
  assumes "lru_inv c"
  defines "r \<equiv> lru_Clear (visited rank c) c s"
  shows "lru_inv (fst r) \<and> lru_entries (fst r) = fst (rl_clear rank (lru_entries c)) \<and>
    snd r = notify c (snd (rl_clear rank (lru_entries c))) s \<and>
    MaxEntries (fst r) = MaxEntries c \<and> OnEvicted (fst r) = OnEvicted c"
proof -
  let ?xs = "sort_key (rank \<circ> e_key) (lru_entries c)"
  have ks: "visited rank c = map e_key ?xs" by (simp add: visited_def sort_key_map)
  have "map (\<lambda>k. the (rl_lookup k (lru_entries c))) (map e_key ?xs) = ?xs"
    using rl_lookup_mem [OF lru_entries_distinct [OF assms(1)]] by (auto intro: map_idI)
  then have "snd r = notify c ?xs s"
    using Clear_notify [OF assms(1), of "visited rank c" s] by (auto simp: r_def ks)
  then show ?thesis
    by (simp add: r_def lru_Clear_def rl_clear_def lru_inv_def lru_entries_def)
qed

lemma Len_spec: "lru_inv c \<Longrightarrow> lru_Len c = int (length (lru_entries c))"
  by (auto simp: lru_Len_def lru_inv_def lru_entries_def split: option.splits)

lemmas lru_specs = Add_spec Remove_spec RemoveOldest_spec Clear_spec

section \<open>Laws of the recency list\<close>

lemma rl_oldest_mset: "mset (fst (rl_oldest xs)) + mset (snd (rl_oldest xs)) = mset xs"
  by (cases xs rule: rev_cases) (auto simp: rl_oldest_def)

lemma rl_add_mset:
  assumes "distinct (map e_key xs)"
  shows "mset (fst (rl_add n x xs)) + mset (snd (rl_add n x xs)) = add_mset x (mset xs)"
  using mset_rl_without [OF assms] rl_oldest_mset [of "x # xs"]
  by (auto simp: rl_add_def split: option.splits)

lemma rl_get_mset:
  assumes "distinct (map e_key xs)" "rl_get now k xs = (r, ys, es)"
  shows "mset ys + mset es = mset xs"
  using assms mset_rl_without [OF assms(1)]
  by (auto simp: rl_get_def split: option.splits if_splits)

lemma rl_remove_mset:
  assumes "distinct (map e_key xs)"
  shows "mset (fst (rl_remove k xs)) + mset (snd (rl_remove k xs)) = mset xs"
  using mset_rl_without [OF assms] by (auto simp: rl_remove_def split: option.splits)

lemma rl_clear_mset: "mset (fst (rl_clear rank xs)) + mset (snd (rl_clear rank xs)) = mset xs"
  by (simp add: rl_clear_def)

lemma length_rl_without:
  assumes "rl_lookup k xs = Some x"
  shows "length (rl_without k xs) < length xs"
  using rl_lookup_SomeD [OF assms] unfolding rl_without_def by (auto intro: length_filter_less)

lemma length_rl_add:
  assumes "int (length xs) \<le> n" "0 < n"
  shows "int (length (fst (rl_add n x xs))) \<le> n"
  using assms length_rl_without [of "e_key x" xs]
  by (auto simp: rl_add_def rl_oldest_def split: option.splits)

lemma length_rl_get:
  assumes "rl_get now k xs = (r, ys, es)"
  shows "length ys \<le> length xs"
  using assms length_rl_without [of k xs]
  by (auto simp: rl_get_def rl_without_def Suc_le_eq split: option.splits if_splits)

section \<open>Runs\<close>

text \<open>A sequence of calls on one cache, and the same sequence on a recency list.  A run collects
  the results of its \<open>Get\<close> and \<open>Len\<close> calls and, for the list, the entries it drops.\<close>

datatype ('k, 'v) lru_op =
  OpAdd 'k 'v gotime | OpGet gotime 'k | OpRemove 'k | OpRemoveOldest | OpClear "'k \<Rightarrow> nat" | OpLen

datatype 'v lru_result = Got "'v option" | Counted int

fun lru_step ::
  "('k, 'v) lru_op \<Rightarrow> ('k, 'v, 's) lru_cache \<Rightarrow> 's
     \<Rightarrow> 'v lru_result list \<times> ('k, 'v, 's) lru_cache \<times> 's"
where
  "lru_step (OpAdd k v e) c s = ([], lru_Add k v e c s)"
| "lru_step (OpGet now k) c s = (case lru_Get now k c s of (r, c', s') \<Rightarrow> ([Got r], c', s'))"
| "lru_step (OpRemove k) c s = ([], lru_Remove k c s)"
| "lru_step OpRemoveOldest c s = ([], lru_RemoveOldest c s)"
| "lru_step (OpClear rank) c s = ([], lru_Clear (visited rank c) c s)"
| "lru_step OpLen c s = ([Counted (lru_Len c)], c, s)"

fun lru_run ::
  "('k, 'v) lru_op list \<Rightarrow> ('k, 'v, 's) lru_cache \<Rightarrow> 's
     \<Rightarrow> 'v lru_result list \<times> ('k, 'v, 's) lru_cache \<times> 's"
where
  "lru_run [] c s = ([], c, s)"
| "lru_run (a # as) c s =
     (case lru_step a c s of (r, c', s') \<Rightarrow>
      case lru_run as c' s' of (rs, c'', s'') \<Rightarrow> (r @ rs, c'', s''))"

fun rl_step ::
  "int \<Rightarrow> ('k, 'v) lru_op \<Rightarrow> ('k, 'v) entry list
     \<Rightarrow> 'v lru_result list \<times> ('k, 'v) entry list \<times> ('k, 'v) entry list"
where
  "rl_step n (OpAdd k v e) xs = ([], rl_add n \<lparr>e_key = k, e_value = v, e_expire = e\<rparr> xs)"
| "rl_step n (OpGet now k) xs = (case rl_get now k xs of (r, ys, es) \<Rightarrow> ([Got r], ys, es))"
| "rl_step n (OpRemove k) xs = ([], rl_remove k xs)"
| "rl_step n OpRemoveOldest xs = ([], rl_oldest xs)"
| "rl_step n (OpClear rank) xs = ([], rl_clear rank xs)"
| "rl_step n OpLen xs = ([Counted (int (length xs))], xs, [])"

fun rl_run ::
  "int \<Rightarrow> ('k, 'v) lru_op list \<Rightarrow> ('k, 'v) entry list
     \<Rightarrow> 'v lru_result list \<times> ('k, 'v) entry list \<times> ('k, 'v) entry list"
where
  "rl_run n [] xs = ([], xs, [])"
| "rl_run n (a # as) xs =
     (case rl_step n a xs of (r, ys, es) \<Rightarrow>
      case rl_run n as ys of (rs, zs, es') \<Rightarrow> (r @ rs, zs, es @ es'))"

text \<open>The entries a run adds.\<close>

fun added :: "('k, 'v) lru_op list \<Rightarrow> ('k, 'v) entry list" where
  "added [] = []"
| "added (OpAdd k v e # as) = \<lparr>e_key = k, e_value = v, e_expire = e\<rparr> # added as"
| "added (_ # as) = added as"

lemma step_refines:
  assumes "lru_inv c" "lru_step a c s = (r, c', s')"
    "rl_step (MaxEntries c) a (lru_entries c) = (r', ys, es)"
  shows "lru_inv c' \<and> r = r' \<and> lru_entries c' = ys \<and> s' = notify c es s \<and>
    MaxEntries c' = MaxEntries c \<and> OnEvicted c' = OnEvicted c"
proof (cases a)
  case (OpAdd k v e)
  then show ?thesis using assms Add_spec [OF assms(1), of k v e s] by auto
next
  case (OpGet now k)
  then obtain v w where "r = [Got v]" "lru_Get now k c s = (v, c', s')"
    "r' = [Got w]" "rl_get now k (lru_entries c) = (w, ys, es)"
    using assms(2,3) by (auto split: prod.splits)
  then show ?thesis using Get_spec [OF assms(1)] by blast
next
  case (OpRemove k)
  then show ?thesis using assms Remove_spec [OF assms(1), of k s] by auto
next
  case OpRemoveOldest
  then show ?thesis using assms RemoveOldest_spec [OF assms(1), of s] by auto
next
  case (OpClear rank)
  then show ?thesis using assms Clear_spec [OF assms(1), of rank s] by auto
next
  case OpLen
  then show ?thesis using assms Len_spec [OF assms(1)] by auto
qed

lemma notify_append: "notify c (xs @ ys) s = notify c ys (notify c xs s)"
  by (simp add: notify_def)

lemma run_refines:
  assumes "lru_inv c" "lru_run as c s = (r, c', s')"
    "rl_run (MaxEntries c) as (lru_entries c) = (r', ys, es)"
  shows "lru_inv c' \<and> r = r' \<and> lru_entries c' = ys \<and> s' = notify c es s \<and>
    MaxEntries c' = MaxEntries c \<and> OnEvicted c' = OnEvicted c"
  using assms
proof (induction as arbitrary: c s r c' s' r' ys es)
  case Nil
  then show ?case by simp
next
  case (Cons a as)
  obtain r1 c1 s1 where 1: "lru_step a c s = (r1, c1, s1)" by (cases "lru_step a c s") auto
  obtain r2 c2 s2 where 2: "lru_run as c1 s1 = (r2, c2, s2)" by (cases "lru_run as c1 s1") auto
  obtain q1 y1 e1 where 3: "rl_step (MaxEntries c) a (lru_entries c) = (q1, y1, e1)"
    by (cases "rl_step (MaxEntries c) a (lru_entries c)") auto
  obtain q2 y2 e2 where 4: "rl_run (MaxEntries c) as y1 = (q2, y2, e2)"
    by (cases "rl_run (MaxEntries c) as y1") auto
  have s1: "lru_inv c1 \<and> r1 = q1 \<and> lru_entries c1 = y1 \<and> s1 = notify c e1 s \<and>
    MaxEntries c1 = MaxEntries c \<and> OnEvicted c1 = OnEvicted c"
    by (rule step_refines [OF Cons.prems(1) 1 3])
  then have "lru_inv c2 \<and> r2 = q2 \<and> lru_entries c2 = y2 \<and> s2 = notify c1 e2 s1 \<and>
    MaxEntries c2 = MaxEntries c1 \<and> OnEvicted c2 = OnEvicted c1"
    using Cons.IH [OF _ 2] 4 by simp
  then show ?case
    using Cons.prems(2,3) 1 2 3 4 s1 notify_cong [of c1 c] by (auto simp: notify_append)
qed

lemma butlast_keys: "k \<notin> e_key ` set xs \<Longrightarrow> k \<notin> set (butlast (map e_key xs))"
  using in_set_butlastD [of k "map e_key xs"] by auto

lemma rl_step_distinct:
  assumes "distinct (map e_key xs)" "rl_step n a xs = (r, ys, es)"
  shows "distinct (map e_key ys)"
  using assms
  by (cases a)
    (auto simp: rl_add_def rl_get_def rl_remove_def rl_oldest_def rl_clear_def keys_rl_without rl_lookup_None
      distinct_rl_without map_butlast distinct_butlast butlast_keys split: option.splits if_splits
      dest: rl_lookup_SomeD)

lemma rl_step_mset:
  assumes "distinct (map e_key xs)" "rl_step n a xs = (r, ys, es)"
  shows "mset ys + mset es = mset xs + mset (added [a])"
proof (cases a)
  case (OpAdd k v e)
  then show ?thesis
    using assms(2) rl_add_mset [OF assms(1), of n "\<lparr>e_key = k, e_value = v, e_expire = e\<rparr>"] by simp
next
  case (OpGet now k)
  then obtain w where "rl_get now k xs = (w, ys, es)"
    using assms(2) by (auto split: prod.splits)
  then show ?thesis using OpGet rl_get_mset [OF assms(1)] by simp
next
  case (OpRemove k)
  then show ?thesis using assms(2) rl_remove_mset [OF assms(1), of k] by simp
next
  case OpRemoveOldest
  then show ?thesis using assms(2) rl_oldest_mset [of xs] by simp
next
  case (OpClear rank)
  then show ?thesis using assms(2) rl_clear_mset [of rank xs] by simp
next
  case OpLen
  then show ?thesis using assms(2) by simp
qed

lemma rl_run_mset:
  assumes "distinct (map e_key xs)" "rl_run n as xs = (r, ys, es)"
  shows "mset ys + mset es = mset xs + mset (added as)"
  using assms
proof (induction n as xs arbitrary: r ys es rule: rl_run.induct)
  case (1 n xs)
  then show ?case by simp
next
  case (2 n a as xs)
  obtain q1 y1 e1 where s: "rl_step n a xs = (q1, y1, e1)" by (cases "rl_step n a xs") auto
  obtain q2 y2 e2 where t: "rl_run n as y1 = (q2, y2, e2)" by (cases "rl_run n as y1") auto
  have st: "mset y1 + mset e1 = mset xs + mset (added [a])"
    by (rule rl_step_mset [OF 2(2) s])
  have rn: "mset y2 + mset e2 = mset y1 + mset (added as)"
    using 2(1) [OF s [symmetric] refl rl_step_distinct [OF 2(2) s] t] .
  have ad: "mset (added (a # as)) = mset (added [a]) + mset (added as)"
    by (cases a) auto
  have "mset y2 + (mset e1 + mset e2) = (mset y2 + mset e2) + mset e1"
    by (simp only: ac_simps)
  also have "\<dots> = (mset y1 + mset e1) + mset (added as)"
    unfolding rn by (simp only: ac_simps)
  also have "\<dots> = mset xs + mset (added (a # as))"
    unfolding st ad by (simp only: ac_simps)
  finally show ?case
    using 2(3) s t by auto
qed

section \<open>Charging evictions to an account\<close>

text \<open>
  The interface between the cache and a client that keeps a running total of what is in it.  The
  client's callback takes the weight of a dropped entry off the account; the laws below say what
  each operation then does to the account.
\<close>

definition weight_of ::
  "('k \<Rightarrow> 'v \<Rightarrow> 'g::comm_monoid_add) \<Rightarrow> ('k, 'v) entry list \<Rightarrow> 'g"
where
  "weight_of w xs = sum_list (map (\<lambda>x. w (e_key x) (e_value x)) xs)"

lemma weight_of_mset: "mset xs = mset ys \<Longrightarrow> weight_of w xs = weight_of w ys"
  unfolding weight_of_def by (simp flip: sum_mset_sum_list)

lemma weight_of_append [simp]: "weight_of w (xs @ ys) = weight_of w xs + weight_of w ys"
  by (simp add: weight_of_def)

lemma weight_of_simps [simp]:
  "weight_of w [] = 0" "weight_of w (x # xs) = w (e_key x) (e_value x) + weight_of w xs"
  by (simp_all add: weight_of_def)

locale eviction_account =
  fixes onEvicted :: "'k \<Rightarrow> 'v \<Rightarrow> 's \<Rightarrow> 's"
    and account :: "'s \<Rightarrow> 'g::ab_group_add"
    and weight :: "'k \<Rightarrow> 'v \<Rightarrow> 'g"
  assumes charge: "account (onEvicted k v s) = account s - weight k v"
begin

lemma notify_account:
  "OnEvicted c = Some onEvicted \<Longrightarrow> account (notify c xs s) = account s - weight_of weight xs"
  by (induction xs arbitrary: s) (simp_all add: call_OnEvicted_def charge diff_diff_eq)

text \<open>When the entries \<open>zs\<close> are split into \<open>ys\<close>, kept, and \<open>es\<close>, dropped.\<close>

lemma settle:
  assumes "OnEvicted c = Some onEvicted" "mset ys + mset es = mset zs"
  shows "account (notify c es s) = account s - weight_of weight zs + weight_of weight ys"
proof -
  have "weight_of weight zs = weight_of weight ys + weight_of weight es"
    using weight_of_mset [of "ys @ es" zs weight] assms(2) by simp
  then show ?thesis using notify_account [OF assms(1), of es s] by simp
qed

lemma Add_account:
  assumes "lru_inv c" "OnEvicted c = Some onEvicted" "account s = weight_of weight (lru_entries c)"
  shows "account (snd (lru_Add k v e c s)) + weight k v
    = weight_of weight (lru_entries (fst (lru_Add k v e c s)))"
proof -
  let ?x = "\<lparr>e_key = k, e_value = v, e_expire = e\<rparr>"
  let ?r = "rl_add (MaxEntries c) ?x (lru_entries c)"
  have "mset (fst ?r) + mset (snd ?r) = mset (?x # lru_entries c)"
    using rl_add_mset [OF lru_entries_distinct [OF assms(1)], of "MaxEntries c" ?x] by simp
  from settle [OF assms(2) this, of s] show ?thesis
    using Add_spec [OF assms(1), of k v e s] assms(3) by simp
qed

lemma Get_account:
  assumes "lru_inv c" "OnEvicted c = Some onEvicted" "account s = weight_of weight (lru_entries c)"
    "lru_Get now k c s = (r, c', s')"
  shows "account s' = weight_of weight (lru_entries c')"
proof -
  obtain r' ys es where g: "rl_get now k (lru_entries c) = (r', ys, es)"
    by (cases "rl_get now k (lru_entries c)") auto
  have "mset ys + mset es = mset (lru_entries c)"
    by (rule rl_get_mset [OF lru_entries_distinct [OF assms(1)] g])
  moreover have "lru_entries c' = ys" "s' = notify c es s"
    using Get_spec [OF assms(1,4) g] by simp_all
  ultimately show ?thesis using settle [OF assms(2), of ys es] assms(3) by simp
qed

lemma Remove_account:
  assumes "lru_inv c" "OnEvicted c = Some onEvicted" "account s = weight_of weight (lru_entries c)"
  shows "account (snd (lru_Remove k c s)) = weight_of weight (lru_entries (fst (lru_Remove k c s)))"
  using Remove_spec [OF assms(1), of k s] assms(3)
    settle [OF assms(2) rl_remove_mset [OF lru_entries_distinct [OF assms(1)], of k], of s] by simp

lemma RemoveOldest_account:
  assumes "lru_inv c" "OnEvicted c = Some onEvicted" "account s = weight_of weight (lru_entries c)"
  shows "account (snd (lru_RemoveOldest c s))
    = weight_of weight (lru_entries (fst (lru_RemoveOldest c s)))"
  using RemoveOldest_spec [OF assms(1), of s] assms(3)
    settle [OF assms(2) rl_oldest_mset [of "lru_entries c"], of s] by simp

end

lemma rl_step_length:
  assumes "rl_step n a xs = (r, ys, es)" "int (length xs) \<le> n" "0 < n"
  shows "int (length ys) \<le> n"
proof (cases a)
  case (OpAdd k v e)
  then show ?thesis
    using assms length_rl_add [OF assms(2,3), of "\<lparr>e_key = k, e_value = v, e_expire = e\<rparr>"] by simp
next
  case (OpGet now k)
  then obtain w where "rl_get now k xs = (w, ys, es)"
    using assms(1) by (auto split: prod.splits)
  then show ?thesis using length_rl_get assms(2) by fastforce
next
  case (OpRemove k)
  then have "length ys \<le> length xs"
    using assms(1) by (auto simp: rl_remove_def rl_without_def split: option.splits)
  then show ?thesis using assms(2) by simp
next
  case OpRemoveOldest
  then show ?thesis using assms by (auto simp: rl_oldest_def split: if_splits)
next
  case (OpClear rank)
  then show ?thesis using assms by (auto simp: rl_clear_def)
next
  case OpLen
  then show ?thesis using assms by simp
qed

lemma rl_run_length:
  assumes "rl_run n as xs = (r, ys, es)" "int (length xs) \<le> n" "0 < n"
  shows "int (length ys) \<le> n"
  using assms
proof (induction n as xs arbitrary: r ys es rule: rl_run.induct)
  case (2 n a as xs)
  obtain q1 y1 e1 where s: "rl_step n a xs = (q1, y1, e1)" by (cases "rl_step n a xs") auto
  obtain q2 y2 e2 where t: "rl_run n as y1 = (q2, y2, e2)" by (cases "rl_run n as y1") auto
  have "int (length y2) \<le> n"
    using 2(1) [OF s [symmetric] refl t rl_step_length [OF s 2(3,4)] 2(4)] .
  then show ?case using 2(2) s t by auto
qed simp

lemma fresh_refines:
  assumes "lru_run ops ((lru_New n)\<lparr>OnEvicted := f\<rparr>) s = (rs, c, s')"
    "rl_run n ops [] = (rs', xs, es)"
  shows "lru_inv c" "rs = rs'" "lru_entries c = xs"
    "s' = notify ((lru_New n)\<lparr>OnEvicted := f\<rparr>) es s"
proof -
  let ?c = "(lru_New n)\<lparr>OnEvicted := f\<rparr>"
  have "lru_inv ?c" by (simp add: lru_New_def lru_inv_def)
  moreover have "rl_run (MaxEntries ?c) ops (lru_entries ?c) = (rs', xs, es)"
    using assms(2) by (simp add: lru_New_def lru_entries_def)
  ultimately show "lru_inv c" "rs = rs'" "lru_entries c = xs" "s' = notify ?c es s"
    using run_refines [OF _ assms(1)] by blast+
qed

section \<open>Properties\<close>

text \<open>C22.  The pointer structure implements the recency list: on any sequence of calls, from a
  fresh cache with any bound and any callback, every \<open>Get\<close> and every \<open>Len\<close> returns what the recency
  list says, the entries end up in the recency order, and the callback has been called on exactly the
  entries the list drops, in that order.  The calls are \<open>Add\<close>, \<open>Get\<close>, \<open>Remove\<close>, \<open>RemoveOldest\<close>, \<open>Clear\<close>,
  whose map is visited in any order, and \<open>Len\<close>; a cache goes on working after a \<open>Clear\<close>.\<close>

theorem lru_run_refines:
  "case lru_run ops ((lru_New n)\<lparr>OnEvicted := f\<rparr>) s of (rs, c, s') \<Rightarrow>
   case rl_run n ops [] of (rs', xs, es) \<Rightarrow>
     rs = rs' \<and> lru_entries c = xs \<and> lru_inv c \<and>
     s' = fold (\<lambda>x t. case f of None \<Rightarrow> t | Some g \<Rightarrow> g (e_key x) (e_value x) t) es s"
proof -
  let ?c = "(lru_New n)\<lparr>OnEvicted := f\<rparr>"
  obtain rs c s' where r: "lru_run ops ?c s = (rs, c, s')" by (cases "lru_run ops ?c s") auto
  obtain rs' xs es where l: "rl_run n ops [] = (rs', xs, es)" by (cases "rl_run n ops []") auto
  show ?thesis
    using fresh_refines [OF r l] by (simp add: r l notify_def call_OnEvicted_def [abs_def])
qed

text \<open>C29.  Nothing is lost and nothing is reported twice: after any sequence of calls on a fresh
  cache, with \<open>Clear\<close> and \<open>Len\<close> among them, the entries added are exactly the entries still in the cache and the entries reported to
  the callback, counted with multiplicity.\<close>

theorem lru_conservation:
  "case lru_run ops ((lru_New n)\<lparr>OnEvicted := Some (\<lambda>k v log. (k, v) # log)\<rparr>) [] of
     (rs, c, log) \<Rightarrow>
       mset (map (\<lambda>x. (e_key x, e_value x)) (lru_entries c)) + mset log
         = mset (map (\<lambda>x. (e_key x, e_value x)) (added ops))"
proof -
  let ?f = "\<lambda>k v log. (k, v) # log" and ?kv = "\<lambda>x. (e_key x, e_value x)"
  let ?c = "(lru_New n)\<lparr>OnEvicted := Some ?f\<rparr>"
  obtain rs c log where r: "lru_run ops ?c [] = (rs, c, log)" by (cases "lru_run ops ?c []") auto
  obtain rs' xs es where l: "rl_run n ops [] = (rs', xs, es)" by (cases "rl_run n ops []") auto
  have logged: "mset (notify ?c es t) = mset (map ?kv es) + mset t" for t
    by (induction es arbitrary: t) (simp_all add: call_OnEvicted_def)
  have "mset xs + mset es = mset (added ops)"
    using rl_run_mset [OF _ l] by simp
  then have "image_mset ?kv (mset xs + mset es) = image_mset ?kv (mset (added ops))"
    by (rule arg_cong)
  then have "mset (map ?kv xs) + mset (map ?kv es) = mset (map ?kv (added ops))"
    by simp
  then show ?thesis
    using fresh_refines(3,4) [OF r l] logged [of "[]"] by (simp add: r)
qed

text \<open>A positive \<open>MaxEntries\<close> bounds the cache: after any sequence of calls on a fresh
  cache, \<open>Len\<close> is at most \<open>MaxEntries\<close>.\<close>

lemma lru_capacity:
  assumes "0 < n"
  shows "lru_Len (fst (snd (lru_run ops ((lru_New n)\<lparr>OnEvicted := f\<rparr>) s))) \<le> n"
proof -
  let ?c = "(lru_New n)\<lparr>OnEvicted := f\<rparr>"
  obtain rs c s' where r: "lru_run ops ?c s = (rs, c, s')" by (cases "lru_run ops ?c s") auto
  obtain rs' xs es where l: "rl_run n ops [] = (rs', xs, es)" by (cases "rl_run n ops []") auto
  have "length (ll c) = length xs"
    using fresh_refines(3) [OF r l] by (auto simp: lru_entries_def)
  then show ?thesis using assms r rl_run_length [OF l] by (simp add: lru_Len_def)
qed

theorem lru_capacity_witness:
  "lru_Len (fst (snd (lru_run
     [OpAdd (1::nat) ''a'' zero_time, OpAdd 2 ''b'' zero_time, OpAdd 3 ''c'' zero_time]
     ((lru_New 2)\<lparr>OnEvicted := None\<rparr>) ()))) \<le> 2"
  using lru_capacity [of 2 "[OpAdd (1::nat) ''a'' zero_time, OpAdd 2 ''b'' zero_time,
      OpAdd 3 ''c'' zero_time]" None "()"] by simp

end
