(* ===== verification/Errors.thy ===== *)
theory Errors
  imports Prelude
begin

text \<open>
  Error values: the error types of src/transport/errors.go and src/errors.go and the errors of
  the Go libraries the code tests for or returns.  A Go \<open>error\<close> is a \<^typ>\<open>'a option\<close> over
  this type, nil being \<^term>\<open>None\<close>.  \<open>errors.Is\<close> is given for the three targets the code
  uses; it follows the chain of errors wrapped with \<open>%w\<close> and asks the \<open>Is\<close> method of each
  error on it.
\<close>

datatype goerr =
    ErrNotFound string
  | ErrRemoteCall string
  | ContextCanceled
  | ContextDeadlineExceeded
  | EOF
  | ErrShortWrite
  | ErrString string
  | ErrWrap string goerr
  | MultiErr "goerr list"

section \<open>Operations\<close>

text \<open>\<open>strings.Join\<close>.\<close>

fun strings_Join :: "string list \<Rightarrow> string \<Rightarrow> string" where
  "strings_Join [] sep = []"
| "strings_Join [x] sep = x"
| "strings_Join (x # y # ys) sep = x @ sep @ strings_Join (y # ys) sep"

text \<open>\<open>err.Error()\<close>; an error wrapped by \<open>fmt.Errorf("prefix%w", err)\<close> prints after the
  prefix, and a \<open>MultiError\<close> one line per error.\<close>

fun Error :: "goerr \<Rightarrow> string" where
  "Error (ErrNotFound m) = m"
| "Error (ErrRemoteCall m) = m"
| "Error ContextCanceled = ''context canceled''"
| "Error ContextDeadlineExceeded = ''context deadline exceeded''"
| "Error EOF = ''EOF''"
| "Error ErrShortWrite = ''short write''"
| "Error (ErrString m) = m"
| "Error (ErrWrap p e) = p @ Error e"
| "Error (MultiErr es) = (if es = [] then [] else strings_Join (map Error es) ''\<newline>'')"

text \<open>\<open>errors.Is(err, &transport.ErrNotFound{})\<close>, \<open>errors.Is(err, &transport.ErrRemoteCall{})\<close>
  and \<open>errors.Is(err, context.Canceled)\<close>.  The \<open>Is\<close> methods of the two error types compare the
  type of the target only.  A \<open>MultiError\<close> has no \<open>Unwrap\<close>.\<close>

fun Is_ErrNotFound :: "goerr \<Rightarrow> bool" where
  "Is_ErrNotFound (ErrNotFound m) = True"
| "Is_ErrNotFound (ErrWrap p e) = Is_ErrNotFound e"
| "Is_ErrNotFound _ = False"

fun Is_ErrRemoteCall :: "goerr \<Rightarrow> bool" where
  "Is_ErrRemoteCall (ErrRemoteCall m) = True"
| "Is_ErrRemoteCall (ErrWrap p e) = Is_ErrRemoteCall e"
| "Is_ErrRemoteCall _ = False"

fun Is_Canceled :: "goerr \<Rightarrow> bool" where
  "Is_Canceled ContextCanceled = True"
| "Is_Canceled (ErrWrap p e) = Is_Canceled e"
| "Is_Canceled _ = False"

subsection \<open>MultiError\<close>

text \<open>\<open>MultiError\<close> of src/errors.go by the errors it collects.\<close>

definition MultiError_Add :: "goerr list \<Rightarrow> goerr option \<Rightarrow> goerr list" where
  "MultiError_Add m err = (case err of None \<Rightarrow> m | Some e \<Rightarrow> m @ [e])"

definition NilOrError :: "goerr list \<Rightarrow> goerr option" where
  "NilOrError m = (if m = [] then None else Some (MultiErr m))"

text \<open>The loop \<open>for err := range errCh { m.Add(err) }\<close> over the errors in the order they arrive.\<close>

definition collect_errors :: "goerr option list \<Rightarrow> goerr option" where
  "collect_errors errs = NilOrError (foldl MultiError_Add [] errs)"

section \<open>Lemmas\<close>

lemma foldl_MultiError_Add: "foldl MultiError_Add m errs = m @ List.map_filter id errs"
  by (induction errs arbitrary: m)
    (auto simp: MultiError_Add_def map_filter_simps split: option.splits)

lemma collect_errors_map_filter:
  "collect_errors errs = NilOrError (List.map_filter id errs)"
  by (simp add: collect_errors_def foldl_MultiError_Add)

lemma map_filter_id_Nil: "List.map_filter id errs = [] \<longleftrightarrow> (\<forall>e\<in>set errs. e = None)"
  by (induction errs) (auto simp: map_filter_simps split: option.splits)

lemma collect_errors_None [simp]:
  "collect_errors errs = None \<longleftrightarrow> (\<forall>e\<in>set errs. e = None)"
  by (simp add: collect_errors_map_filter NilOrError_def map_filter_id_Nil)

lemma Is_exclusive:
  "\<not> (Is_ErrNotFound e \<and> Is_ErrRemoteCall e)" "\<not> (Is_ErrNotFound e \<and> Is_Canceled e)"
  "\<not> (Is_ErrRemoteCall e \<and> Is_Canceled e)"
  by (induction e) auto

end
