(* ===== verification/ByteView.thy ===== *)
theory ByteView
  imports GoTime Errors
begin

text \<open>
  src/transport/byteview.go: a view of bytes held either as a byte slice or as a string, with an
  expiry.  The slice is used when it is not nil.

  A reslicing \<open>b[from:to]\<close> of a byte slice is checked against the capacity of \<open>b\<close>, not its
  length; the operations that reslice take the bytes between the length and the capacity as an
  argument, \<open>spare\<close>.
\<close>

record byteview =
  bv_b :: slice
  bv_s :: string
  bv_e :: gotime

text \<open>The zero \<open>ByteView{}\<close>.\<close>

definition zero_view :: byteview where
  "zero_view = \<lparr>bv_b = None, bv_s = [], bv_e = zero_time\<rparr>"

section \<open>Operations\<close>

text \<open>The dynamic types \<open>ByteViewFrom\<close> distinguishes.\<close>

datatype any_value = AnyBytes slice | AnyString string | AnyOther

definition ByteViewFrom :: "any_value \<Rightarrow> byteview go" where
  "ByteViewFrom x =
     (case x of
        AnyBytes b \<Rightarrow> Ret (zero_view\<lparr>bv_b := b\<rparr>)
      | AnyString s \<Rightarrow> Ret (zero_view\<lparr>bv_s := s\<rparr>)
      | AnyOther \<Rightarrow> Panic ''interface conversion'')"

definition ByteViewWithExpire :: "slice \<Rightarrow> gotime \<Rightarrow> byteview" where
  "ByteViewWithExpire b expire = \<lparr>bv_b = b, bv_s = [], bv_e = expire\<rparr>"

definition bv_Expire :: "byteview \<Rightarrow> gotime" where
  "bv_Expire v = bv_e v"

definition bv_Len :: "byteview \<Rightarrow> int" where
  "bv_Len v = (case bv_b v of Some b \<Rightarrow> int (length b) | None \<Rightarrow> int (length (bv_s v)))"

text \<open>\<open>cloneBytes\<close> of src/transport/sinks.go: the copy is never nil.\<close>

definition cloneBytes :: "slice \<Rightarrow> slice" where
  "cloneBytes b = Some (case b of None \<Rightarrow> [] | Some bs \<Rightarrow> bs)"

definition bv_ByteSlice :: "byteview \<Rightarrow> slice" where
  "bv_ByteSlice v = (if bv_b v \<noteq> None then cloneBytes (bv_b v) else Some (bv_s v))"

definition bv_String :: "byteview \<Rightarrow> string" where
  "bv_String v = (case bv_b v of Some b \<Rightarrow> b | None \<Rightarrow> bv_s v)"

text \<open>Indexing with Go's bounds check.\<close>

definition go_index :: "bytes \<Rightarrow> int \<Rightarrow> char go" where
  "go_index xs i =
     (if 0 \<le> i \<and> i < int (length xs) then Ret (xs ! nat i) else Panic ''index out of range'')"

definition bv_At :: "byteview \<Rightarrow> int \<Rightarrow> char go" where
  "bv_At v i = (case bv_b v of Some b \<Rightarrow> go_index b i | None \<Rightarrow> go_index (bv_s v) i)"

text \<open>\<open>xs[from:to]\<close> where \<open>xs\<close> is the whole backing store up to the capacity.\<close>

definition go_slice :: "bytes \<Rightarrow> int \<Rightarrow> int \<Rightarrow> bytes go" where
  "go_slice xs from to =
     (if 0 \<le> from \<and> from \<le> to \<and> to \<le> int (length xs)
      then Ret (take (nat to - nat from) (drop (nat from) xs))
      else Panic ''slice bounds out of range'')"

definition bv_Slice :: "bytes \<Rightarrow> byteview \<Rightarrow> int \<Rightarrow> int \<Rightarrow> byteview go" where
  "bv_Slice spare v from to =
     (case bv_b v of
        Some b \<Rightarrow>
          (case go_slice (b @ spare) from to of
             Ret x \<Rightarrow> Ret (zero_view\<lparr>bv_b := Some x\<rparr>) | Panic m \<Rightarrow> Panic m)
      | None \<Rightarrow>
          (case go_slice (bv_s v) from to of
             Ret x \<Rightarrow> Ret (zero_view\<lparr>bv_s := x\<rparr>) | Panic m \<Rightarrow> Panic m))"

definition bv_SliceFrom :: "byteview \<Rightarrow> int \<Rightarrow> byteview go" where
  "bv_SliceFrom v from =
     (case bv_b v of
        Some b \<Rightarrow>
          (case go_slice b from (int (length b)) of
             Ret x \<Rightarrow> Ret (zero_view\<lparr>bv_b := Some x\<rparr>) | Panic m \<Rightarrow> Panic m)
      | None \<Rightarrow>
          (case go_slice (bv_s v) from (int (length (bv_s v))) of
             Ret x \<Rightarrow> Ret (zero_view\<lparr>bv_s := x\<rparr>) | Panic m \<Rightarrow> Panic m))"

text \<open>Go's \<open>copy\<close>: the destination after the copy and the number of bytes copied.\<close>

definition go_copy :: "bytes \<Rightarrow> bytes \<Rightarrow> bytes \<times> nat" where
  "go_copy dest src =
     (let n = min (length dest) (length src) in (take n src @ drop n dest, n))"

definition bv_Copy :: "byteview \<Rightarrow> bytes \<Rightarrow> bytes \<times> nat" where
  "bv_Copy v dest = (case bv_b v of Some b \<Rightarrow> go_copy dest b | None \<Rightarrow> go_copy dest (bv_s v))"

text \<open>The loop \<open>for i, bi := range xs { if bi != ys[i] { return false } }; return true\<close>.\<close>

fun equal_loop :: "bytes \<Rightarrow> nat \<Rightarrow> bytes \<Rightarrow> bool go" where
  "equal_loop [] i ys = Ret True"
| "equal_loop (x # xs) i ys =
     (case go_index ys (int i) of
        Panic m \<Rightarrow> Panic m
      | Ret y \<Rightarrow> if x \<noteq> y then Ret False else equal_loop xs (Suc i) ys)"

definition bv_EqualString :: "byteview \<Rightarrow> string \<Rightarrow> bool go" where
  "bv_EqualString v s =
     (case bv_b v of
        None \<Rightarrow> Ret (bv_s v = s)
      | Some b \<Rightarrow> if int (length s) \<noteq> bv_Len v then Ret False else equal_loop b 0 s)"

text \<open>\<open>bytes.Equal\<close> treats nil as empty.\<close>

definition bv_EqualBytes :: "byteview \<Rightarrow> slice \<Rightarrow> bool go" where
  "bv_EqualBytes v b2 =
     (let bs = (case b2 of None \<Rightarrow> [] | Some x \<Rightarrow> x)
      in case bv_b v of
           Some b \<Rightarrow> Ret (b = bs)
         | None \<Rightarrow> if int (length bs) \<noteq> bv_Len v then Ret False else equal_loop bs 0 (bv_s v))"

definition bv_Equal :: "byteview \<Rightarrow> byteview \<Rightarrow> bool go" where
  "bv_Equal v b2 =
     (if bv_b b2 = None then bv_EqualString v (bv_s b2) else bv_EqualBytes v (bv_b b2))"

text \<open>A reader by the bytes it reads from and its position.\<close>

definition bv_Reader :: "byteview \<Rightarrow> bytes \<times> nat" where
  "bv_Reader v = (case bv_b v of Some b \<Rightarrow> (b, 0) | None \<Rightarrow> (bv_s v, 0))"

text \<open>\<open>ReadAt(p, off)\<close>: the buffer after the call, \<open>n\<close> and \<open>err\<close>.\<close>

definition bv_ReadAt :: "byteview \<Rightarrow> bytes \<Rightarrow> int \<Rightarrow> (bytes \<times> nat \<times> goerr option) go" where
  "bv_ReadAt v p off =
     (if off < 0 then Ret (p, 0, Some (ErrString ''view: invalid offset''))
      else if off \<ge> bv_Len v then Ret (p, 0, Some EOF)
      else case bv_SliceFrom v off of
             Panic m \<Rightarrow> Panic m
           | Ret w \<Rightarrow>
               (let (p', n) = bv_Copy w p
                in Ret (p', n, if n < length p then Some EOF else None)))"

text \<open>\<open>WriteTo(w)\<close>: the writer is given by what its \<open>Write\<close> returns for the bytes it gets.\<close>

definition bv_WriteTo ::
  "(bytes \<Rightarrow> int \<times> goerr option) \<Rightarrow> byteview \<Rightarrow> int \<times> goerr option"
where
  "bv_WriteTo write v =
     (let (m, err) = (case bv_b v of Some b \<Rightarrow> write b | None \<Rightarrow> write (bv_s v));
          err' = (if err = None \<and> m < bv_Len v then Some ErrShortWrite else err)
      in (m, err'))"

section \<open>The bytes of a view\<close>

text \<open>The detail invisible to callers: whichever representation is used, a view is its bytes.\<close>

definition bv_data :: "byteview \<Rightarrow> bytes" where
  "bv_data v = (case bv_b v of Some b \<Rightarrow> b | None \<Rightarrow> bv_s v)"

lemma bv_Len_data: "bv_Len v = int (length (bv_data v))"
  by (simp add: bv_Len_def bv_data_def split: option.split)

lemma bv_data_simps [simp]:
  "bv_data (ByteViewWithExpire (Some b) e) = b" "bv_data (ByteViewWithExpire None e) = []"
  "bv_e (ByteViewWithExpire sl e) = e" "bv_Expire v = bv_e v"
  by (simp_all add: bv_data_def ByteViewWithExpire_def bv_Expire_def)

lemma equal_loop_drop:
  assumes "length ys = i + length xs"
  shows "equal_loop xs i ys = Ret (xs = drop i ys)"
  using assms
proof (induction xs arbitrary: i)
  case Nil
  then show ?case by simp
next
  case (Cons x xs)
  then have "drop i ys = ys ! i # drop (Suc i) ys" by (intro Cons_nth_drop_Suc [symmetric]) simp
  with Cons show ?case by (simp add: go_index_def)
qed

lemma equal_loop_same_length: "length ys = length xs \<Longrightarrow> equal_loop xs 0 ys = Ret (xs = ys)"
  by (simp add: equal_loop_drop)

lemma bv_SliceFrom_data:
  assumes "0 \<le> from" "from \<le> bv_Len v"
  shows "\<exists>w. bv_SliceFrom v from = Ret w \<and> bv_data w = drop (nat from) (bv_data v)"
  using assms
  by (auto simp: bv_SliceFrom_def go_slice_def bv_Len_def bv_data_def zero_view_def
      split: option.splits)

lemma bv_Copy_data: "bv_Copy v dest = go_copy dest (bv_data v)"
  by (simp add: bv_Copy_def bv_data_def split: option.split)

section \<open>Properties\<close>

text \<open>\<open>Equal\<close> compares the bytes of two views, whichever representation each of them uses,
  and never panics.\<close>

lemma bv_Equal_correct: "bv_Equal v w = Ret (bv_data v = bv_data w)"
  by (auto simp: bv_Equal_def bv_EqualString_def bv_EqualBytes_def bv_Len_def bv_data_def Let_def
      equal_loop_same_length split: option.splits)

text \<open>\<open>ReadAt\<close> with a non-negative offset never panics; it overwrites the front of the
  buffer with the bytes of the view from the offset on, reports how many, and reports \<open>EOF\<close>
  exactly when the buffer was not filled or the offset is past the end.\<close>

lemma bv_ReadAt_correct:
  assumes "0 \<le> off"
  shows "bv_ReadAt v p off =
    (let src = drop (nat off) (bv_data v); n = min (length p) (length src)
     in Ret (take n src @ drop n p, n,
             if n < length p \<or> nat off \<ge> length (bv_data v) then Some EOF else None))"
proof (cases "off \<ge> bv_Len v")
  case True
  then show ?thesis using assms by (auto simp: bv_ReadAt_def bv_Len_data Let_def)
next
  case False
  then obtain w where "bv_SliceFrom v off = Ret w" "bv_data w = drop (nat off) (bv_data v)"
    using bv_SliceFrom_data [of off v] assms by auto
  then show ?thesis
    using False assms by (auto simp: bv_ReadAt_def bv_Copy_data go_copy_def Let_def bv_Len_data)
qed

theorem bv_ReadAt_witness:
  "bv_ReadAt (zero_view\<lparr>bv_s := ''hello''\<rparr>) ''..........'' 3 = Ret (''lo........'', 2, Some EOF)"
  using bv_ReadAt_correct [of 3 "zero_view\<lparr>bv_s := ''hello''\<rparr>" "''..........''"]
  by (simp add: bv_data_def zero_view_def)

text \<open>Slicing within the length of a view gives the view of that range of its bytes, without
  an expiry, and does not depend on the spare capacity behind the slice; \<open>At\<close> reads the byte at
  an index in range and panics at any other.\<close>

lemma bv_Slice_At_correct:
  "(0 \<le> from \<and> from \<le> to \<and> to \<le> bv_Len v \<longrightarrow>
     (\<exists>w. bv_Slice spare v from to = Ret w \<and> IsZero (bv_Expire w) \<and>
          bv_data w = take (nat to - nat from) (drop (nat from) (bv_data v)))) \<and>
   bv_At v i = (if 0 \<le> i \<and> i < bv_Len v then Ret (bv_data v ! nat i)
                else Panic ''index out of range'')"
  by (auto simp: bv_Slice_def go_slice_def bv_At_def go_index_def bv_Len_def bv_data_def
      zero_view_def IsZero_def zero_time_def split: option.splits)

theorem bv_Slice_At_witness:
  "\<exists>w. bv_Slice ''xyz'' (zero_view\<lparr>bv_b := Some ''hello''\<rparr>) 1 3 = Ret w \<and> bv_data w = ''el''"
  using bv_Slice_At_correct [of 1 3 "zero_view\<lparr>bv_b := Some ''hello''\<rparr>" "''xyz''" 0]
  by (auto simp: bv_Len_def bv_data_def zero_view_def numeral_eq_Suc)

end
