(* ===== verification/CacheApi.thy ===== *)
theory CacheApi
  imports Lru ByteView
begin

text \<open>
  The \<open>Cache\<close> interface of src/cache.go and what a group relies on when it uses one.  A value of
  an interface type is its method table; the state of the implementation is the type parameter
  \<open>'c\<close>.  \<open>Add\<close> may fail to return (\<^term>\<open>None\<close>), \<open>Get\<close> reads the clock, so the
  reading is an argument.
\<close>

record CacheStats =
  cs_Rejected :: int64
  cs_Bytes :: int64
  cs_Items :: int64
  cs_Gets :: int64
  cs_Hits :: int64
  cs_Evictions :: int64

record 'c Cache =
  Cache_Get :: "gotime \<Rightarrow> string \<Rightarrow> 'c \<Rightarrow> byteview option \<times> 'c"
  Cache_Add :: "string \<Rightarrow> byteview \<Rightarrow> 'c \<Rightarrow> 'c option"
  Cache_Stats :: "'c \<Rightarrow> CacheStats"
  Cache_Remove :: "string \<Rightarrow> 'c \<Rightarrow> 'c"
  Cache_Bytes :: "'c \<Rightarrow> int64"
  Cache_Close :: "'c \<Rightarrow> 'c"

text \<open>
  The contract.  \<open>inv\<close> is the invariant of the implementation and \<open>contents\<close> what it holds,
  expired entries included.  \<open>Get\<close> returns only what the cache holds and what has not expired;
  \<open>Get\<close> and \<open>Add\<close> may drop entries but make none up; \<open>Add\<close> returns, and may refuse the value; \<open>Remove\<close>
  removes the key and nothing else.
\<close>

locale cache_api =
  fixes ops :: "'c Cache"
    and inv :: "'c \<Rightarrow> bool"
    and contents :: "'c \<Rightarrow> string \<rightharpoonup> byteview"
  assumes get_sound:
      "inv c \<Longrightarrow> Cache_Get ops now k c = (r, c') \<Longrightarrow>
       inv c' \<and> contents c' \<subseteq>\<^sub>m contents c \<and>
       (\<forall>v. r = Some v \<longrightarrow> contents c k = Some v \<and> \<not> expired now (bv_e v))"
    and add_sound:
      "inv c \<Longrightarrow>
       \<exists>c'. Cache_Add ops k v c = Some c' \<and> inv c' \<and>
         (\<forall>j u. contents c' j = Some u \<longrightarrow> contents c j = Some u \<or> j = k \<and> u = v)"
    and remove_sound:
      "inv c \<Longrightarrow> inv (Cache_Remove ops k c) \<and>
       contents (Cache_Remove ops k c) = (contents c)(k := None)"
begin

lemma get_absent:
  assumes "inv c" "contents c k = None"
  shows "fst (Cache_Get ops now k c) = None"
  using get_sound [OF assms(1), of now k] assms(2)
  by (cases "Cache_Get ops now k c"; cases "fst (Cache_Get ops now k c)") auto

lemma get_removed:
  "inv c \<Longrightarrow> fst (Cache_Get ops now k (Cache_Remove ops k c)) = None"
  using remove_sound [of c k] get_absent by simp

end

text \<open>A cache that keeps what it is given until it is told otherwise, up to evictions by \<open>Add\<close>:
  \<open>Get\<close> finds every live entry.\<close>

locale retaining_cache = cache_api +
  assumes get_complete:
    "inv c \<Longrightarrow> contents c k = Some v \<Longrightarrow> \<not> expired now (bv_e v) \<Longrightarrow>
     fst (Cache_Get ops now k c) = Some v \<and> contents (snd (Cache_Get ops now k c)) = contents c"
begin

lemma get_spec:
  assumes "inv c"
  shows "fst (Cache_Get ops now k c) =
    (case contents c k of
       None \<Rightarrow> None | Some v \<Rightarrow> if expired now (bv_e v) then None else Some v)"
proof (cases "fst (Cache_Get ops now k c)")
  case None
  then show ?thesis
    using get_complete [OF assms, of k _ now] by (auto split: option.split)
next
  case (Some v)
  then show ?thesis
    using get_sound [OF assms, of now k "Some v" "snd (Cache_Get ops now k c)"]
    by (auto simp: prod_eq_iff)
qed

end

end
