(* ===== verification/Peer.thy ===== *)
theory Peer
  imports Errors
begin

text \<open>
  The messages of src/transport/pb/groupcache.pb.go and the \<open>peer.Client\<close> interface of
  src/transport/peer/client.go.  A field that is a pointer is an option.  A client is a value of a
  type \<open>'c\<close>, and the interface is its method table; calls that leave the process act on a state
  \<open>'w\<close> that stands for everything outside the instance: the network, the other instances, the
  clock, the data behind the getters, and the context of the request.
\<close>

section \<open>Messages\<close>

record GetRequest =
  gr_Group :: "string option"
  gr_Key :: "string option"

record GetResponse =
  gp_Value :: slice
  gp_MinuteQps :: "64 word option"
  gp_Expire :: "int64 option"

record SetRequest =
  sr_Group :: "string option"
  sr_Key :: "string option"
  sr_Value :: slice
  sr_Expire :: "int64 option"

record RemoveKeysRequest =
  rk_Group :: "string option"
  rk_Keys :: "string list"

definition empty_response :: GetResponse where
  "empty_response = \<lparr>gp_Value = None, gp_MinuteQps = None, gp_Expire = None\<rparr>"

text \<open>The generated getters, on a receiver that may be nil.\<close>

definition GetRequest_GetGroup :: "GetRequest option \<Rightarrow> string" where
  "GetRequest_GetGroup x =
     (case x of None \<Rightarrow> [] | Some r \<Rightarrow> (case gr_Group r of None \<Rightarrow> [] | Some s \<Rightarrow> s))"

definition GetRequest_GetKey :: "GetRequest option \<Rightarrow> string" where
  "GetRequest_GetKey x =
     (case x of None \<Rightarrow> [] | Some r \<Rightarrow> (case gr_Key r of None \<Rightarrow> [] | Some s \<Rightarrow> s))"

definition GetResponse_GetValue :: "GetResponse option \<Rightarrow> slice" where
  "GetResponse_GetValue x = (case x of None \<Rightarrow> None | Some r \<Rightarrow> gp_Value r)"

definition GetResponse_GetExpire :: "GetResponse option \<Rightarrow> int64" where
  "GetResponse_GetExpire x =
     (case x of None \<Rightarrow> 0 | Some r \<Rightarrow> (case gp_Expire r of None \<Rightarrow> 0 | Some n \<Rightarrow> n))"

definition SetRequest_GetGroup :: "SetRequest option \<Rightarrow> string" where
  "SetRequest_GetGroup x =
     (case x of None \<Rightarrow> [] | Some r \<Rightarrow> (case sr_Group r of None \<Rightarrow> [] | Some s \<Rightarrow> s))"

definition SetRequest_GetKey :: "SetRequest option \<Rightarrow> string" where
  "SetRequest_GetKey x =
     (case x of None \<Rightarrow> [] | Some r \<Rightarrow> (case sr_Key r of None \<Rightarrow> [] | Some s \<Rightarrow> s))"

definition SetRequest_GetValue :: "SetRequest option \<Rightarrow> slice" where
  "SetRequest_GetValue x = (case x of None \<Rightarrow> None | Some r \<Rightarrow> sr_Value r)"

definition SetRequest_GetExpire :: "SetRequest option \<Rightarrow> int64" where
  "SetRequest_GetExpire x =
     (case x of None \<Rightarrow> 0 | Some r \<Rightarrow> (case sr_Expire r of None \<Rightarrow> 0 | Some n \<Rightarrow> n))"

definition RemoveKeysRequest_GetGroup :: "RemoveKeysRequest option \<Rightarrow> string" where
  "RemoveKeysRequest_GetGroup x =
     (case x of None \<Rightarrow> [] | Some r \<Rightarrow> (case rk_Group r of None \<Rightarrow> [] | Some s \<Rightarrow> s))"

definition RemoveKeysRequest_GetKeys :: "RemoveKeysRequest option \<Rightarrow> string list" where
  "RemoveKeysRequest_GetKeys x = (case x of None \<Rightarrow> [] | Some r \<Rightarrow> rk_Keys r)"

section \<open>Clients\<close>

record Info =
  Address :: string
  IsSelf :: bool

text \<open>\<open>Get\<close> fills in the response it is given.\<close>

record ('c, 'w) Client =
  Client_Get :: "'c \<Rightarrow> GetRequest \<Rightarrow> GetResponse \<Rightarrow> 'w \<Rightarrow> goerr option \<times> GetResponse \<times> 'w"
  Client_Remove :: "'c \<Rightarrow> GetRequest \<Rightarrow> 'w \<Rightarrow> goerr option \<times> 'w"
  Client_Set :: "'c \<Rightarrow> SetRequest \<Rightarrow> 'w \<Rightarrow> goerr option \<times> 'w"
  Client_RemoveKeys :: "'c \<Rightarrow> RemoveKeysRequest \<Rightarrow> 'w \<Rightarrow> goerr option \<times> 'w"
  Client_PeerInfo :: "'c \<Rightarrow> Info"
  Client_HashKey :: "'c \<Rightarrow> string"

text \<open>The placeholder for the local instance.\<close>

record NoOpClient =
  NoOpClient_Info :: Info

definition NoOpClient_Get ::
  "NoOpClient \<Rightarrow> GetRequest \<Rightarrow> GetResponse \<Rightarrow> 'w \<Rightarrow> goerr option \<times> GetResponse \<times> 'w" where
  "NoOpClient_Get e req out w = (None, out, w)"

definition NoOpClient_Remove :: "NoOpClient \<Rightarrow> GetRequest \<Rightarrow> 'w \<Rightarrow> goerr option \<times> 'w" where
  "NoOpClient_Remove e req w = (None, w)"

definition NoOpClient_Set :: "NoOpClient \<Rightarrow> SetRequest \<Rightarrow> 'w \<Rightarrow> goerr option \<times> 'w" where
  "NoOpClient_Set e req w = (None, w)"

definition NoOpClient_RemoveKeys :: "NoOpClient \<Rightarrow> RemoveKeysRequest \<Rightarrow> 'w \<Rightarrow> goerr option \<times> 'w" where
  "NoOpClient_RemoveKeys e req w = (None, w)"

definition NoOpClient_PeerInfo :: "NoOpClient \<Rightarrow> Info" where
  "NoOpClient_PeerInfo e = NoOpClient_Info e"

definition NoOpClient_HashKey :: "NoOpClient \<Rightarrow> string" where
  "NoOpClient_HashKey e = Address (NoOpClient_Info e)"

definition NoOpClient_ops :: "(NoOpClient, 'w) Client" where
  "NoOpClient_ops =
     \<lparr>Client_Get = NoOpClient_Get, Client_Remove = NoOpClient_Remove, Client_Set = NoOpClient_Set,
      Client_RemoveKeys = NoOpClient_RemoveKeys, Client_PeerInfo = NoOpClient_PeerInfo,
      Client_HashKey = NoOpClient_HashKey\<rparr>"

end
