(* ===== verification/GoStrings.thy ===== *)
theory GoStrings
  imports Prelude "HOL-Library.Sublist"
begin

text \<open>
  The parts of Go's \<open>strconv\<close>, \<open>strings\<close> and \<open>net/url\<close> packages the sources use.
\<close>

section \<open>Decimal numbers\<close>

definition digit :: "nat \<Rightarrow> char" where
  "digit n = ''0123456789'' ! (n mod 10)"

text \<open>\<open>strconv.Itoa\<close> on a number that is not negative, and the \<open>%d\<close> verb.\<close>

fun itoa :: "nat \<Rightarrow> string" where
  "itoa n = (if n < 10 then [digit n] else itoa (n div 10) @ [digit n])"

declare itoa.simps [simp del]

section \<open>Strings\<close>

text \<open>\<open>strings.HasPrefix\<close>.\<close>

definition HasPrefix :: "string \<Rightarrow> string \<Rightarrow> bool" where
  "HasPrefix s p \<longleftrightarrow> take (length p) s = p"

text \<open>\<open>strings.SplitN(s, "/", 2)\<close>: one part when there is no slash, else the text before the first
  one and the text after it.\<close>

fun split_slash :: "string \<Rightarrow> string list" where
  "split_slash [] = [[]]"
| "split_slash (c # s) =
     (if c = CHR ''/'' then [[], s]
      else case split_slash s of p # ps \<Rightarrow> (c # p) # ps | [] \<Rightarrow> [])"

text \<open>\<open>strings.Trim(s, "\n")\<close>.\<close>

definition trim_newlines :: "string \<Rightarrow> string" where
  "trim_newlines s =
     (let nl = (\<lambda>c. c = CHR 0x0A) in rev (dropWhile nl (rev (dropWhile nl s))))"

section \<open>Path escaping\<close>

text \<open>\<open>url.PathEscape\<close>: letters, digits, \<open>-_.~\<close> and \<open>$&+=:@\<close> stand for themselves, every
  other byte becomes \<open>%XX\<close>.\<close>

definition unreserved :: "char \<Rightarrow> bool" where
  "unreserved c \<longleftrightarrow>
     (let n = (of_char c :: nat)
      in 48 \<le> n \<and> n \<le> 57 \<or> 65 \<le> n \<and> n \<le> 90 \<or> 97 \<le> n \<and> n \<le> 122 \<or>
         c \<in> set ''-_.~$&+=:@'')"

definition upper_hex :: "nat \<Rightarrow> char" where
  "upper_hex n = ''0123456789ABCDEF'' ! n"

definition escape_char :: "char \<Rightarrow> string" where
  "escape_char c =
     (if unreserved c then [c]
      else [CHR ''%'', upper_hex (of_char c div 16), upper_hex (of_char c mod 16)])"

definition PathEscape :: "string \<Rightarrow> string" where
  "PathEscape s = concat (map escape_char s)"

text \<open>The decoding of the path of a URL by \<open>url.Parse\<close>: \<^term>\<open>None\<close> for a percent sign that is
  not followed by two hexadecimal digits.\<close>

definition unhex :: "char \<Rightarrow> nat option" where
  "unhex c =
     (let n = (of_char c :: nat)
      in if 48 \<le> n \<and> n \<le> 57 then Some (n - 48)
         else if 97 \<le> n \<and> n \<le> 102 then Some (n - 87)
         else if 65 \<le> n \<and> n \<le> 70 then Some (n - 55) else None)"

fun unescape :: "string \<Rightarrow> string option" where
  "unescape [] = Some []"
| "unescape (c # s) =
     (if c \<noteq> CHR ''%'' then map_option (Cons c) (unescape s)
      else case s of
             a # b # s' \<Rightarrow>
               (case (unhex a, unhex b) of
                  (Some x, Some y) \<Rightarrow> map_option (Cons (char_of (16 * x + y))) (unescape s')
                | _ \<Rightarrow> None)
           | _ \<Rightarrow> None)"

section \<open>Lemmas\<close>

lemma HasPrefix_append [simp]: "HasPrefix (p @ s) p"
  by (simp add: HasPrefix_def)

lemma split_slash_append: "CHR ''/'' \<notin> set p \<Longrightarrow> split_slash (p @ CHR ''/'' # s) = [p, s]"
  by (induction p) auto

lemma split_slash_none: "CHR ''/'' \<notin> set p \<Longrightarrow> split_slash p = [p]"
  by (induction p) auto

lemma unhex_upper: "n < 16 \<Longrightarrow> unhex (upper_hex n) = Some n"
proof -
  assume "n < 16"
  then have "n \<in> set [0..<16]" by simp
  moreover have "list_all (\<lambda>n. unhex (upper_hex n) = Some n) [0..<16]" by code_simp
  ultimately show ?thesis unfolding list_all_iff by blast
qed

lemma char_nibbles: "(of_char c :: nat) div 16 < 16" "(of_char c :: nat) mod 16 < 16"
proof -
  have "(of_char c :: nat) < 256"
    by (metis char_of_char of_char_of mod_less_divisor zero_less_numeral)
  then show "(of_char c :: nat) div 16 < 16" by (simp add: less_mult_imp_div_less)
  show "(of_char c :: nat) mod 16 < 16" by simp
qed

lemma unescape_escape_char: "unescape (escape_char c @ s) = map_option (Cons c) (unescape s)"
proof (cases "unreserved c")
  case True
  have "\<not> unreserved CHR ''%''" by code_simp
  then have "c \<noteq> CHR ''%''" using True by auto
  then show ?thesis using True by (simp add: escape_char_def)
next
  case False
  have "char_of (16 * (of_char c div 16) + of_char c mod 16 :: nat) = c"
    by (metis char_of_char mult_div_mod_eq)
  then show ?thesis
    using False unhex_upper [OF char_nibbles(1)] unhex_upper [OF char_nibbles(2)] by (simp add: escape_char_def)
qed

text \<open>Escaping and parsing is the identity, whatever the bytes.\<close>

lemma unescape_PathEscape: "unescape (PathEscape s @ t) = map_option ((@) s) (unescape t)"
  by (induction s) (auto simp: PathEscape_def unescape_escape_char option.map_comp comp_def
      option.map_ident)

lemma upper_hex_slash: "n < 16 \<Longrightarrow> upper_hex n \<noteq> CHR ''/''"
proof -
  assume "n < 16"
  then have "n \<in> set [0..<16]" by simp
  moreover have "list_all (\<lambda>n. upper_hex n \<noteq> CHR ''/'') [0..<16]" by code_simp
  ultimately show ?thesis unfolding list_all_iff by blast
qed

lemma slash_escaped: "CHR ''/'' \<notin> set (PathEscape s)"
proof -
  have "\<not> unreserved CHR ''/''" by code_simp
  then have "CHR ''/'' \<notin> set (escape_char c)" for c
    using upper_hex_slash [OF char_nibbles(1), of c] upper_hex_slash [OF char_nibbles(2), of c]
    by (auto simp: escape_char_def)
  then show ?thesis by (auto simp: PathEscape_def)
qed

lemma digit_inj: "m < 10 \<Longrightarrow> n < 10 \<Longrightarrow> digit m = digit n \<Longrightarrow> m = n"
proof -
  assume "m < 10" "n < 10" "digit m = digit n"
  moreover have "list_all (\<lambda>m. list_all (\<lambda>n. digit m = digit n \<longrightarrow> m = n) [0..<10]) [0..<10]"
    by code_simp
  ultimately show ?thesis by (simp add: list_all_iff)
qed

lemma itoa_not_Nil: "itoa n \<noteq> []"
  by (simp add: itoa.simps [of n])

lemma itoa_inj: "itoa m = itoa n \<Longrightarrow> m = n"
proof (induction m arbitrary: n rule: itoa.induct)
  case (1 m)
  have d: "digit k = digit (k mod 10)" for k by (simp add: digit_def)
  have last: "digit (m mod 10) = digit (n mod 10)"
    using 1(2) d by (auto simp: itoa.simps [of m] itoa.simps [of n] itoa_not_Nil split: if_splits)
  then have mod: "m mod 10 = n mod 10" by (intro digit_inj) simp_all
  show ?case
  proof (cases "m < 10")
    case True
    then have "n < 10" using 1(2) itoa_not_Nil [of "n div 10"]
      by (auto simp: itoa.simps [of m] itoa.simps [of n] split: if_splits)
    then show ?thesis using True mod by simp
  next
    case False
    then have n: "\<not> n < 10" using 1(2) itoa_not_Nil [of "m div 10"]
      by (auto simp: itoa.simps [of m] itoa.simps [of n] split: if_splits)
    then have "itoa (m div 10) = itoa (n div 10)"
      using False 1(2) by (simp add: itoa.simps [of m] itoa.simps [of n])
    then have "m div 10 = n div 10" using 1(1) False by blast
    then show ?thesis using mod by (metis mult_div_mod_eq)
  qed
qed

end
