(* ===== verification/Md5.thy ===== *)
theory Md5
  imports Prelude
begin

text \<open>
  \<open>md5.Sum\<close> and the \<open>%x\<close> verb of \<open>fmt.Sprintf\<close> on its result, as the hash ring of
  src/transport/peer/picker.go uses them: a replica of a peer is hashed as the hexadecimal text of
  the MD5 digest of its number followed by the peer's address.  The digest is the algorithm of
  RFC 1321 on 32-bit words.
\<close>

unbundle bit_operations_syntax

type_synonym w32 = "32 word"

definition rotl32 :: "nat \<Rightarrow> w32 \<Rightarrow> w32" where
  "rotl32 n x = (push_bit n x OR drop_bit (32 - n) x)"

definition md5_K :: "w32 list" where
  "md5_K =
     [0xd76aa478, 0xe8c7b756, 0x242070db, 0xc1bdceee, 0xf57c0faf, 0x4787c62a,
      0xa8304613, 0xfd469501, 0x698098d8, 0x8b44f7af, 0xffff5bb1, 0x895cd7be,
      0x6b901122, 0xfd987193, 0xa679438e, 0x49b40821, 0xf61e2562, 0xc040b340,
      0x265e5a51, 0xe9b6c7aa, 0xd62f105d, 0x02441453, 0xd8a1e681, 0xe7d3fbc8,
      0x21e1cde6, 0xc33707d6, 0xf4d50d87, 0x455a14ed, 0xa9e3e905, 0xfcefa3f8,
      0x676f02d9, 0x8d2a4c8a, 0xfffa3942, 0x8771f681, 0x6d9d6122, 0xfde5380c,
      0xa4beea44, 0x4bdecfa9, 0xf6bb4b60, 0xbebfbc70, 0x289b7ec6, 0xeaa127fa,
      0xd4ef3085, 0x04881d05, 0xd9d4d039, 0xe6db99e5, 0x1fa27cf8, 0xc4ac5665,
      0xf4292244, 0x432aff97, 0xab9423a7, 0xfc93a039, 0x655b59c3, 0x8f0ccc92,
      0xffeff47d, 0x85845dd1, 0x6fa87e4f, 0xfe2ce6e0, 0xa3014314, 0x4e0811a1,
      0xf7537e82, 0xbd3af235, 0x2ad7d2bb, 0xeb86d391]"

definition md5_shift :: "nat list" where
  "md5_shift =
     concat (replicate 4 [7, 12, 17, 22]) @ concat (replicate 4 [5, 9, 14, 20]) @
     concat (replicate 4 [4, 11, 16, 23]) @ concat (replicate 4 [6, 10, 15, 21])"

text \<open>The message followed by \<open>0x80\<close>, zeros up to 56 modulo 64, and the length in bits, low byte
  first.\<close>

definition md5_pad :: "w32 list \<Rightarrow> w32 list" where
  "md5_pad msg =
     (let n = length msg; bits = (of_nat (8 * n) :: 64 word)
      in msg @ [0x80] @ replicate ((119 - n mod 64) mod 64) 0 @
         map (\<lambda>i. ucast (drop_bit (8 * i) bits AND 0xff)) [0..<8])"

fun le_words :: "w32 list \<Rightarrow> w32 list" where
  "le_words (a # b # c # d # xs) =
     (a + push_bit 8 b + push_bit 16 c + push_bit 24 d) # le_words xs"
| "le_words _ = []"

definition md5_F :: "nat \<Rightarrow> w32 \<Rightarrow> w32 \<Rightarrow> w32 \<Rightarrow> w32" where
  "md5_F i b c d =
     (if i < 16 then (b AND c) OR (NOT b AND d)
      else if i < 32 then (d AND b) OR (NOT d AND c)
      else if i < 48 then b XOR c XOR d
      else c XOR (b OR NOT d))"

definition md5_index :: "nat \<Rightarrow> nat" where
  "md5_index i =
     (if i < 16 then i else if i < 32 then (5 * i + 1) mod 16
      else if i < 48 then (3 * i + 5) mod 16 else (7 * i) mod 16)"

definition md5_round :: "w32 list \<Rightarrow> nat \<Rightarrow> w32 \<times> w32 \<times> w32 \<times> w32 \<Rightarrow> w32 \<times> w32 \<times> w32 \<times> w32" where
  "md5_round m i =
     (\<lambda>(a, b, c, d).
        (d, b + rotl32 (md5_shift ! i) (a + md5_F i b c d + md5_K ! i + m ! md5_index i), b, c))"

definition md5_block :: "w32 list \<Rightarrow> w32 \<times> w32 \<times> w32 \<times> w32 \<Rightarrow> w32 \<times> w32 \<times> w32 \<times> w32" where
  "md5_block m s =
     (case (s, fold (md5_round m) [0..<64] s) of
        ((a0, b0, c0, d0), (a, b, c, d)) \<Rightarrow> (a0 + a, b0 + b, c0 + c, d0 + d))"

function md5_blocks :: "w32 list \<Rightarrow> w32 \<times> w32 \<times> w32 \<times> w32 \<Rightarrow> w32 \<times> w32 \<times> w32 \<times> w32" where
  "md5_blocks ws s =
     (if length ws < 16 then s else md5_blocks (drop 16 ws) (md5_block (take 16 ws) s))"
  by pat_completeness auto
termination
  by (relation "measure (\<lambda>(ws, s). length ws)") auto

declare md5_blocks.simps [simp del]

definition bytes_le :: "w32 \<Rightarrow> nat list" where
  "bytes_le x = map (\<lambda>i. unat (drop_bit (8 * i) x AND 0xff)) [0..<4]"

definition md5_Sum :: "bytes \<Rightarrow> nat list" where
  "md5_Sum msg =
     (case md5_blocks (le_words (md5_pad (map of_char msg)))
             (0x67452301, 0xefcdab89, 0x98badcfe, 0x10325476) of
        (a, b, c, d) \<Rightarrow> bytes_le a @ bytes_le b @ bytes_le c @ bytes_le d)"

definition hex_digit :: "nat \<Rightarrow> char" where
  "hex_digit n = ''0123456789abcdef'' ! n"

definition hex_bytes :: "nat list \<Rightarrow> string" where
  "hex_bytes bs = concat (map (\<lambda>b. [hex_digit (b div 16), hex_digit (b mod 16)]) bs)"

definition md5_hex :: "bytes \<Rightarrow> string" where
  "md5_hex msg = hex_bytes (md5_Sum msg)"

lemma length_md5_Sum [simp]: "length (md5_Sum msg) = 16"
  by (simp add: md5_Sum_def bytes_le_def split: prod.split)

lemma length_md5_hex: "length (md5_hex msg) = 32"
proof -
  have "length (hex_bytes bs) = 2 * length bs" for bs
    by (induction bs) (simp_all add: hex_bytes_def)
  then show ?thesis by (simp add: md5_hex_def)
qed

text \<open>The test vectors of RFC 1321 for the empty message and for \<open>abc\<close>.\<close>

lemma md5_hex_empty: "md5_hex [] = ''d41d8cd98f00b204e9800998ecf8427e''"
  by code_simp

lemma md5_hex_abc: "md5_hex ''abc'' = ''900150983cd24fb0d6963f7d28e17f72''"
  by code_simp

end
