(* ===== verification/Picker.thy ===== *)
theory Picker
  imports Peer GoStrings Md5
begin

text \<open>
  The consistent hash ring of src/transport/peer/picker.go.  The default hash function
  \<open>fnv1.HashBytes64\<close> comes from another module and is a parameter, as the option \<open>HashFn\<close> is.
  \<open>sort.Slice\<close> promises a sorted permutation and nothing about the order of equal elements, so the
  sort is a parameter too, with that promise as the locale \<open>ring_sort\<close>.  Ranging over a Go map
  visits the entries in an order of the runtime's choice: \<open>GetAll\<close> takes the order as an argument.
\<close>

type_synonym hash_fn = "bytes \<Rightarrow> 64 word"

definition DefaultReplicas :: int where
  "DefaultReplicas = 50"

record Options =
  HashFn :: "hash_fn option"
  Replicas :: int

text \<open>\<open>entry\<close>: \<open>int(h)\<close> of a 64-bit hash has the same bits and is compared as a signed number.\<close>

record 'c ring_entry =
  r_hash :: int64
  r_client :: 'c

text \<open>The options of a picker after the defaults have been filled in, and the two tables; the map
  from hash keys to clients is an association list.\<close>

record 'c Picker =
  p_HashFn :: hash_fn
  p_Replicas :: int
  p_keys :: "'c ring_entry list"
  p_clientMap :: "(string \<times> 'c) list"

definition NewPicker :: "hash_fn \<Rightarrow> Options \<Rightarrow> 'c Picker" where
  "NewPicker fnv1 opts =
     \<lparr>p_HashFn = (case HashFn opts of None \<Rightarrow> fnv1 | Some h \<Rightarrow> h),
      p_Replicas = (if Replicas opts = 0 then DefaultReplicas else Replicas opts),
      p_keys = [], p_clientMap = []\<rparr>"

definition picker_IsEmpty :: "'c Picker \<Rightarrow> bool" where
  "picker_IsEmpty p \<longleftrightarrow> length (p_keys p) = 0"

text \<open>The hash of replica \<open>i\<close> of a client.\<close>

definition replica_hash :: "hash_fn \<Rightarrow> string \<Rightarrow> nat \<Rightarrow> int64" where
  "replica_hash h hk i = h (md5_hex (itoa i @ hk))"

definition map_set :: "'k \<Rightarrow> 'v \<Rightarrow> ('k \<times> 'v) list \<Rightarrow> ('k \<times> 'v) list" where
  "map_set k v m = filter (\<lambda>(j, _). j \<noteq> k) m @ [(k, v)]"

definition picker_Add ::
  "('c ring_entry list \<Rightarrow> 'c ring_entry list) \<Rightarrow> ('c, 'w) Client \<Rightarrow> 'c \<Rightarrow> 'c Picker \<Rightarrow> 'c Picker" where
  "picker_Add srt cl client p =
     (let hk = Client_HashKey cl client;
          new = map (\<lambda>i. \<lparr>r_hash = replica_hash (p_HashFn p) hk i, r_client = client\<rparr>)
                  [0..<nat (p_Replicas p)]
      in p\<lparr>p_clientMap := map_set hk client (p_clientMap p), p_keys := srt (p_keys p @ new)\<rparr>)"

text \<open>\<open>sort.Search\<close>: the loop keeps \<open>f(i-1) = false\<close> and \<open>f(j) = true\<close>.\<close>

function search_loop :: "(nat \<Rightarrow> bool) \<Rightarrow> nat \<Rightarrow> nat \<Rightarrow> nat" where
  "search_loop f i j =
     (if i < j
      then let h = (i + j) div 2 in if \<not> f h then search_loop f (h + 1) j else search_loop f i h
      else i)"
  by pat_completeness auto
termination
  by (relation "measure (\<lambda>(f, i, j). j - i)") auto

declare search_loop.simps [simp del]

definition sort_Search :: "nat \<Rightarrow> (nat \<Rightarrow> bool) \<Rightarrow> nat" where
  "sort_Search n f = search_loop f 0 n"

definition picker_Get :: "'c Picker \<Rightarrow> string \<Rightarrow> 'c option" where
  "picker_Get p key =
     (if picker_IsEmpty p then None
      else let hash = p_HashFn p key;
               n = length (p_keys p);
               idx = sort_Search n (\<lambda>i. le64 hash (r_hash (p_keys p ! i)))
           in Some (r_client (p_keys p ! (if idx = n then 0 else idx))))"

definition picker_PickPeer :: "('c, 'w) Client \<Rightarrow> 'c Picker \<Rightarrow> string \<Rightarrow> 'c option \<times> bool" where
  "picker_PickPeer cl p key =
     (if picker_IsEmpty p then (None, False)
      else case picker_Get p key of
             None \<Rightarrow> (None, False)
           | Some c \<Rightarrow> (Some c, \<not> IsSelf (Client_PeerInfo cl c)))"

definition picker_GetAll :: "('c list \<Rightarrow> 'c list) \<Rightarrow> 'c Picker \<Rightarrow> 'c list" where
  "picker_GetAll order p = order (map snd (p_clientMap p))"

text \<open>A picker with some clients added, in order.\<close>

definition picker_of ::
  "('c ring_entry list \<Rightarrow> 'c ring_entry list) \<Rightarrow> hash_fn \<Rightarrow> Options \<Rightarrow> ('c, 'w) Client \<Rightarrow> 'c list \<Rightarrow>
   'c Picker" where
  "picker_of srt fnv1 opts cl cs = foldl (\<lambda>p c. picker_Add srt cl c p) (NewPicker fnv1 opts) cs"

section \<open>The promise of the sort\<close>

locale ring_sort =
  fixes srt :: "'c ring_entry list \<Rightarrow> 'c ring_entry list"
  assumes perm: "mset (srt xs) = mset xs"
    and sorted: "sorted_wrt (\<lambda>x y. le64 (r_hash x) (r_hash y)) (srt xs)"
begin

lemma set_srt [simp]: "set (srt xs) = set xs"
  using perm mset_eq_setD by blast

end

definition sort_ring :: "'c ring_entry list \<Rightarrow> 'c ring_entry list" where
  "sort_ring xs = sort_key (\<lambda>e. sint (r_hash e)) xs"

interpretation sort_ring: ring_sort sort_ring
proof
  fix xs :: "'c ring_entry list"
  show "mset (sort_ring xs) = mset xs" by (simp add: sort_ring_def)
  have "sorted (map (\<lambda>e. sint (r_hash e)) (sort_ring xs))" by (simp add: sort_ring_def)
  then show "sorted_wrt (\<lambda>x y. le64 (r_hash x) (r_hash y)) (sort_ring xs)"
    by (simp add: sorted_map le64_def)
qed

section \<open>Binary search\<close>

definition search_result :: "(nat \<Rightarrow> bool) \<Rightarrow> nat \<Rightarrow> nat \<Rightarrow> bool" where
  "search_result f n r \<longleftrightarrow> r \<le> n \<and> (\<forall>k. k < r \<longrightarrow> \<not> f k) \<and> (\<forall>k. r \<le> k \<and> k < n \<longrightarrow> f k)"

lemma search_loop_spec:
  assumes mono: "\<forall>a b. a \<le> b \<and> b < n \<and> f a \<longrightarrow> f b"
  shows "i \<le> j \<Longrightarrow> j \<le> n \<Longrightarrow> \<forall>k. k < i \<longrightarrow> \<not> f k \<Longrightarrow> \<forall>k. j \<le> k \<and> k < n \<longrightarrow> f k \<Longrightarrow>
    search_result f n (search_loop f i j)"
proof (induction "j - i" arbitrary: i j rule: less_induct)
  case less
  show ?case
  proof (cases "i < j")
    case True
    define h where "h = (i + j) div 2"
    have h: "i \<le> h" "h < j" using True by (auto simp: h_def)
    show ?thesis
    proof (cases "f h")
      case f: True
      have eq: "search_loop f i j = search_loop f i h"
        using True f by (simp add: search_loop.simps [of f i j] h_def)
      have up: "\<forall>k. h \<le> k \<and> k < n \<longrightarrow> f k" using mono f by blast
      have "search_result f n (search_loop f i h)"
        using h less.prems(2) by (intro less.hyps less.prems(3) up) simp_all
      then show ?thesis by (simp only: eq)
    next
      case f: False
      have eq: "search_loop f i j = search_loop f (h + 1) j"
        using True f by (simp add: search_loop.simps [of f i j] h_def)
      have low: "\<forall>k. k < h + 1 \<longrightarrow> \<not> f k"
      proof (intro allI impI notI)
        fix k assume "k < h + 1" "f k"
        then have "k \<le> h \<and> h < n \<and> f k" using h(2) less.prems(2) by simp
        then show False using mono f by blast
      qed
      have "search_result f n (search_loop f (h + 1) j)"
        using h less.prems(2) by (intro less.hyps low less.prems(4)) simp_all
      then show ?thesis by (simp only: eq)
    qed
  next
    case False
    then have "search_loop f i j = i" by (simp add: search_loop.simps [of f i j])
    then show ?thesis using False less.prems by (simp add: search_result_def)
  qed
qed

lemma sort_Search_spec:
  assumes "\<forall>a b. a \<le> b \<and> b < n \<and> f a \<longrightarrow> f b"
  shows "sort_Search n f \<le> n" "k < sort_Search n f \<Longrightarrow> \<not> f k"
    "sort_Search n f \<le> k \<Longrightarrow> k < n \<Longrightarrow> f k"
proof -
  have "search_result f n (sort_Search n f)"
    unfolding sort_Search_def by (rule search_loop_spec [OF assms]) auto
  then show "sort_Search n f \<le> n" "k < sort_Search n f \<Longrightarrow> \<not> f k"
    "sort_Search n f \<le> k \<Longrightarrow> k < n \<Longrightarrow> f k"
    unfolding search_result_def by blast+
qed

section \<open>The owner of a key\<close>

text \<open>The first entry of a ring at or after a hash, going round at the end.\<close>

definition succ_entry :: "int64 \<Rightarrow> 'c ring_entry set \<Rightarrow> 'c ring_entry \<Rightarrow> bool" where
  "succ_entry h S e \<longleftrightarrow> e \<in> S \<and>
     (le64 h (r_hash e) \<and> (\<forall>x\<in>S. le64 h (r_hash x) \<longrightarrow> le64 (r_hash e) (r_hash x)) \<or>
      (\<forall>x\<in>S. \<not> le64 h (r_hash x)) \<and> (\<forall>x\<in>S. le64 (r_hash e) (r_hash x)))"

definition ring_sorted :: "'c Picker \<Rightarrow> bool" where
  "ring_sorted p \<longleftrightarrow> sorted_wrt (\<lambda>x y. le64 (r_hash x) (r_hash y)) (p_keys p)"

lemma le64_trans: "le64 a b \<Longrightarrow> le64 b c \<Longrightarrow> le64 a c"
  by (simp add: le64_def)

lemma picker_Get_succ:
  assumes "ring_sorted p" "p_keys p \<noteq> []"
  shows "\<exists>e. picker_Get p key = Some (r_client e) \<and> succ_entry (p_HashFn p key) (set (p_keys p)) e"
proof -
  let ?ks = "p_keys p" and ?h = "p_HashFn p key" and ?n = "length (p_keys p)"
  let ?f = "\<lambda>i. le64 ?h (r_hash (?ks ! i))"
  let ?idx = "sort_Search ?n ?f"
  have le: "a \<le> b \<Longrightarrow> b < ?n \<Longrightarrow> le64 (r_hash (?ks ! a)) (r_hash (?ks ! b))" for a b
    using assms(1) by (cases "a = b") (auto simp: ring_sorted_def sorted_wrt_iff_nth_less)
  have "\<forall>a b. a \<le> b \<and> b < ?n \<and> ?f a \<longrightarrow> ?f b"
    using le le64_trans by blast
  note srch = sort_Search_spec [OF this]
  define i where "i = (if ?idx = ?n then 0 else ?idx)"
  have get: "picker_Get p key = Some (r_client (?ks ! i))"
    using assms(2) by (simp add: picker_Get_def picker_IsEmpty_def i_def Let_def)
  have "succ_entry ?h (set ?ks) (?ks ! i)"
  proof (cases "?idx = ?n")
    case True
    then have "\<not> ?f k" if "k < ?n" for k using srch(2) that by simp
    then show ?thesis
      using True le assms(2) by (auto simp: succ_entry_def i_def in_set_conv_nth)
  next
    case False
    then have lt: "?idx < ?n" using srch(1) by simp
    moreover have "le64 (r_hash (?ks ! ?idx)) (r_hash (?ks ! k))" if "k < ?n" "?f k" for k
      using le [of ?idx k] srch(2) [of k] that by (cases "?idx \<le> k") auto
    ultimately show ?thesis
      using False srch(3) [of ?idx] by (auto simp: succ_entry_def i_def in_set_conv_nth)
  qed
  then show ?thesis using get by blast
qed

lemma le64_antisym: "le64 a b \<Longrightarrow> le64 b a \<Longrightarrow> a = b"
proof -
  assume "le64 a b" "le64 b a"
  then have "word_of_int (sint a) = (word_of_int (sint b) :: int64)" by (simp add: le64_def)
  then show ?thesis by simp
qed

text \<open>The hash of the owning entry depends on the hashes of the ring only.\<close>

lemma succ_entry_hash_le:
  assumes "succ_entry h S e" "succ_entry h T e'" "x \<in> S" "r_hash x = r_hash e'"
    "y \<in> T" "r_hash y = r_hash e"
  shows "le64 (r_hash e) (r_hash e')"
proof (cases "le64 h (r_hash e')")
  case True
  then have "le64 h (r_hash x)" using assms(4) by simp
  then have "le64 (r_hash e) (r_hash x)" using assms(1,3) unfolding succ_entry_def by blast
  then show ?thesis using assms(4) by simp
next
  case False
  then have "\<not> le64 h (r_hash y)" using assms(2,5) unfolding succ_entry_def by blast
  then have "\<not> le64 h (r_hash e)" using assms(6) by simp
  then have "le64 (r_hash e) (r_hash x)" using assms(1,3) unfolding succ_entry_def by blast
  then show ?thesis using assms(4) by simp
qed

lemma succ_entry_hash:
  assumes "succ_entry h S e" "succ_entry h T e'" "r_hash ` S = r_hash ` T"
  shows "r_hash e = r_hash e'"
proof -
  have e: "e \<in> S" "e' \<in> T" using assms(1,2) by (simp_all add: succ_entry_def)
  have "r_hash e \<in> r_hash ` T" unfolding assms(3) [symmetric] by (rule imageI [OF e(1)])
  then obtain x where x: "x \<in> T" "r_hash x = r_hash e" by (elim imageE) simp
  have "r_hash e' \<in> r_hash ` S" unfolding assms(3) by (rule imageI [OF e(2)])
  then obtain y where y: "y \<in> S" "r_hash y = r_hash e'" by (elim imageE) simp
  show ?thesis
    using succ_entry_hash_le [OF assms(1,2) y x] succ_entry_hash_le [OF assms(2,1) x y]
    by (rule le64_antisym)
qed

text \<open>The owner in a larger ring, if it was there before, owned the key before.\<close>

lemma succ_entry_subset:
  assumes "succ_entry h (S \<union> N) e" "e \<in> S"
  shows "succ_entry h S e"
  using assms unfolding succ_entry_def by blast

section \<open>Building a ring\<close>

definition ring_hash :: "hash_fn \<Rightarrow> Options \<Rightarrow> hash_fn" where
  "ring_hash fnv1 opts = (case HashFn opts of None \<Rightarrow> fnv1 | Some h \<Rightarrow> h)"

definition ring_replicas :: "Options \<Rightarrow> nat" where
  "ring_replicas opts = nat (if Replicas opts = 0 then DefaultReplicas else Replicas opts)"

definition ring_set :: "hash_fn \<Rightarrow> nat \<Rightarrow> ('c \<Rightarrow> string) \<Rightarrow> 'c set \<Rightarrow> 'c ring_entry set" where
  "ring_set h n key C = {\<lparr>r_hash = replica_hash h (key c) i, r_client = c\<rparr> | c i. c \<in> C \<and> i < n}"

lemma ring_set_simps:
  "ring_set h n key {} = {}"
  "ring_set h n key (insert c C) = ring_set h n key {c} \<union> ring_set h n key C"
  "ring_set h n key (C \<union> D) = ring_set h n key C \<union> ring_set h n key D"
  by (auto simp: ring_set_def)

lemma ring_set_alt:
  "ring_set h n key C =
     (\<lambda>(c, i). \<lparr>r_hash = replica_hash h (key c) i, r_client = c\<rparr>) ` (C \<times> {..<n})"
  by (auto simp: ring_set_def)

lemma ring_set_image:
  "r_hash ` ring_set h n key C = (\<Union>i<n. (\<lambda>a. replica_hash h a i) ` (key ` C))"
  by (force simp: ring_set_def image_iff)

lemma ring_set_hashes:
  "key ` C = key' ` D \<Longrightarrow> r_hash ` ring_set h n key C = r_hash ` ring_set h n key' D"
  by (simp only: ring_set_image)

lemma picker_of_snoc:
  "picker_of srt fnv1 opts cl (cs @ [c]) = picker_Add srt cl c (picker_of srt fnv1 opts cl cs)"
  by (simp add: picker_of_def)

context ring_sort
begin

lemma Add_fields:
  "p_HashFn (picker_Add srt cl c p) = p_HashFn p"
  "p_Replicas (picker_Add srt cl c p) = p_Replicas p"
  "p_clientMap (picker_Add srt cl c p) = map_set (Client_HashKey cl c) c (p_clientMap p)"
  by (simp_all add: picker_Add_def Let_def)

lemma Add_keys:
  "set (p_keys (picker_Add srt cl c p)) =
     set (p_keys p) \<union> ring_set (p_HashFn p) (nat (p_Replicas p)) (Client_HashKey cl) {c}"
  by (auto simp: picker_Add_def Let_def ring_set_def)

lemma Add_sorted: "ring_sorted (picker_Add srt cl c p)"
  using sorted by (simp add: picker_Add_def Let_def ring_sorted_def)

lemma picker_of_fields:
  "p_HashFn (picker_of srt fnv1 opts cl cs) = ring_hash fnv1 opts"
  "nat (p_Replicas (picker_of srt fnv1 opts cl cs)) = ring_replicas opts"
proof (induction cs rule: rev_induct)
  case Nil
  { case 1 show ?case by (simp add: picker_of_def NewPicker_def ring_hash_def)
  next
    case 2 show ?case by (simp add: picker_of_def NewPicker_def ring_replicas_def) }
qed (simp_all add: picker_of_snoc Add_fields)

lemma picker_of_keys:
  "set (p_keys (picker_of srt fnv1 opts cl cs)) =
     ring_set (ring_hash fnv1 opts) (ring_replicas opts) (Client_HashKey cl) (set cs)"
proof (induction cs rule: rev_induct)
  case Nil
  then show ?case by (simp add: picker_of_def NewPicker_def ring_set_simps)
next
  case (snoc c cs)
  then show ?case
    by (simp add: picker_of_snoc Add_keys picker_of_fields ring_set_simps(2) [of _ _ _ c "set cs"]
        Un_commute)
qed

lemma picker_of_sorted: "ring_sorted (picker_of srt fnv1 opts cl cs)"
proof (cases cs rule: rev_cases)
  case Nil
  then show ?thesis by (simp add: picker_of_def NewPicker_def ring_sorted_def)
next
  case (snoc ds d)
  then show ?thesis by (simp add: picker_of_snoc Add_sorted)
qed

lemma picker_of_Get:
  assumes "set cs \<noteq> {}" "0 < ring_replicas opts"
  shows "\<exists>e. picker_Get (picker_of srt fnv1 opts cl cs) k = Some (r_client e) \<and>
    succ_entry (ring_hash fnv1 opts k)
      (ring_set (ring_hash fnv1 opts) (ring_replicas opts) (Client_HashKey cl) (set cs)) e"
proof -
  let ?p = "picker_of srt fnv1 opts cl cs"
  obtain c where "c \<in> set cs" using assms(1) by (cases cs) auto
  then have "ring_set (ring_hash fnv1 opts) (ring_replicas opts) (Client_HashKey cl) (set cs) \<noteq> {}"
    using assms(2) unfolding ring_set_def by blast
  then have "p_keys ?p \<noteq> []" using picker_of_keys [of fnv1 opts cl cs] by auto
  from picker_Get_succ [OF picker_of_sorted this, of k] show ?thesis
    by (simp add: picker_of_fields picker_of_keys)
qed

lemma picker_of_Get_None:
  assumes "set cs = {} \<or> ring_replicas opts = 0"
  shows "picker_Get (picker_of srt fnv1 opts cl cs) k = None"
proof -
  have "set (p_keys (picker_of srt fnv1 opts cl cs)) = {}"
    using assms by (auto simp: picker_of_keys ring_set_def)
  then show ?thesis by (simp add: picker_Get_def picker_IsEmpty_def)
qed

lemma picker_of_clients:
  "distinct (map fst (p_clientMap (picker_of srt fnv1 opts cl cs))) \<and>
   fst ` set (p_clientMap (picker_of srt fnv1 opts cl cs)) = Client_HashKey cl ` set cs \<and>
   (\<forall>(k, c) \<in> set (p_clientMap (picker_of srt fnv1 opts cl cs)). k = Client_HashKey cl c \<and> c \<in> set cs)"
proof (induction cs rule: rev_induct)
  case Nil
  then show ?case by (simp add: picker_of_def NewPicker_def)
next
  case (snoc c cs)
  let ?m = "p_clientMap (picker_of srt fnv1 opts cl cs)" and ?k = "Client_HashKey cl c"
  have "distinct (map fst (filter (\<lambda>(j, _). j \<noteq> ?k) ?m))"
    using snoc by (simp add: distinct_map inj_on_def)
  moreover have "fst ` set (filter (\<lambda>(j, _). j \<noteq> ?k) ?m) = fst ` set ?m - {?k}" by force
  ultimately show ?case
    using snoc by (auto simp: picker_of_snoc Add_fields map_set_def)
qed

lemma GetAll_mset:
  fixes cl :: "('c, 'w) Client"
  assumes "\<forall>xs. mset (order xs) = mset xs" "distinct (map (Client_HashKey cl) cs)"
  shows "mset (picker_GetAll order (picker_of srt fnv1 opts cl cs)) = mset cs"
proof -
  let ?m = "p_clientMap (picker_of srt fnv1 opts cl cs)"
  note cm = picker_of_clients [of fnv1 opts cl cs]
  have fst: "fst x = Client_HashKey cl (snd x)" if "x \<in> set ?m" for x using cm that by force
  then have "map fst ?m = map (Client_HashKey cl) (map snd ?m)" by (simp add: list_eq_iff_nth_eq)
  then have "distinct (map snd ?m)" using cm by (metis distinct_map)
  moreover have "set (map snd ?m) = set cs"
  proof
    show "set (map snd ?m) \<subseteq> set cs" using cm by force
    show "set cs \<subseteq> set (map snd ?m)"
    proof
      fix c assume c: "c \<in> set cs"
      then have "Client_HashKey cl c \<in> fst ` set ?m" using cm by simp
      then obtain x where x: "x \<in> set ?m" "fst x = Client_HashKey cl c" by (elim imageE) simp
      then have "snd x \<in> set cs" "Client_HashKey cl (snd x) = Client_HashKey cl c"
        using cm fst by force+
      then have "snd x = c" using assms(2) c by (auto simp: distinct_map inj_on_def)
      then show "c \<in> set (map snd ?m)" using x(1) by auto
    qed
  qed
  moreover have "distinct cs" using assms(2) by (simp add: distinct_map)
  ultimately have "mset (map snd ?m) = mset cs"
    using set_eq_iff_mset_eq_distinct [of "map snd ?m" cs] by blast
  then show ?thesis using assms(1) by (simp add: picker_GetAll_def)
qed

end

section \<open>Properties\<close>

text \<open>C31.  The owner of a key is its successor on the ring: with a sort that keeps its promise, at
  least one client and a positive number of replicas, \<open>Get\<close> returns a client that was added, and
  one of its replicas has the smallest hash at or after the hash of the key; when no replica of any
  client is at or after it, the smallest hash of all.\<close>

theorem picker_owner_is_successor:
  fixes cl :: "('c, 'w) Client"
  defines "H \<equiv> \<lambda>h c i. sint (replica_hash h (Client_HashKey cl c) i)"
  assumes "ring_sort srt" "cs \<noteq> []" "0 < ring_replicas opts"
  shows "\<exists>c i. picker_Get (picker_of srt fnv1 opts cl cs) key = Some c \<and>
    c \<in> set cs \<and> i < ring_replicas opts \<and>
    (let h = ring_hash fnv1 opts; k = sint (h key)
     in if \<exists>d\<in>set cs. \<exists>j<ring_replicas opts. k \<le> H h d j
        then k \<le> H h c i \<and>
             (\<forall>d\<in>set cs. \<forall>j<ring_replicas opts. k \<le> H h d j \<longrightarrow> H h c i \<le> H h d j)
        else \<forall>d\<in>set cs. \<forall>j<ring_replicas opts. H h c i \<le> H h d j)"
proof -
  have cs: "set cs \<noteq> {}" using assms(3) by simp
  obtain e where e: "picker_Get (picker_of srt fnv1 opts cl cs) key = Some (r_client e)"
    "succ_entry (ring_hash fnv1 opts key)
      (ring_set (ring_hash fnv1 opts) (ring_replicas opts) (Client_HashKey cl) (set cs)) e"
    using ring_sort.picker_of_Get [OF assms(2) cs assms(4)] by blast
  then obtain c i where ci: "c \<in> set cs" "i < ring_replicas opts"
    "e = \<lparr>r_hash = replica_hash (ring_hash fnv1 opts) (Client_HashKey cl c) i, r_client = c\<rparr>"
    by (auto simp: succ_entry_def ring_set_def)
  let ?h = "ring_hash fnv1 opts" and ?n = "ring_replicas opts"
  let ?R = "ring_set ?h ?n (Client_HashKey cl) (set cs)" and ?k = "sint (ring_hash fnv1 opts key)"
  define V where "V = (sint \<circ> r_hash) ` ?R"
  have ring: "\<forall>d\<in>set cs. \<forall>j<?n. H ?h d j \<in> V"
    by (force simp: V_def ring_set_alt H_def image_iff)
  have e_hash: "sint (r_hash e) = H ?h c i" by (simp add: ci(3) H_def)
  have "?k \<le> H ?h c i \<and> (\<forall>v\<in>V. ?k \<le> v \<longrightarrow> H ?h c i \<le> v) \<or>
      (\<forall>v\<in>V. \<not> ?k \<le> v) \<and> (\<forall>v\<in>V. H ?h c i \<le> v)"
    using e(2) by (auto simp: V_def succ_entry_def le64_def e_hash)
  then have "if \<exists>d\<in>set cs. \<exists>j<?n. ?k \<le> H ?h d j
      then ?k \<le> H ?h c i \<and> (\<forall>d\<in>set cs. \<forall>j<?n. ?k \<le> H ?h d j \<longrightarrow> H ?h c i \<le> H ?h d j)
      else \<forall>d\<in>set cs. \<forall>j<?n. H ?h c i \<le> H ?h d j"
    using ring ci(1,2) by (auto split: if_splits)
  moreover have "picker_Get (picker_of srt fnv1 opts cl cs) key = Some c" using e(1) ci(3) by simp
  ultimately show ?thesis unfolding Let_def using ci(1,2) by (intro exI conjI)
qed

text \<open>For the witnesses: the placeholder clients of two addresses, one replica each, hashed by the
  first byte.\<close>

definition demo_client :: "string \<Rightarrow> NoOpClient" where
  "demo_client a = \<lparr>NoOpClient_Info = \<lparr>Address = a, IsSelf = True\<rparr>\<rparr>"

definition demo_ops :: "(NoOpClient, unit) Client" where
  "demo_ops = NoOpClient_ops"

definition demo_hash :: hash_fn where
  "demo_hash b = foldl (\<lambda>a c. 256 * a + of_char c) 0 (take 4 b)"

definition demo_opts :: Options where
  "demo_opts = \<lparr>HashFn = Some demo_hash, Replicas = 1\<rparr>"

lemma demo_ring: "ring_replicas demo_opts = 1" "ring_hash fnv1 demo_opts = demo_hash"
  "Client_HashKey demo_ops (demo_client a) = a"
  by (simp_all add: ring_replicas_def ring_hash_def demo_opts_def NoOpClient_ops_def demo_ops_def
      NoOpClient_HashKey_def demo_client_def)

lemma demo_hashes: "replica_hash demo_hash ''a'' 0 \<noteq> replica_hash demo_hash ''b'' 0"
  by code_simp

theorem picker_owner_witness:
  "\<exists>c. picker_Get (picker_of sort_ring (\<lambda>_. 0) demo_opts demo_ops [demo_client ''a'']) ''k''
     = Some c \<and> c = demo_client ''a''"
  using picker_owner_is_successor [OF sort_ring.ring_sort_axioms, of "[demo_client ''a'']" demo_opts
      "\<lambda>_. 0" demo_ops "''k''"]
  by (auto simp: demo_ring)

text \<open>The owner depends on the addresses of the clients only.\<close>

lemma same_owner:
  fixes cl :: "('c, 'w) Client" and cl' :: "('d, 'v) Client"
  assumes "ring_sort srt" "ring_sort srt'"
    and same: "Client_HashKey cl ` set cs = Client_HashKey cl' ` set cs'"
    and no_collision: "\<forall>a\<in>Client_HashKey cl ` set cs. \<forall>b\<in>Client_HashKey cl ` set cs.
      \<forall>i<ring_replicas opts. \<forall>j<ring_replicas opts.
        replica_hash (ring_hash fnv1 opts) a i = replica_hash (ring_hash fnv1 opts) b j \<longrightarrow> a = b"
  shows "map_option (Client_HashKey cl) (picker_Get (picker_of srt fnv1 opts cl cs) key) =
    map_option (Client_HashKey cl') (picker_Get (picker_of srt' fnv1 opts cl' cs') key)"
proof (cases "set cs = {} \<or> ring_replicas opts = 0")
  case True
  then have "set cs' = {} \<or> ring_replicas opts = 0" using same by auto
  then show ?thesis
    using True
    by (simp add: ring_sort.picker_of_Get_None [OF assms(1)] ring_sort.picker_of_Get_None [OF assms(2)])
next
  case False
  let ?h = "ring_hash fnv1 opts" and ?n = "ring_replicas opts"
  have ne: "set cs \<noteq> {}" "set cs' \<noteq> {}" "0 < ?n" using False same by auto
  obtain e where e: "picker_Get (picker_of srt fnv1 opts cl cs) key = Some (r_client e)"
    "succ_entry (?h key) (ring_set ?h ?n (Client_HashKey cl) (set cs)) e"
    using ring_sort.picker_of_Get [OF assms(1) ne(1,3)] by blast
  obtain e' where e': "picker_Get (picker_of srt' fnv1 opts cl' cs') key = Some (r_client e')"
    "succ_entry (?h key) (ring_set ?h ?n (Client_HashKey cl') (set cs')) e'"
    using ring_sort.picker_of_Get [OF assms(2) ne(2,3)] by blast
  have hash: "r_hash e = r_hash e'"
    by (rule succ_entry_hash [OF e(2) e'(2)]) (rule ring_set_hashes [OF same])
  obtain c i where c: "c \<in> set cs" "i < ?n" "r_client e = c"
    "r_hash e = replica_hash ?h (Client_HashKey cl c) i"
    using e(2) by (auto simp: succ_entry_def ring_set_def)
  obtain c' j where c': "c' \<in> set cs'" "j < ?n" "r_client e' = c'"
    "r_hash e' = replica_hash ?h (Client_HashKey cl' c') j"
    using e'(2) by (auto simp: succ_entry_def ring_set_def)
  have "Client_HashKey cl' c' \<in> Client_HashKey cl ` set cs" using same c'(1) by blast
  then have "Client_HashKey cl c = Client_HashKey cl' c'"
    using no_collision c c' hash by (metis imageI)
  then show ?thesis using e(1) e'(1) c(3) c'(3) by simp
qed

text \<open>C32.  The nodes of a cluster agree on the owner of every key: two pickers with the same
  options, filled by different nodes, in different orders, with different client objects and by
  different sorts, name an owner with the same address, as long as they hold the same addresses and
  no replicas of two addresses have the same hash.\<close>

theorem picker_nodes_agree:
  fixes cl :: "('c, 'w) Client" and cl' :: "('d, 'v) Client"
  assumes "ring_sort srt" "ring_sort srt'"
    and same: "Client_HashKey cl ` set cs = Client_HashKey cl' ` set cs'"
    and no_collision: "\<forall>a\<in>Client_HashKey cl ` set cs. \<forall>b\<in>Client_HashKey cl ` set cs.
      \<forall>i<ring_replicas opts. \<forall>j<ring_replicas opts.
        replica_hash (ring_hash fnv1 opts) a i = replica_hash (ring_hash fnv1 opts) b j \<longrightarrow> a = b"
  shows "map_option (Client_HashKey cl) (picker_Get (picker_of srt fnv1 opts cl cs) key) =
    map_option (Client_HashKey cl') (picker_Get (picker_of srt' fnv1 opts cl' cs') key)"
  by (rule same_owner [OF assms])

theorem picker_nodes_agree_witness:
  "map_option (Client_HashKey demo_ops) (picker_Get (picker_of sort_ring (\<lambda>_. 0) demo_opts
       demo_ops [demo_client ''a'', demo_client ''b'']) ''k'') =
   map_option (Client_HashKey demo_ops) (picker_Get (picker_of sort_ring (\<lambda>_. 0) demo_opts
       demo_ops [demo_client ''b'', demo_client ''a'']) ''k'')"
  using demo_hashes
  by (intro picker_nodes_agree sort_ring.ring_sort_axioms) (auto simp: demo_ring)

text \<open>C33.  Minimal disruption: adding a client to a ring whose replicas do not collide moves a key to the new client or leaves it
  where it was; read backwards, removing a client moves the keys it owned and no others.\<close>

theorem picker_Add_minimal_disruption:
  fixes cl :: "('c, 'w) Client"
  assumes "ring_sort srt"
    and no_collision: "\<forall>a\<in>set cs. \<forall>b\<in>set cs. \<forall>i<ring_replicas opts. \<forall>j<ring_replicas opts.
        replica_hash (ring_hash fnv1 opts) (Client_HashKey cl a) i =
        replica_hash (ring_hash fnv1 opts) (Client_HashKey cl b) j \<longrightarrow> a = b"
  shows "picker_Get (picker_of srt fnv1 opts cl (cs @ [c])) key = Some c \<or>
    picker_Get (picker_of srt fnv1 opts cl (cs @ [c])) key =
    picker_Get (picker_of srt fnv1 opts cl cs) key"
proof (cases "ring_replicas opts = 0")
  case True
  then show ?thesis by (simp add: ring_sort.picker_of_Get_None [OF assms(1)])
next
  case False
  let ?h = "ring_hash fnv1 opts" and ?n = "ring_replicas opts" and ?k = "Client_HashKey cl"
  have ne: "set (cs @ [c]) \<noteq> {}" "0 < ?n" using False by auto
  obtain e where e: "picker_Get (picker_of srt fnv1 opts cl (cs @ [c])) key = Some (r_client e)"
    "succ_entry (?h key) (ring_set ?h ?n ?k (set (cs @ [c]))) e"
    using ring_sort.picker_of_Get [OF assms(1) ne] by blast
  have un: "ring_set ?h ?n ?k (set (cs @ [c])) = ring_set ?h ?n ?k (set cs) \<union> ring_set ?h ?n ?k {c}"
    by (auto simp: ring_set_def)
  show ?thesis
  proof (cases "e \<in> ring_set ?h ?n ?k (set cs)")
    case True
    then have old: "succ_entry (?h key) (ring_set ?h ?n ?k (set cs)) e"
      using succ_entry_subset e(2) un by metis
    have "set cs \<noteq> {}" using True by (auto simp: ring_set_def)
    from ring_sort.picker_of_Get [OF assms(1) this ne(2)] obtain e' where
      e': "picker_Get (picker_of srt fnv1 opts cl cs) key = Some (r_client e')"
      "succ_entry (?h key) (ring_set ?h ?n ?k (set cs)) e'" by blast
    have "r_hash e = r_hash e'" by (rule succ_entry_hash [OF old e'(2) refl])
    then have "r_client e = r_client e'"
      using True e'(2) no_collision by (auto simp: succ_entry_def ring_set_def)
    then show ?thesis using e(1) e'(1) by simp
  next
    case False
    then have "e \<in> ring_set ?h ?n ?k {c}" using e(2) un by (auto simp: succ_entry_def)
    then show ?thesis using e(1) by (auto simp: ring_set_def)
  qed
qed

theorem picker_Add_minimal_witness:
  "picker_Get (picker_of sort_ring (\<lambda>_. 0) demo_opts demo_ops
     ([demo_client ''a'', demo_client ''b''] @ [demo_client ''c''])) ''k'' = Some (demo_client ''c'') \<or>
   picker_Get (picker_of sort_ring (\<lambda>_. 0) demo_opts demo_ops
     ([demo_client ''a'', demo_client ''b''] @ [demo_client ''c''])) ''k'' =
   picker_Get (picker_of sort_ring (\<lambda>_. 0) demo_opts demo_ops
     [demo_client ''a'', demo_client ''b'']) ''k''"
  using demo_hashes
  by (intro picker_Add_minimal_disruption sort_ring.ring_sort_axioms) (auto simp: demo_ring)

text \<open>\<open>GetAll\<close> lists every peer once: with clients of different hash keys, in whatever order
  the map is visited, it returns the clients that were added, each once.\<close>

lemma picker_GetAll_each_once:
  fixes cl :: "('c, 'w) Client"
  assumes "ring_sort srt" "\<forall>xs. mset (order xs) = mset xs"
    and "distinct (map (Client_HashKey cl) cs)"
  shows "mset (picker_GetAll order (picker_of srt fnv1 opts cl cs)) = mset cs"
  by (rule ring_sort.GetAll_mset [OF assms])

lemma picker_GetAll_example:
  "mset (picker_GetAll rev (picker_of sort_ring (\<lambda>_. 0) demo_opts demo_ops
     [demo_client ''a'', demo_client ''b''])) = {#demo_client ''a'', demo_client ''b''#}"
  using picker_GetAll_each_once [OF sort_ring.ring_sort_axioms, of rev demo_ops
      "[demo_client ''a'', demo_client ''b'']" "\<lambda>_. 0" demo_opts]
  by (simp add: demo_ring)

end
