(* ===== verification/Sinks.thy ===== *)
theory Sinks
  imports ByteView Errors
begin

text \<open>
  The sinks of src/transport/sinks.go: where a getter puts a value and a caller of \<open>Get\<close> finds it.
  \<open>Sink\<close> is an interface with five implementations in the source, one constructor each; a pointer
  that a caller may pass as nil is an option.  The encoding of protocol buffer messages is the
  module google.golang.org/protobuf: a message is a value of a type \<open>'p\<close>, and \<open>proto.Marshal\<close> and
  \<open>proto.Unmarshal\<close> are the parameter \<open>pr\<close>.
\<close>

record 'p proto =
  proto_Marshal :: "'p \<Rightarrow> slice \<times> goerr option"
  proto_Unmarshal :: "slice \<Rightarrow> 'p \<Rightarrow> 'p \<times> goerr option"

datatype 'p sink =
    stringSink "string option" byteview
  | byteViewSink byteview
  | protoSink 'p byteview
  | allocBytesSink "slice option" byteview
  | truncBytesSink "slice option" byteview

type_synonym 'p sink_result = "(goerr option \<times> 'p sink) go"

definition nil_deref :: string where
  "nil_deref = ''invalid memory address or nil pointer dereference''"

section \<open>Constructors\<close>

definition StringSink :: "string option \<Rightarrow> 'p sink" where
  "StringSink sp = stringSink sp zero_view"

definition ByteViewSink :: "byteview option \<Rightarrow> 'p sink go" where
  "ByteViewSink dst = (case dst of None \<Rightarrow> Panic ''nil dst'' | Some v \<Rightarrow> Ret (byteViewSink v))"

definition ProtoSink :: "'p \<Rightarrow> 'p sink" where
  "ProtoSink m = protoSink m zero_view"

definition AllocatingByteSliceSink :: "slice option \<Rightarrow> 'p sink" where
  "AllocatingByteSliceSink dst = allocBytesSink dst zero_view"

definition TruncatingByteSliceSink :: "slice option \<Rightarrow> 'p sink" where
  "TruncatingByteSliceSink dst = truncBytesSink dst zero_view"

section \<open>Setting a value\<close>

definition slice_bytes :: "slice \<Rightarrow> bytes" where
  "slice_bytes b = (case b of None \<Rightarrow> [] | Some bs \<Rightarrow> bs)"

definition stringSink_SetString :: "string option \<Rightarrow> byteview \<Rightarrow> string \<Rightarrow> gotime \<Rightarrow> 'p sink_result" where
  "stringSink_SetString sp v s e =
     (case sp of
        None \<Rightarrow> Panic nil_deref
      | Some _ \<Rightarrow> Ret (None, stringSink (Some s) (v\<lparr>bv_b := None, bv_s := s, bv_e := e\<rparr>)))"

definition stringSink_SetBytes :: "string option \<Rightarrow> byteview \<Rightarrow> slice \<Rightarrow> gotime \<Rightarrow> 'p sink_result" where
  "stringSink_SetBytes sp v b e = stringSink_SetString sp v (slice_bytes b) e"

definition stringSink_SetProto ::
  "'p proto \<Rightarrow> string option \<Rightarrow> byteview \<Rightarrow> 'p \<Rightarrow> gotime \<Rightarrow> 'p sink_result" where
  "stringSink_SetProto pr sp v m e =
     (case proto_Marshal pr m of
        (_, Some err) \<Rightarrow> Ret (Some err, stringSink sp v)
      | (b, None) \<Rightarrow>
          (case sp of
             None \<Rightarrow> Panic nil_deref
           | Some _ \<Rightarrow> Ret (None, stringSink (Some (slice_bytes b)) (v\<lparr>bv_b := b, bv_e := e\<rparr>))))"

definition byteViewSink_setView :: "byteview \<Rightarrow> byteview \<Rightarrow> 'p sink_result" where
  "byteViewSink_setView dst v = Ret (None, byteViewSink v)"

definition byteViewSink_SetProto :: "'p proto \<Rightarrow> byteview \<Rightarrow> 'p \<Rightarrow> gotime \<Rightarrow> 'p sink_result" where
  "byteViewSink_SetProto pr dst m e =
     (case proto_Marshal pr m of
        (_, Some err) \<Rightarrow> Ret (Some err, byteViewSink dst)
      | (b, None) \<Rightarrow> Ret (None, byteViewSink \<lparr>bv_b = b, bv_s = [], bv_e = e\<rparr>))"

definition byteViewSink_SetBytes :: "byteview \<Rightarrow> slice \<Rightarrow> gotime \<Rightarrow> 'p sink_result" where
  "byteViewSink_SetBytes dst b e =
     Ret (None, byteViewSink \<lparr>bv_b = cloneBytes b, bv_s = [], bv_e = e\<rparr>)"

definition byteViewSink_SetString :: "byteview \<Rightarrow> string \<Rightarrow> gotime \<Rightarrow> 'p sink_result" where
  "byteViewSink_SetString dst s e = Ret (None, byteViewSink \<lparr>bv_b = None, bv_s = s, bv_e = e\<rparr>)"

definition protoSink_SetBytes :: "'p proto \<Rightarrow> 'p \<Rightarrow> byteview \<Rightarrow> slice \<Rightarrow> gotime \<Rightarrow> 'p sink_result" where
  "protoSink_SetBytes pr dst v b e =
     (case proto_Unmarshal pr b dst of
        (dst', Some err) \<Rightarrow> Ret (Some err, protoSink dst' v)
      | (dst', None) \<Rightarrow> Ret (None, protoSink dst' (v\<lparr>bv_b := cloneBytes b, bv_s := [], bv_e := e\<rparr>)))"

definition protoSink_SetString :: "'p proto \<Rightarrow> 'p \<Rightarrow> byteview \<Rightarrow> string \<Rightarrow> gotime \<Rightarrow> 'p sink_result" where
  "protoSink_SetString pr dst v s e =
     (case proto_Unmarshal pr (Some s) dst of
        (dst', Some err) \<Rightarrow> Ret (Some err, protoSink dst' v)
      | (dst', None) \<Rightarrow> Ret (None, protoSink dst' (v\<lparr>bv_b := Some s, bv_s := [], bv_e := e\<rparr>)))"

definition protoSink_SetProto :: "'p proto \<Rightarrow> 'p \<Rightarrow> byteview \<Rightarrow> 'p \<Rightarrow> gotime \<Rightarrow> 'p sink_result" where
  "protoSink_SetProto pr dst v m e =
     (case proto_Marshal pr m of
        (_, Some err) \<Rightarrow> Ret (Some err, protoSink dst v)
      | (b, None) \<Rightarrow>
          (case proto_Unmarshal pr b dst of
             (dst', Some err) \<Rightarrow> Ret (Some err, protoSink dst' v)
           | (dst', None) \<Rightarrow> Ret (None, protoSink dst' (v\<lparr>bv_b := b, bv_s := [], bv_e := e\<rparr>))))"

definition allocBytesSink_setView :: "slice option \<Rightarrow> byteview \<Rightarrow> byteview \<Rightarrow> 'p sink_result" where
  "allocBytesSink_setView dst old v =
     (case dst of
        None \<Rightarrow> Panic nil_deref
      | Some _ \<Rightarrow>
          Ret (None, allocBytesSink
            (Some (if bv_b v \<noteq> None then cloneBytes (bv_b v) else Some (bv_s v))) v))"

definition allocBytesSink_setBytesOwned ::
  "slice option \<Rightarrow> byteview \<Rightarrow> slice \<Rightarrow> gotime \<Rightarrow> 'p sink_result" where
  "allocBytesSink_setBytesOwned dst v b e =
     (case dst of
        None \<Rightarrow> Ret (Some (ErrString ''nil AllocatingByteSliceSink *[]byte dst''), allocBytesSink dst v)
      | Some _ \<Rightarrow>
          Ret (None, allocBytesSink (Some (cloneBytes b)) (v\<lparr>bv_b := b, bv_s := [], bv_e := e\<rparr>)))"

definition allocBytesSink_SetProto ::
  "'p proto \<Rightarrow> slice option \<Rightarrow> byteview \<Rightarrow> 'p \<Rightarrow> gotime \<Rightarrow> 'p sink_result" where
  "allocBytesSink_SetProto pr dst v m e =
     (case proto_Marshal pr m of
        (_, Some err) \<Rightarrow> Ret (Some err, allocBytesSink dst v)
      | (b, None) \<Rightarrow> allocBytesSink_setBytesOwned dst v b e)"

definition allocBytesSink_SetBytes ::
  "slice option \<Rightarrow> byteview \<Rightarrow> slice \<Rightarrow> gotime \<Rightarrow> 'p sink_result" where
  "allocBytesSink_SetBytes dst v b e = allocBytesSink_setBytesOwned dst v (cloneBytes b) e"

definition allocBytesSink_SetString ::
  "slice option \<Rightarrow> byteview \<Rightarrow> string \<Rightarrow> gotime \<Rightarrow> 'p sink_result" where
  "allocBytesSink_SetString dst v s e =
     (case dst of
        None \<Rightarrow> Ret (Some (ErrString ''nil AllocatingByteSliceSink *[]byte dst''), allocBytesSink dst v)
      | Some _ \<Rightarrow>
          Ret (None, allocBytesSink (Some (Some s)) (v\<lparr>bv_b := None, bv_s := s, bv_e := e\<rparr>)))"

text \<open>\<open>n := copy(*s.dst, b); if n < len(*s.dst) { *s.dst = (*s.dst)[:n] }\<close>.\<close>

definition trunc_copy :: "slice \<Rightarrow> bytes \<Rightarrow> slice" where
  "trunc_copy d src =
     map_option (\<lambda>ds. case go_copy ds src of (ds', n) \<Rightarrow> if n < length ds' then take n ds' else ds') d"

definition truncBytesSink_setBytesOwned ::
  "slice option \<Rightarrow> byteview \<Rightarrow> slice \<Rightarrow> gotime \<Rightarrow> 'p sink_result" where
  "truncBytesSink_setBytesOwned dst v b e =
     (case dst of
        None \<Rightarrow> Ret (Some (ErrString ''nil TruncatingByteSliceSink *[]byte dst''), truncBytesSink dst v)
      | Some d \<Rightarrow>
          Ret (None, truncBytesSink (Some (trunc_copy d (slice_bytes b)))
            (v\<lparr>bv_b := b, bv_s := [], bv_e := e\<rparr>)))"

definition truncBytesSink_SetProto ::
  "'p proto \<Rightarrow> slice option \<Rightarrow> byteview \<Rightarrow> 'p \<Rightarrow> gotime \<Rightarrow> 'p sink_result" where
  "truncBytesSink_SetProto pr dst v m e =
     (case proto_Marshal pr m of
        (_, Some err) \<Rightarrow> Ret (Some err, truncBytesSink dst v)
      | (b, None) \<Rightarrow> truncBytesSink_setBytesOwned dst v b e)"

definition truncBytesSink_SetBytes ::
  "slice option \<Rightarrow> byteview \<Rightarrow> slice \<Rightarrow> gotime \<Rightarrow> 'p sink_result" where
  "truncBytesSink_SetBytes dst v b e = truncBytesSink_setBytesOwned dst v (cloneBytes b) e"

definition truncBytesSink_SetString ::
  "slice option \<Rightarrow> byteview \<Rightarrow> string \<Rightarrow> gotime \<Rightarrow> 'p sink_result" where
  "truncBytesSink_SetString dst v s e =
     (case dst of
        None \<Rightarrow> Ret (Some (ErrString ''nil TruncatingByteSliceSink *[]byte dst''), truncBytesSink dst v)
      | Some d \<Rightarrow>
          Ret (None, truncBytesSink (Some (trunc_copy d s)) (v\<lparr>bv_b := None, bv_s := s, bv_e := e\<rparr>)))"

section \<open>The interface\<close>

text \<open>Dynamic dispatch on the implementation.\<close>

fun Sink_SetString :: "'p proto \<Rightarrow> 'p sink \<Rightarrow> string \<Rightarrow> gotime \<Rightarrow> 'p sink_result" where
  "Sink_SetString pr (stringSink sp v) s e = stringSink_SetString sp v s e"
| "Sink_SetString pr (byteViewSink d) s e = byteViewSink_SetString d s e"
| "Sink_SetString pr (protoSink d v) s e = protoSink_SetString pr d v s e"
| "Sink_SetString pr (allocBytesSink d v) s e = allocBytesSink_SetString d v s e"
| "Sink_SetString pr (truncBytesSink d v) s e = truncBytesSink_SetString d v s e"

fun Sink_SetBytes :: "'p proto \<Rightarrow> 'p sink \<Rightarrow> slice \<Rightarrow> gotime \<Rightarrow> 'p sink_result" where
  "Sink_SetBytes pr (stringSink sp v) b e = stringSink_SetBytes sp v b e"
| "Sink_SetBytes pr (byteViewSink d) b e = byteViewSink_SetBytes d b e"
| "Sink_SetBytes pr (protoSink d v) b e = protoSink_SetBytes pr d v b e"
| "Sink_SetBytes pr (allocBytesSink d v) b e = allocBytesSink_SetBytes d v b e"
| "Sink_SetBytes pr (truncBytesSink d v) b e = truncBytesSink_SetBytes d v b e"

fun Sink_SetProto :: "'p proto \<Rightarrow> 'p sink \<Rightarrow> 'p \<Rightarrow> gotime \<Rightarrow> 'p sink_result" where
  "Sink_SetProto pr (stringSink sp v) m e = stringSink_SetProto pr sp v m e"
| "Sink_SetProto pr (byteViewSink d) m e = byteViewSink_SetProto pr d m e"
| "Sink_SetProto pr (protoSink d v) m e = protoSink_SetProto pr d v m e"
| "Sink_SetProto pr (allocBytesSink d v) m e = allocBytesSink_SetProto pr d v m e"
| "Sink_SetProto pr (truncBytesSink d v) m e = truncBytesSink_SetProto pr d v m e"

text \<open>\<open>View\<close> never fails: the error of the Go methods is nil.\<close>

fun Sink_View :: "'p sink \<Rightarrow> byteview" where
  "Sink_View (stringSink sp v) = v"
| "Sink_View (byteViewSink d) = d"
| "Sink_View (protoSink d v) = v"
| "Sink_View (allocBytesSink d v) = v"
| "Sink_View (truncBytesSink d v) = v"

definition SetSinkView :: "'p proto \<Rightarrow> 'p sink \<Rightarrow> byteview \<Rightarrow> 'p sink_result" where
  "SetSinkView pr s v =
     (case s of
        byteViewSink d \<Rightarrow> byteViewSink_setView d v
      | allocBytesSink d old \<Rightarrow> allocBytesSink_setView d old v
      | _ \<Rightarrow> if bv_b v \<noteq> None then Sink_SetBytes pr s (bv_b v) (bv_Expire v)
             else Sink_SetString pr s (bv_s v) (bv_Expire v))"

section \<open>What a sink shows\<close>

text \<open>What the caller finds in the variable behind the sink, for the four sinks that hand out
  bytes.\<close>

fun sink_shows :: "'p sink \<Rightarrow> bytes option" where
  "sink_shows (stringSink sp v) = sp"
| "sink_shows (byteViewSink d) = Some (bv_data d)"
| "sink_shows (protoSink d v) = None"
| "sink_shows (allocBytesSink d v) = map_option slice_bytes d"
| "sink_shows (truncBytesSink d v) = map_option slice_bytes d"

text \<open>A sink that can take any value: its variable is there, and it does not decode.\<close>

fun sink_ready :: "'p sink \<Rightarrow> bool" where
  "sink_ready (stringSink sp v) = (sp \<noteq> None)"
| "sink_ready (byteViewSink d) = True"
| "sink_ready (protoSink d v) = False"
| "sink_ready (allocBytesSink d v) = (d \<noteq> None)"
| "sink_ready (truncBytesSink d v) = (d \<noteq> None)"

fun sink_limit :: "'p sink \<Rightarrow> nat option" where
  "sink_limit (truncBytesSink d v) = map_option (length \<circ> slice_bytes) d"
| "sink_limit _ = None"

text \<open>The bytes a sink shows once it has been given some.\<close>

definition shown :: "'p sink \<Rightarrow> bytes \<Rightarrow> bytes" where
  "shown s d = (case sink_limit s of None \<Rightarrow> d | Some n \<Rightarrow> take n d)"

lemmas sink_set_defs =
  stringSink_SetString_def stringSink_SetBytes_def stringSink_SetProto_def
  byteViewSink_setView_def byteViewSink_SetProto_def byteViewSink_SetBytes_def
  byteViewSink_SetString_def protoSink_SetBytes_def protoSink_SetString_def protoSink_SetProto_def
  allocBytesSink_setView_def allocBytesSink_setBytesOwned_def allocBytesSink_SetProto_def
  allocBytesSink_SetBytes_def allocBytesSink_SetString_def truncBytesSink_setBytesOwned_def
  truncBytesSink_SetProto_def truncBytesSink_SetBytes_def truncBytesSink_SetString_def

lemma slice_bytes_simps [simp]: "slice_bytes (Some b) = b" "slice_bytes None = []"
  "slice_bytes (cloneBytes sl) = slice_bytes sl"
  by (simp_all add: slice_bytes_def cloneBytes_def)

lemma cloneBytes_Some: "cloneBytes b = Some (slice_bytes b)"
  by (simp add: cloneBytes_def slice_bytes_def)

lemma trunc_copy_bytes: "slice_bytes (trunc_copy d src) = take (length (slice_bytes d)) src"
  by (cases d) (auto simp: trunc_copy_def go_copy_def Let_def min_def)

lemma bv_data_upd [simp]:
  "bv_data (v\<lparr>bv_b := Some b\<rparr>) = b" "bv_data \<lparr>bv_b = Some b, bv_s = s, bv_e = e\<rparr> = b"
  "bv_data \<lparr>bv_b = None, bv_s = s, bv_e = e\<rparr> = s" "bv_data (v\<lparr>bv_b := None, bv_s := s\<rparr>) = s"
  "bv_data (v\<lparr>bv_b := Some b, bv_s := s\<rparr>) = b" "bv_data (v\<lparr>bv_e := e\<rparr>) = bv_data v"
  by (simp_all add: bv_data_def split: option.split)

lemma SetString_shows:
  assumes "sink_ready s"
  shows "\<exists>s'. Sink_SetString pr s d e = Ret (None, s') \<and> sink_shows s' = Some (shown s d) \<and>
    bv_data (Sink_View s') = d \<and> bv_e (Sink_View s') = e"
  using assms by (cases s) (auto simp: sink_set_defs shown_def trunc_copy_bytes)

lemma SetBytes_shows:
  assumes "sink_ready s"
  shows "\<exists>s'. Sink_SetBytes pr s b e = Ret (None, s') \<and>
    sink_shows s' = Some (shown s (slice_bytes b)) \<and>
    bv_data (Sink_View s') = slice_bytes b \<and> bv_e (Sink_View s') = e"
  using assms by (cases s) (auto simp: sink_set_defs shown_def trunc_copy_bytes cloneBytes_Some)

lemma bv_data_slice: "bv_b v = Some b \<Longrightarrow> bv_data v = slice_bytes (bv_b v)"
  by (simp add: bv_data_def)

lemma SetSinkView_shows:
  assumes "sink_ready s"
  shows "\<exists>s'. SetSinkView pr s v = Ret (None, s') \<and> sink_shows s' = Some (shown s (bv_data v)) \<and>
    bv_data (Sink_View s') = bv_data v \<and> bv_e (Sink_View s') = bv_e v"
proof (cases "(\<exists>d. s = byteViewSink d) \<or> (\<exists>d old. s = allocBytesSink d old)")
  case True
  then show ?thesis
    using assms by (auto simp: SetSinkView_def sink_set_defs shown_def cloneBytes_Some bv_data_def)
next
  case False
  then have "SetSinkView pr s v = (if bv_b v \<noteq> None then Sink_SetBytes pr s (bv_b v) (bv_e v)
      else Sink_SetString pr s (bv_s v) (bv_e v))"
    by (cases s) (auto simp: SetSinkView_def)
  then show ?thesis
    using SetBytes_shows [OF assms, of pr "bv_b v" "bv_e v"]
      SetString_shows [OF assms, of pr "bv_s v" "bv_e v"]
    by (cases "bv_b v") (simp_all add: bv_data_def)
qed

lemma SetProto_shows:
  assumes "sink_ready s" "proto_Marshal pr m = (Some b, None)"
  shows "\<exists>s'. Sink_SetProto pr s m e = Ret (None, s') \<and> sink_shows s' = Some (shown s b) \<and>
    bv_data (Sink_View s') = b \<and> bv_e (Sink_View s') = e"
  using assms by (cases s) (auto simp: sink_set_defs shown_def trunc_copy_bytes cloneBytes_Some bv_data_def)

text \<open>A sink that can take the bytes of a slice: one that is ready, or a proto sink for which they decode.
  What it then gives the caller: the bytes it shows, or the message they decode to.\<close>

definition sink_takes :: "'p proto \<Rightarrow> 'p sink \<Rightarrow> slice \<Rightarrow> bool" where
  "sink_takes pr s b =
     (case s of protoSink d v \<Rightarrow> snd (proto_Unmarshal pr b d) = None | _ \<Rightarrow> sink_ready s)"

definition sink_gives :: "'p proto \<Rightarrow> 'p sink \<Rightarrow> slice \<Rightarrow> 'p sink \<Rightarrow> bool" where
  "sink_gives pr s b s' \<longleftrightarrow>
     (case s of
        protoSink d v \<Rightarrow>
          (case s' of protoSink d' v' \<Rightarrow> d' = fst (proto_Unmarshal pr b d) | _ \<Rightarrow> False)
      | _ \<Rightarrow> sink_shows s' = Some (shown s (slice_bytes b)))"

lemma proto_sink_sets:
  assumes "sink_takes pr (protoSink d v) b"
  shows "\<exists>s'. Sink_SetBytes pr (protoSink d v) b e = Ret (None, s') \<and> sink_gives pr (protoSink d v) b s' \<and>
      bv_data (Sink_View s') = slice_bytes b \<and> bv_e (Sink_View s') = e"
    and "b = Some x \<Longrightarrow> \<exists>s'. Sink_SetString pr (protoSink d v) x e = Ret (None, s') \<and>
      sink_gives pr (protoSink d v) b s' \<and> bv_data (Sink_View s') = x \<and> bv_e (Sink_View s') = e"
    and "b = Some x \<Longrightarrow> proto_Marshal pr m = (b, None) \<Longrightarrow>
      \<exists>s'. Sink_SetProto pr (protoSink d v) m e = Ret (None, s') \<and>
      sink_gives pr (protoSink d v) b s' \<and> bv_data (Sink_View s') = x \<and> bv_e (Sink_View s') = e"
  using assms
  by (cases "proto_Unmarshal pr b d"; simp add: sink_takes_def sink_gives_def sink_set_defs cloneBytes_Some)+

lemma sink_takes_cases:
  assumes "sink_takes pr s b"
  obtains (ready) "sink_ready s" "\<And>s'. sink_gives pr s b s' \<longleftrightarrow> sink_shows s' = Some (shown s (slice_bytes b))"
  | (proto) d v where "s = protoSink d v"
  using assms that by (cases s) (simp_all add: sink_takes_def sink_gives_def)

section \<open>Properties\<close>

text \<open>C34.  A value put into a sink is the value seen, for each of the five sinks and each of the four
  ways of setting one.  On a sink that can take the bytes, setting a string, a byte slice, a message
  whose encoding is those bytes, or a cached view succeeds; the view for the cache then holds exactly
  those bytes and that expiry.  The caller finds those bytes in their variable, cut to the length the
  variable had for a truncating sink, or, in a proto sink, the message the bytes decode to.\<close>

theorem sink_set_shows:
  "(sink_takes pr s (Some d) \<longrightarrow>
     (\<exists>s'. Sink_SetString pr s d e = Ret (None, s') \<and> sink_gives pr s (Some d) s' \<and>
        bv_data (Sink_View s') = d \<and> bv_e (Sink_View s') = e)) \<and>
   (sink_takes pr s b \<longrightarrow>
     (\<exists>s'. Sink_SetBytes pr s b e = Ret (None, s') \<and> sink_gives pr s b s' \<and>
        bv_data (Sink_View s') = slice_bytes b \<and> bv_e (Sink_View s') = e)) \<and>
   (proto_Marshal pr m = (Some x, None) \<and> sink_takes pr s (Some x) \<longrightarrow>
     (\<exists>s'. Sink_SetProto pr s m e = Ret (None, s') \<and> sink_gives pr s (Some x) s' \<and>
        bv_data (Sink_View s') = x \<and> bv_e (Sink_View s') = e)) \<and>
   (sink_takes pr s (Some (bv_data v)) \<longrightarrow>
     (\<exists>s'. SetSinkView pr s v = Ret (None, s') \<and> sink_gives pr s (Some (bv_data v)) s' \<and>
        bv_data (Sink_View s') = bv_data v \<and> bv_e (Sink_View s') = bv_e v))"
proof (intro conjI impI)
  show "\<exists>s'. Sink_SetString pr s d e = Ret (None, s') \<and> sink_gives pr s (Some d) s' \<and>
      bv_data (Sink_View s') = d \<and> bv_e (Sink_View s') = e" if "sink_takes pr s (Some d)"
    using that
    by (cases rule: sink_takes_cases) (use that SetString_shows proto_sink_sets(2) [OF _ refl] in auto)
  show "\<exists>s'. Sink_SetBytes pr s b e = Ret (None, s') \<and> sink_gives pr s b s' \<and>
      bv_data (Sink_View s') = slice_bytes b \<and> bv_e (Sink_View s') = e" if "sink_takes pr s b"
    using that
    by (cases rule: sink_takes_cases) (use that SetBytes_shows proto_sink_sets(1) in auto)
  show "\<exists>s'. Sink_SetProto pr s m e = Ret (None, s') \<and> sink_gives pr s (Some x) s' \<and>
      bv_data (Sink_View s') = x \<and> bv_e (Sink_View s') = e"
    if "proto_Marshal pr m = (Some x, None) \<and> sink_takes pr s (Some x)"
    using conjunct2 [OF that]
    by (cases rule: sink_takes_cases) (use that SetProto_shows proto_sink_sets(3) [OF _ refl] in auto)
  assume takes: "sink_takes pr s (Some (bv_data v))"
  then show "\<exists>s'. SetSinkView pr s v = Ret (None, s') \<and> sink_gives pr s (Some (bv_data v)) s' \<and>
      bv_data (Sink_View s') = bv_data v \<and> bv_e (Sink_View s') = bv_e v"
  proof (cases rule: sink_takes_cases)
    case ready
    then show ?thesis using SetSinkView_shows [OF ready(1)] by simp
  next
    case (proto d old)
    then have "SetSinkView pr s v = (if bv_b v \<noteq> None then Sink_SetBytes pr s (Some (bv_data v)) (bv_e v)
        else Sink_SetString pr s (bv_data v) (bv_e v))"
      by (auto simp: SetSinkView_def bv_data_def)
    then show ?thesis
      using proto_sink_sets(1) [OF takes [unfolded proto], of "bv_e v"]
        proto_sink_sets(2) [OF takes [unfolded proto] refl, of "bv_e v"] by (simp add: proto)
  qed
qed

theorem sink_set_shows_witness:
  "(\<exists>s'. SetSinkView \<lparr>proto_Marshal = (\<lambda>m :: string. (Some m, None)), proto_Unmarshal = (\<lambda>b m. (slice_bytes b, None))\<rparr>
      (TruncatingByteSliceSink (Some (Some ''..''))) (ByteViewWithExpire (Some ''value'') zero_time)
     = Ret (None, s') \<and> sink_shows s' = Some ''va'') \<and>
   (\<exists>v. Sink_SetProto \<lparr>proto_Marshal = (\<lambda>m :: string. (Some m, None)), proto_Unmarshal = (\<lambda>b m. (slice_bytes b, None))\<rparr>
      (ProtoSink ''old'') ''msg'' zero_time = Ret (None, protoSink ''msg'' v))"
proof -
  let ?pr = "\<lparr>proto_Marshal = (\<lambda>m :: string. (Some m, None)), proto_Unmarshal = (\<lambda>b m. (slice_bytes b, None))\<rparr>"
  let ?s = "TruncatingByteSliceSink (Some (Some ''..'')) :: string sink"
  let ?v = "ByteViewWithExpire (Some ''value'') zero_time"
  have v: "bv_data ?v = ''value''" by code_simp
  have "sink_takes ?pr ?s (Some (bv_data ?v))" "sink_takes ?pr (ProtoSink ''old'') (Some ''msg'')"
    by (simp_all add: TruncatingByteSliceSink_def ProtoSink_def sink_takes_def)
  then obtain s1 s2 where "SetSinkView ?pr ?s ?v = Ret (None, s1)" "sink_gives ?pr ?s (Some (bv_data ?v)) s1"
    and 2: "Sink_SetProto ?pr (ProtoSink ''old'') ''msg'' zero_time = Ret (None, s2)"
      "sink_gives ?pr (ProtoSink ''old'') (Some ''msg'') s2"
    using sink_set_shows [of ?pr ?s "[]" zero_time None "[]" "[]" ?v]
      sink_set_shows [of ?pr "ProtoSink ''old''" "[]" zero_time None "''msg''" "''msg''" ?v] by auto
  moreover have "\<exists>w. s2 = protoSink ''msg'' w"
    using 2(2) by (cases s2) (simp_all add: sink_gives_def ProtoSink_def)
  ultimately show ?thesis
    by (auto simp: v sink_gives_def shown_def TruncatingByteSliceSink_def)
qed

text \<open>A round trip through a protocol buffer: with an encoding that decodes what it encodes,
  \<open>SetProto\<close> on a proto sink leaves the message in the caller's variable and its encoding in the
  view, and a later \<open>SetSinkView\<close> of that view, as a cache hit does, gives any other proto sink the
  same message.\<close>

lemma sink_proto_roundtrip:
  assumes "proto_Marshal pr m = (Some b, None)" "\<forall>d. proto_Unmarshal pr (Some b) d = (m, None)"
  shows "\<exists>v. Sink_SetProto pr (ProtoSink d) m e = Ret (None, protoSink m v) \<and> bv_data v = b \<and>
    bv_e v = e \<and> (\<exists>w. SetSinkView pr (ProtoSink d') v = Ret (None, protoSink m w))"
  using assms
  by (auto simp: sink_set_defs ProtoSink_def SetSinkView_def cloneBytes_Some zero_view_def)

theorem sink_proto_roundtrip_witness:
  "\<exists>v. Sink_SetProto \<lparr>proto_Marshal = (\<lambda>m :: string. (Some m, None)),
       proto_Unmarshal = (\<lambda>b d. (slice_bytes b, None))\<rparr> (ProtoSink ''old'') ''msg'' zero_time
     = Ret (None, protoSink ''msg'' v)"
  using sink_proto_roundtrip [of "\<lparr>proto_Marshal = (\<lambda>m :: string. (Some m, None)),
       proto_Unmarshal = (\<lambda>b d. (slice_bytes b, None))\<rparr>" "''msg''" "''msg''" "''old''" zero_time]
  by auto

text \<open>C35.  An allocating sink of a nil pointer, whatever its view: setting a string, bytes or a message
  reports an error (the error of the encoding, if the message cannot be encoded) and changes nothing,
  but a cache hit, which sets the view, dereferences the pointer and panics.  The truncating sink of a
  nil pointer reports the error there too.\<close>

theorem alloc_sink_nil_dst:
  "Sink_SetString pr (allocBytesSink None old) x e =
     Ret (Some (ErrString ''nil AllocatingByteSliceSink *[]byte dst''), allocBytesSink None old) \<and>
   Sink_SetBytes pr (allocBytesSink None old) b e =
     Ret (Some (ErrString ''nil AllocatingByteSliceSink *[]byte dst''), allocBytesSink None old) \<and>
   Sink_SetProto pr (allocBytesSink None old) m e =
     Ret (Some (case snd (proto_Marshal pr m) of
                  None \<Rightarrow> ErrString ''nil AllocatingByteSliceSink *[]byte dst'' | Some err \<Rightarrow> err),
          allocBytesSink None old) \<and>
   SetSinkView pr (allocBytesSink None old) v = Panic nil_deref \<and>
   SetSinkView pr (truncBytesSink None old) v =
     Ret (Some (ErrString ''nil TruncatingByteSliceSink *[]byte dst''), truncBytesSink None old)"
  by (simp add: SetSinkView_def sink_set_defs split: prod.split option.split)

end
