(* ===== verification/GoMonad.thy ===== *)
theory GoMonad
  imports Prelude
begin

text \<open>
  Sequences of effects.  An action reads and writes a state and comes back with a value, or crashes
  (a panic nothing recovers from), or hangs.  \<open>bnd\<close> is Go's semicolon.  \<open>go_all\<close> runs the
  goroutines a function starts and waits for: each is one atomic action, and the order in which
  they act is the argument \<open>sched\<close>, an order on their positions for every number of goroutines.
\<close>

datatype ('s, 'a) res = Done 'a 's | Crash string | Hang

type_synonym ('s, 'a) act = "'s \<Rightarrow> ('s, 'a) res"

definition ret :: "'a \<Rightarrow> ('s, 'a) act" where
  "ret x s = Done x s"

definition bnd :: "('s, 'a) act \<Rightarrow> ('a \<Rightarrow> ('s, 'b) act) \<Rightarrow> ('s, 'b) act" where
  "bnd m f s = (case m s of Done x t \<Rightarrow> f x t | Crash e \<Rightarrow> Crash e | Hang \<Rightarrow> Hang)"

definition crash :: "string \<Rightarrow> ('s, 'a) act" where
  "crash e s = Crash e"

definition reads :: "('s \<Rightarrow> 'a) \<Rightarrow> ('s, 'a) act" where
  "reads f s = Done (f s) s"

definition modifies :: "('s \<Rightarrow> 's) \<Rightarrow> ('s, unit) act" where
  "modifies f s = Done () (f s)"

text \<open>A call that may panic, and one that may not return.\<close>

definition lift_go :: "'a go \<Rightarrow> ('s, 'a) act" where
  "lift_go g s = (case g of Ret x \<Rightarrow> Done x s | Panic e \<Rightarrow> Crash e)"

fun each :: "('b \<Rightarrow> ('s, 'a) act) \<Rightarrow> 'b list \<Rightarrow> ('s, 'a list) act" where
  "each f [] = ret []"
| "each f (x # xs) = bnd (f x) (\<lambda>y. bnd (each f xs) (\<lambda>ys. ret (y # ys)))"

type_synonym schedule = "nat \<Rightarrow> nat list"

definition scheduled :: "schedule \<Rightarrow> 'b list \<Rightarrow> 'b list" where
  "scheduled sched xs = map (\<lambda>i. xs ! i) (sched (length xs))"

definition go_all :: "schedule \<Rightarrow> ('b \<Rightarrow> ('s, 'a) act) \<Rightarrow> 'b list \<Rightarrow> ('s, 'a list) act" where
  "go_all sched f xs = each f (scheduled sched xs)"

text \<open>Every goroutine runs once.\<close>

definition fair :: "schedule \<Rightarrow> bool" where
  "fair sched \<longleftrightarrow> (\<forall>n. mset (sched n) = mset [0..<n])"

section \<open>Execution\<close>

named_theorems exec \<open>execution of actions\<close>

lemma exec_simps [exec]:
  "ret x s = Done x s" "crash e s = Crash e" "reads f s = Done (f s) s"
  "modifies f s = Done () (f s)" "lift_go (Ret y) s = Done y s" "lift_go (Panic e) s = Crash e"
  by (simp_all add: ret_def crash_def reads_def modifies_def lift_go_def)

lemma bnd_Done [exec]: "m s = Done x t \<Longrightarrow> bnd m f s = f x t"
  by (simp add: bnd_def)

lemma bnd_Crash [exec]: "m s = Crash e \<Longrightarrow> bnd m f s = Crash e"
  by (simp add: bnd_def)

lemma bnd_assoc: "bnd (bnd m f) g = bnd m (\<lambda>x. bnd (f x) g)"
  by (rule ext) (simp add: bnd_def split: res.split)

lemma bnd_DoneE:
  assumes "bnd m f s = Done y t"
  obtains x u where "m s = Done x u" "f x u = Done y t"
  using assms by (auto simp: bnd_def split: res.splits)

lemma bnd_ret [exec]: "bnd (ret x) f = f x" "bnd (reads r) h s = h (r s) s"
  "bnd (modifies u) k s = k () (u s)"
  by (simp_all add: bnd_def ret_def reads_def modifies_def fun_eq_iff)

lemma mset_scheduled: "fair sched \<Longrightarrow> mset (scheduled sched xs) = mset xs"
proof -
  assume "fair sched"
  then have "mset (scheduled sched xs) = image_mset (\<lambda>i. xs ! i) (mset [0..<length xs])"
    by (simp add: scheduled_def fair_def)
  also have "\<dots> = mset (map (\<lambda>i. xs ! i) [0..<length xs])" by simp
  finally show ?thesis by (simp add: map_nth)
qed

lemma set_scheduled: "fair sched \<Longrightarrow> set (scheduled sched xs) = set xs"
  by (rule mset_eq_setD [OF mset_scheduled])

section \<open>Total correctness\<close>

text \<open>From every state in \<open>P\<close> the action comes back, with a result and a state related by
  \<open>Q\<close>.\<close>

definition succeeds :: "('s \<Rightarrow> bool) \<Rightarrow> ('s, 'a) act \<Rightarrow> ('a \<Rightarrow> 's \<Rightarrow> bool) \<Rightarrow> bool" where
  "succeeds P m Q \<longleftrightarrow> (\<forall>s. P s \<longrightarrow> (\<exists>x t. m s = Done x t \<and> Q x t))"

named_theorems hoare \<open>rules for total correctness of actions\<close>

lemma succeedsD: "succeeds P m Q \<Longrightarrow> P s \<Longrightarrow> \<exists>x t. m s = Done x t \<and> Q x t"
  by (simp add: succeeds_def)

lemma succeeds_bnd:
  assumes "succeeds P m R" "\<And>x. succeeds (R x) (f x) Q"
  shows "succeeds P (bnd m f) Q"
  unfolding succeeds_def
proof (intro allI impI)
  fix s assume "P s"
  from succeedsD [OF assms(1) this] obtain x u where m: "m s = Done x u" "R x u" by blast
  from succeedsD [OF assms(2) m(2)] obtain y t where "f x u = Done y t" "Q y t" by blast
  then show "\<exists>y t. bnd m f s = Done y t \<and> Q y t" using m(1) by (simp add: bnd_def)
qed

lemma succeeds_ret: "(\<And>s. P s \<Longrightarrow> Q x s) \<Longrightarrow> succeeds P (ret x) Q"
  by (simp add: succeeds_def ret_def)

lemma succeeds_reads: "(\<And>s. P s \<Longrightarrow> Q (f s) s) \<Longrightarrow> succeeds P (reads f) Q"
  by (simp add: succeeds_def reads_def)

lemma succeeds_modifies: "(\<And>s. P s \<Longrightarrow> Q () (f s)) \<Longrightarrow> succeeds P (modifies f) Q"
  by (simp add: succeeds_def modifies_def)

lemma succeeds_weaken:
  assumes "succeeds P' m Q'" "\<And>s. P s \<Longrightarrow> P' s" "\<And>x s. Q' x s \<Longrightarrow> Q x s"
  shows "succeeds P m Q"
  unfolding succeeds_def
proof (intro allI impI)
  fix s assume "P s"
  from succeedsD [OF assms(1) assms(2) [OF this]] show "\<exists>x t. m s = Done x t \<and> Q x t"
    using assms(3) by blast
qed

lemma succeeds_each:
  assumes "\<And>x. x \<in> set xs \<Longrightarrow> succeeds I (f x) (\<lambda>_. I)"
  shows "succeeds I (each f xs) (\<lambda>_. I)"
  using assms
proof (induction xs)
  case Nil
  then show ?case by (simp add: succeeds_ret)
next
  case (Cons x xs)
  have "succeeds I (f x) (\<lambda>_. I)" "succeeds I (each f xs) (\<lambda>_. I)" using Cons by auto
  then show ?case
    by (auto intro!: succeeds_bnd [where R = "\<lambda>_. I"] succeeds_ret)
qed

lemma succeeds_go_all:
  assumes "fair sched" "\<And>x. x \<in> set xs \<Longrightarrow> succeeds I (f x) (\<lambda>_. I)"
  shows "succeeds I (go_all sched f xs) (\<lambda>_. I)"
  unfolding go_all_def using assms by (intro succeeds_each) (simp add: set_scheduled)

end
