(* ===== verification/Stats.thy ===== *)
theory Stats
  imports Prelude GoStrings
begin

text \<open>
  The counters of src/stats.go.  An \<open>AtomicInt\<close> is a 64-bit word; each of its operations is one
  atomic step.
\<close>

type_synonym AtomicInt = int64

definition AtomicInt_Add :: "int64 \<Rightarrow> AtomicInt \<Rightarrow> AtomicInt" where
  "AtomicInt_Add n i = i + n"

definition AtomicInt_Store :: "int64 \<Rightarrow> AtomicInt \<Rightarrow> AtomicInt" where
  "AtomicInt_Store n i = n"

definition AtomicInt_Get :: "AtomicInt \<Rightarrow> int64" where
  "AtomicInt_Get i = i"

definition AtomicInt_String :: "AtomicInt \<Rightarrow> string" where
  "AtomicInt_String i =
     (let n = sint (AtomicInt_Get i)
      in if n < 0 then CHR ''-'' # itoa (nat (- n)) else itoa (nat n))"

record GroupStats =
  Gets :: AtomicInt
  CacheHits :: AtomicInt
  GetFromPeersLatencyLower :: AtomicInt
  PeerLoads :: AtomicInt
  PeerErrors :: AtomicInt
  Loads :: AtomicInt
  LoadsDeduped :: AtomicInt
  LocalLoads :: AtomicInt
  LocalLoadErrs :: AtomicInt
  RemoveKeysRequests :: AtomicInt
  RemovedKeys :: AtomicInt

definition zero_stats :: GroupStats where
  "zero_stats =
     \<lparr>Gets = 0, CacheHits = 0, GetFromPeersLatencyLower = 0, PeerLoads = 0, PeerErrors = 0,
      Loads = 0, LoadsDeduped = 0, LocalLoads = 0, LocalLoadErrs = 0, RemoveKeysRequests = 0,
      RemovedKeys = 0\<rparr>"

lemmas atomic_defs [simp] = AtomicInt_Add_def AtomicInt_Store_def AtomicInt_Get_def

end
