(* ===== verification/Group.thy ===== *)
theory Group
  imports CacheApi Picker Sinks GoMonad Stats
begin

text \<open>
  A group, src/group.go: two caches, a getter and the peers.  An operation acts on the group and on
  the world outside it (\<open>'w\<close>): the getter's data, the other instances behind their clients, the
  clock, the log.  What the group is given is the environment: the method table of its caches, the
  cache factory, the clients and the picker of its instance, the getter, the logger.

  A call of \<open>singleflight.Do\<close> either runs its function as the leader of the flight or joins a
  flight and comes back with the leader's result (theory SingleFlight shows that those are the two
  ways it returns); which of the two is the argument \<open>role\<close>.  The function given to \<open>Lock\<close> runs
  as it is.  The goroutines an operation starts and waits for run in the order of the schedule.
\<close>

section \<open>State and environment\<close>

record 'm group =
  g_name :: string
  g_maxCacheBytes :: int64
  g_mainCache :: 'm
  g_hotCache :: 'm
  g_Stats :: GroupStats

type_synonym ('m, 'w) gstate = "'m group \<times> 'w"

record ('m, 'c, 'w, 'p) env =
  e_cache :: "'m Cache"
  e_CacheFactory :: "int64 \<Rightarrow> 'm \<times> goerr option"
  e_client :: "('c, 'w) Client"
  e_picker :: "'c Picker"
  e_order :: "'c list \<Rightarrow> 'c list"
  e_sched :: schedule
  e_getter :: "string \<Rightarrow> 'p sink \<Rightarrow> 'w \<Rightarrow> goerr option \<times> 'p sink \<times> 'w"
  e_proto :: "'p proto"
  e_now :: "'w \<Rightarrow> gotime \<times> 'w"
  e_ctxErr :: "'w \<Rightarrow> goerr option"
  e_Logger :: "(string \<Rightarrow> string \<Rightarrow> goerr \<Rightarrow> 'w \<Rightarrow> 'w) option"

text \<open>Which cache of the group.\<close>

datatype which_cache = Main | Hot

fun the_cache :: "which_cache \<Rightarrow> 'm group \<Rightarrow> 'm" where
  "the_cache Main g = g_mainCache g"
| "the_cache Hot g = g_hotCache g"

fun put_cache :: "which_cache \<Rightarrow> 'm \<Rightarrow> 'm group \<Rightarrow> 'm group" where
  "put_cache Main c g = g\<lparr>g_mainCache := c\<rparr>"
| "put_cache Hot c g = g\<lparr>g_hotCache := c\<rparr>"

section \<open>Primitive actions\<close>

definition world :: "('w \<Rightarrow> 'a \<times> 'w) \<Rightarrow> (('m, 'w) gstate, 'a) act" where
  "world f s = (case f (snd s) of (x, w) \<Rightarrow> Done x (fst s, w))"

definition count :: "(GroupStats \<Rightarrow> GroupStats) \<Rightarrow> (('m, 'w) gstate, unit) act" where
  "count f = modifies (\<lambda>(g, w). (g\<lparr>g_Stats := f (g_Stats g)\<rparr>, w))"

definition cache_get ::
  "('m, 'c, 'w, 'p) env \<Rightarrow> which_cache \<Rightarrow> string \<Rightarrow> (('m, 'w) gstate, byteview option) act" where
  "cache_get E c key = bnd (world (e_now E)) (\<lambda>now s.
     (case Cache_Get (e_cache E) now key (the_cache c (fst s)) of
        (r, m) \<Rightarrow> Done r (put_cache c m (fst s), snd s)))"

definition cache_add ::
  "('m, 'c, 'w, 'p) env \<Rightarrow> which_cache \<Rightarrow> string \<Rightarrow> byteview \<Rightarrow> (('m, 'w) gstate, unit) act" where
  "cache_add E c key v s =
     (case Cache_Add (e_cache E) key v (the_cache c (fst s)) of
        None \<Rightarrow> Hang
      | Some m \<Rightarrow> Done () (put_cache c m (fst s), snd s))"

definition cache_remove ::
  "('m, 'c, 'w, 'p) env \<Rightarrow> which_cache \<Rightarrow> string \<Rightarrow> (('m, 'w) gstate, unit) act" where
  "cache_remove E c key =
     modifies (\<lambda>(g, w). (put_cache c (Cache_Remove (e_cache E) key (the_cache c g)) g, w))"

text \<open>\<open>singleflight.Do\<close> for its caller.\<close>

datatype 'v role = Leader | Follower "'v option" "goerr option"

definition sf_Do ::
  "'v role \<Rightarrow> ('s, 'v option \<times> goerr option) act \<Rightarrow> ('s, 'v option \<times> goerr option) act" where
  "sf_Do role fn = (case role of Leader \<Rightarrow> fn | Follower v e \<Rightarrow> ret (v, e))"

definition PickPeer :: "('m, 'c, 'w, 'p) env \<Rightarrow> string \<Rightarrow> 'c option \<times> bool" where
  "PickPeer E key = picker_PickPeer (e_client E) (e_picker E) key"

definition getAllPeers :: "('m, 'c, 'w, 'p) env \<Rightarrow> 'c list" where
  "getAllPeers E = picker_GetAll (e_order E) (e_picker E)"

section \<open>Caches\<close>

definition group_lookupCache ::
  "('m, 'c, 'w, 'p) env \<Rightarrow> string \<Rightarrow> (('m, 'w) gstate, byteview option) act" where
  "group_lookupCache E key = bnd (reads (g_maxCacheBytes \<circ> fst)) (\<lambda>mx.
     if le64 mx 0 then ret None
     else bnd (cache_get E Main key) (\<lambda>r.
       case r of Some v \<Rightarrow> ret (Some v) | None \<Rightarrow> cache_get E Hot key))"

definition group_populateCache ::
  "('m, 'c, 'w, 'p) env \<Rightarrow> string \<Rightarrow> byteview \<Rightarrow> which_cache \<Rightarrow> (('m, 'w) gstate, unit) act" where
  "group_populateCache E key value c = bnd (reads (g_maxCacheBytes \<circ> fst)) (\<lambda>mx.
     if le64 mx 0 then ret () else cache_add E c key value)"

definition group_LocalRemove :: "('m, 'c, 'w, 'p) env \<Rightarrow> string \<Rightarrow> (('m, 'w) gstate, unit) act" where
  "group_LocalRemove E key = bnd (reads (g_maxCacheBytes \<circ> fst)) (\<lambda>mx.
     if le64 mx 0 then ret ()
     else bnd (cache_remove E Hot key) (\<lambda>_. cache_remove E Main key))"

definition group_RemoteSet ::
  "('m, 'c, 'w, 'p) env \<Rightarrow> string \<Rightarrow> slice \<Rightarrow> gotime \<Rightarrow> (('m, 'w) gstate, unit) act" where
  "group_RemoteSet E key value expire = bnd (reads (g_maxCacheBytes \<circ> fst)) (\<lambda>mx.
     if le64 mx 0 then ret ()
     else bnd (cache_add E Main key (ByteViewWithExpire value expire))
            (\<lambda>_. cache_remove E Hot key))"

section \<open>Calls to peers\<close>

definition get_call ::
  "('m, 'c, 'w, 'p) env \<Rightarrow> 'c \<Rightarrow> string \<Rightarrow> string \<Rightarrow> 'w \<Rightarrow> (goerr option \<times> GetResponse) \<times> 'w" where
  "get_call E peer name key w =
     (case Client_Get (e_client E) peer \<lparr>gr_Group = Some name, gr_Key = Some key\<rparr> empty_response w of
        (err, res, w') \<Rightarrow> ((err, res), w'))"

definition group_getFromPeer ::
  "('m, 'c, 'w, 'p) env \<Rightarrow> 'c \<Rightarrow> string \<Rightarrow> (('m, 'w) gstate, byteview option \<times> goerr option) act" where
  "group_getFromPeer E peer key = bnd (reads (g_name \<circ> fst)) (\<lambda>name.
     bnd (world (get_call E peer name key)) (\<lambda>(err, res).
          case err of
            Some e \<Rightarrow> ret (None, Some e)
          | None \<Rightarrow>
              let value = ByteViewWithExpire (gp_Value res) (decode_expire (gp_Expire res))
              in bnd (group_populateCache E key value Hot) (\<lambda>_. ret (Some value, None))))"

definition group_setPeer ::
  "('m, 'c, 'w, 'p) env \<Rightarrow> 'c \<Rightarrow> string \<Rightarrow> slice \<Rightarrow> gotime \<Rightarrow> (('m, 'w) gstate, goerr option) act" where
  "group_setPeer E peer k v e = bnd (reads (g_name \<circ> fst)) (\<lambda>name.
     world (Client_Set (e_client E) peer
       \<lparr>sr_Group = Some name, sr_Key = Some k, sr_Value = v, sr_Expire = Some (encode_expire e)\<rparr>))"

definition group_removeFromPeer ::
  "('m, 'c, 'w, 'p) env \<Rightarrow> 'c \<Rightarrow> string \<Rightarrow> (('m, 'w) gstate, goerr option) act" where
  "group_removeFromPeer E peer key = bnd (reads (g_name \<circ> fst)) (\<lambda>name.
     world (Client_Remove (e_client E) peer \<lparr>gr_Group = Some name, gr_Key = Some key\<rparr>))"

section \<open>Get\<close>

definition getter_call ::
  "('m, 'c, 'w, 'p) env \<Rightarrow> string \<Rightarrow> 'p sink \<Rightarrow> 'w \<Rightarrow> (goerr option \<times> 'p sink) \<times> 'w" where
  "getter_call E key dest w = (case e_getter E key dest w of (err, dest', w') \<Rightarrow> ((err, dest'), w'))"

definition group_getLocally ::
  "('m, 'c, 'w, 'p) env \<Rightarrow> string \<Rightarrow> 'p sink \<Rightarrow>
   (('m, 'w) gstate, (byteview option \<times> goerr option) \<times> 'p sink) act" where
  "group_getLocally E key dest =
     bnd (world (getter_call E key dest)) (\<lambda>(err, dest').
          case err of
            Some e \<Rightarrow> ret ((None, Some e), dest')
          | None \<Rightarrow> ret ((Some (Sink_View dest'), None), dest'))"

text \<open>The part of the flight's function that asks the owner: a result ends the flight, and
  \<^term>\<open>None\<close> goes on to the local getter.\<close>

definition log_error ::
  "('m, 'c, 'w, 'p) env \<Rightarrow> 'c \<Rightarrow> string \<Rightarrow> goerr \<Rightarrow> (('m, 'w) gstate, unit) act" where
  "log_error E peer key err =
     (case e_Logger E of
        None \<Rightarrow> crash nil_deref
      | Some log \<Rightarrow>
          world (\<lambda>w. ((), log (Address (Client_PeerInfo (e_client E) peer)) key err w)))"

definition observe_latency :: "int64 \<Rightarrow> (('m, 'w) gstate, unit) act" where
  "observe_latency d = count (\<lambda>st.
     if lt64 (AtomicInt_Get (GetFromPeersLatencyLower st)) d
     then st\<lparr>GetFromPeersLatencyLower := AtomicInt_Store d (GetFromPeersLatencyLower st)\<rparr> else st)"

definition peer_failed ::
  "('m, 'c, 'w, 'p) env \<Rightarrow> 'c \<Rightarrow> string \<Rightarrow> goerr \<Rightarrow>
   (('m, 'w) gstate, (byteview option \<times> goerr option) option) act" where
  "peer_failed E peer key e =
     bnd (if e_Logger E \<noteq> None then log_error E peer key e else ret ()) (\<lambda>_.
     bnd (count (\<lambda>st. st\<lparr>PeerErrors := AtomicInt_Add 1 (PeerErrors st)\<rparr>)) (\<lambda>_.
     bnd (reads (e_ctxErr E \<circ> snd)) (\<lambda>ctxErr.
     if ctxErr \<noteq> None then ret (Some (None, Some e)) else ret None)))"

definition peer_outcome ::
  "('m, 'c, 'w, 'p) env \<Rightarrow> 'c \<Rightarrow> string \<Rightarrow> byteview option \<times> goerr option \<Rightarrow>
   (('m, 'w) gstate, (byteview option \<times> goerr option) option) act" where
  "peer_outcome E peer key r =
     (case snd r of
        None \<Rightarrow>
          bnd (count (\<lambda>st. st\<lparr>PeerLoads := AtomicInt_Add 1 (PeerLoads st)\<rparr>))
            (\<lambda>_. ret (Some (fst r, None)))
      | Some e \<Rightarrow>
          if Is_Canceled e then ret (Some (None, Some e))
          else if Is_ErrNotFound e then ret (Some (None, Some e))
          else if Is_ErrRemoteCall e then ret (Some (None, Some e))
          else peer_failed E peer key e)"

definition load_from_peer ::
  "('m, 'c, 'w, 'p) env \<Rightarrow> 'c \<Rightarrow> string \<Rightarrow>
   (('m, 'w) gstate, (byteview option \<times> goerr option) option) act" where
  "load_from_peer E peer key =
     bnd (world (e_now E)) (\<lambda>start.
     bnd (group_getFromPeer E peer key) (\<lambda>r.
     bnd (world (e_now E)) (\<lambda>stop.
     bnd (observe_latency (quot64 (time_Sub stop start) (word_of_int time_Millisecond)))
       (\<lambda>_. peer_outcome E peer key r))))"

text \<open>The function the flight runs.  Besides its results it leaves the sink behind, and says whether
  it has filled it.\<close>

type_synonym 'p loaded = "(byteview option \<times> goerr option) \<times> bool \<times> 'p sink"

definition loaded_locally ::
  "('m, 'c, 'w, 'p) env \<Rightarrow> string \<Rightarrow> (byteview option \<times> goerr option) \<times> 'p sink \<Rightarrow>
   (('m, 'w) gstate, 'p loaded) act" where
  "loaded_locally E key r =
     (case fst r of
        (Some value, None) \<Rightarrow>
          bnd (count (\<lambda>st. st\<lparr>LocalLoads := AtomicInt_Add 1 (LocalLoads st)\<rparr>)) (\<lambda>_.
          bnd (group_populateCache E key value Main) (\<lambda>_.
          ret ((Some value, None), True, snd r)))
      | (_, err) \<Rightarrow>
          bnd (count (\<lambda>st. st\<lparr>LocalLoadErrs := AtomicInt_Add 1 (LocalLoadErrs st)\<rparr>))
            (\<lambda>_. ret ((None, err), False, snd r)))"

definition load_locally ::
  "('m, 'c, 'w, 'p) env \<Rightarrow> string \<Rightarrow> 'p sink \<Rightarrow> (('m, 'w) gstate, 'p loaded) act" where
  "load_locally E key dest = bnd (group_getLocally E key dest) (loaded_locally E key)"

definition load_missed ::
  "('m, 'c, 'w, 'p) env \<Rightarrow> string \<Rightarrow> 'p sink \<Rightarrow> (('m, 'w) gstate, 'p loaded) act" where
  "load_missed E key dest =
     (case PickPeer E key of
        (Some peer, True) \<Rightarrow>
          bnd (load_from_peer E peer key) (\<lambda>r.
          case r of
            Some res \<Rightarrow> ret (res, False, dest)
          | None \<Rightarrow> load_locally E key dest)
      | _ \<Rightarrow> load_locally E key dest)"

definition load_flight ::
  "('m, 'c, 'w, 'p) env \<Rightarrow> string \<Rightarrow> 'p sink \<Rightarrow> (('m, 'w) gstate, 'p loaded) act" where
  "load_flight E key dest =
     bnd (group_lookupCache E key) (\<lambda>hit.
     case hit of
       Some v \<Rightarrow>
         bnd (count (\<lambda>st. st\<lparr>CacheHits := AtomicInt_Add 1 (CacheHits st)\<rparr>))
           (\<lambda>_. ret ((Some v, None), False, dest))
     | None \<Rightarrow>
         bnd (count (\<lambda>st. st\<lparr>LoadsDeduped := AtomicInt_Add 1 (LoadsDeduped st)\<rparr>))
           (\<lambda>_. load_missed E key dest))"

text \<open>The end of \<open>load\<close>: the type assertion on the value of a flight without an error.\<close>

definition load_result ::
  "'p loaded \<Rightarrow> ('s, (byteview \<times> bool \<times> goerr option) \<times> 'p sink) act" where
  "load_result r =
     (case r of ((viewi, err), destPopulated, dest) \<Rightarrow>
      case err of
        Some e \<Rightarrow> ret ((zero_view, destPopulated, Some e), dest)
      | None \<Rightarrow>
          (case viewi of
             Some value \<Rightarrow> ret ((value, destPopulated, None), dest)
           | None \<Rightarrow> crash ''interface conversion: interface is nil''))"

definition group_load ::
  "('m, 'c, 'w, 'p) env \<Rightarrow> byteview role \<Rightarrow> string \<Rightarrow> 'p sink \<Rightarrow>
   (('m, 'w) gstate, (byteview \<times> bool \<times> goerr option) \<times> 'p sink) act" where
  "group_load E role key dest =
     bnd (count (\<lambda>st. st\<lparr>Loads := AtomicInt_Add 1 (Loads st)\<rparr>)) (\<lambda>_.
     bnd (case role of
            Leader \<Rightarrow> load_flight E key dest
          | Follower v e \<Rightarrow> ret ((v, e), False, dest)) load_result)"

definition set_sink_view ::
  "('m, 'c, 'w, 'p) env \<Rightarrow> 'p sink \<Rightarrow> byteview \<Rightarrow>
   (('m, 'w) gstate, goerr option \<times> 'p sink option) act" where
  "set_sink_view E dest v =
     bnd (lift_go (SetSinkView (e_proto E) dest v)) (\<lambda>(err, dest'). ret (err, Some dest'))"

definition get_loaded ::
  "('m, 'c, 'w, 'p) env \<Rightarrow> (byteview \<times> bool \<times> goerr option) \<times> 'p sink \<Rightarrow>
   (('m, 'w) gstate, goerr option \<times> 'p sink option) act" where
  "get_loaded E r =
     (case r of ((value, destPopulated, err), dest) \<Rightarrow>
      case err of
        Some e \<Rightarrow> ret (Some e, Some dest)
      | None \<Rightarrow> if destPopulated then ret (None, Some dest) else set_sink_view E dest value)"

definition group_Get ::
  "('m, 'c, 'w, 'p) env \<Rightarrow> byteview role \<Rightarrow> string \<Rightarrow> 'p sink option \<Rightarrow>
   (('m, 'w) gstate, goerr option \<times> 'p sink option) act" where
  "group_Get E role key dest0 =
     bnd (count (\<lambda>st. st\<lparr>Gets := AtomicInt_Add 1 (Gets st)\<rparr>)) (\<lambda>_.
     case dest0 of
       None \<Rightarrow> ret (Some (ErrString ''groupcache: nil dest Sink''), None)
     | Some dest \<Rightarrow>
         bnd (group_lookupCache E key) (\<lambda>hit.
         case hit of
           Some value \<Rightarrow>
             bnd (count (\<lambda>st. st\<lparr>CacheHits := AtomicInt_Add 1 (CacheHits st)\<rparr>))
               (\<lambda>_. set_sink_view E dest value)
         | None \<Rightarrow> bnd (group_load E role key dest) (get_loaded E)))"

section \<open>Set\<close>

text \<open>The peers \<open>Set\<close> updates after the owner: every peer but this instance and the owner.  With no
  owner and a peer to compare it to, the method call on the nil owner panics.\<close>

definition set_targets :: "('m, 'c, 'w, 'p) env \<Rightarrow> 'c option \<Rightarrow> 'c list go" where
  "set_targets E owner =
     (let cl = e_client E;
          others = filter (\<lambda>p. \<not> IsSelf (Client_PeerInfo cl p)) (getAllPeers E)
      in case owner of
           None \<Rightarrow> if others = [] then Ret [] else Panic nil_deref
         | Some ow \<Rightarrow> Ret (filter (\<lambda>p. Client_HashKey cl p \<noteq> Client_HashKey cl ow) others))"

text \<open>The goroutine \<open>Set\<close> starts for a peer: its error goes to the logger, nil or not.\<close>

definition set_goroutine ::
  "('m, 'c, 'w, 'p) env \<Rightarrow> string \<Rightarrow> slice \<Rightarrow> gotime \<Rightarrow> 'c \<Rightarrow> (('m, 'w) gstate, unit) act" where
  "set_goroutine E key value expire p =
     bnd (group_setPeer E p key value expire) (\<lambda>err.
     case err of None \<Rightarrow> ret () | Some e \<Rightarrow> log_error E p key e)"

definition set_flight ::
  "('m, 'c, 'w, 'p) env \<Rightarrow> string \<Rightarrow> slice \<Rightarrow> gotime \<Rightarrow>
   (('m, 'w) gstate, byteview option \<times> goerr option) act" where
  "set_flight E key value expire =
     (case PickPeer E key of (owner, isRemote) \<Rightarrow>
      bnd (case owner of
             Some ow \<Rightarrow> if isRemote then group_setPeer E ow key value expire else ret None
           | None \<Rightarrow> ret None) (\<lambda>err.
      case err of
        Some e \<Rightarrow> ret (None, Some e)
      | None \<Rightarrow>
          bnd (cache_add E Main key (ByteViewWithExpire value expire)) (\<lambda>_.
          bnd (cache_remove E Hot key) (\<lambda>_.
          bnd (lift_go (set_targets E owner)) (\<lambda>targets.
          bnd (go_all (e_sched E) (set_goroutine E key value expire) targets) (\<lambda>_.
          ret (None, None)))))))"

definition group_Set ::
  "('m, 'c, 'w, 'p) env \<Rightarrow> byteview role \<Rightarrow> string \<Rightarrow> slice \<Rightarrow> gotime \<Rightarrow> bool \<Rightarrow>
   (('m, 'w) gstate, goerr option) act" where
  "group_Set E role key value expire hotCache =
     (if key = [] then ret (Some (ErrString ''empty Set() key not allowed''))
      else bnd (reads (g_maxCacheBytes \<circ> fst)) (\<lambda>mx.
        if le64 mx 0 then ret None
        else bnd (sf_Do role (set_flight E key value expire)) (\<lambda>(_, err). ret err)))"

section \<open>Remove\<close>

definition remove_flight ::
  "('m, 'c, 'w, 'p) env \<Rightarrow> string \<Rightarrow> (('m, 'w) gstate, byteview option \<times> goerr option) act" where
  "remove_flight E key =
     (case PickPeer E key of (owner, isRemote) \<Rightarrow>
      bnd (case owner of
             Some ow \<Rightarrow> if isRemote then group_removeFromPeer E ow key else ret None
           | None \<Rightarrow> ret None) (\<lambda>err.
      case err of
        Some e \<Rightarrow> ret (None, Some e)
      | None \<Rightarrow>
          bnd (group_LocalRemove E key) (\<lambda>_.
          bnd (go_all (e_sched E) (\<lambda>p. group_removeFromPeer E p key)
                (filter (\<lambda>p. Some p \<noteq> owner) (getAllPeers E))) (\<lambda>errs.
          ret (None, collect_errors errs)))))"

definition group_Remove ::
  "('m, 'c, 'w, 'p) env \<Rightarrow> byteview role \<Rightarrow> string \<Rightarrow> (('m, 'w) gstate, goerr option) act" where
  "group_Remove E role key = bnd (sf_Do role (remove_flight E key)) (\<lambda>(_, err). ret err)"

section \<open>RemoveKeys\<close>

text \<open>\<open>keysByOwner\<close>: the keys with a remote owner, by owner, in the order of the call.\<close>

fun add_key :: "'c \<Rightarrow> string \<Rightarrow> ('c \<times> string list) list \<Rightarrow> ('c \<times> string list) list" where
  "add_key ow k [] = [(ow, [k])]"
| "add_key ow k ((p, ks) # m) = (if p = ow then (p, ks @ [k]) # m else (p, ks) # add_key ow k m)"

definition keysByOwner :: "('m, 'c, 'w, 'p) env \<Rightarrow> string list \<Rightarrow> ('c \<times> string list) list" where
  "keysByOwner E keys =
     foldl (\<lambda>m k. case PickPeer E k of (Some ow, True) \<Rightarrow> add_key ow k m | _ \<Rightarrow> m) [] keys"

definition removeKeys_call ::
  "('m, 'c, 'w, 'p) env \<Rightarrow> 'c \<times> string list \<Rightarrow> (('m, 'w) gstate, goerr option) act" where
  "removeKeys_call E t = bnd (reads (g_name \<circ> fst)) (\<lambda>name.
     world (Client_RemoveKeys (e_client E) (fst t) \<lparr>rk_Group = Some name, rk_Keys = snd t\<rparr>))"

text \<open>The requests sent: to each owner its own keys, to each other peer all of them.\<close>

definition removeKeys_requests ::
  "('m, 'c, 'w, 'p) env \<Rightarrow> string list \<Rightarrow> ('c \<times> string list) list" where
  "removeKeys_requests E keys =
     (let owners = keysByOwner E keys
      in owners @
         map (\<lambda>p. (p, keys))
           (filter (\<lambda>p. \<not> IsSelf (Client_PeerInfo (e_client E) p) \<and> p \<notin> set (map fst owners))
             (getAllPeers E)))"

definition group_RemoveKeys ::
  "('m, 'c, 'w, 'p) env \<Rightarrow> string list \<Rightarrow> (('m, 'w) gstate, goerr option) act" where
  "group_RemoveKeys E keys =
     (if keys = [] then ret None
      else
        bnd (count (\<lambda>st. st\<lparr>RemoveKeysRequests := AtomicInt_Add 1 (RemoveKeysRequests st)\<rparr>)) (\<lambda>_.
        bnd (count (\<lambda>st. st\<lparr>RemovedKeys := AtomicInt_Add (of_nat (length keys)) (RemovedKeys st)\<rparr>)) (\<lambda>_.
        bnd (each (group_LocalRemove E) keys) (\<lambda>_.
        bnd (go_all (e_sched E) (removeKeys_call E) (removeKeys_requests E keys)) (\<lambda>errs.
        ret (collect_errors errs))))))"

section \<open>Sizes and statistics\<close>

definition group_Name :: "'m group \<Rightarrow> string" where
  "group_Name g = g_name g"

definition group_GroupStats :: "'m group \<Rightarrow> GroupStats" where
  "group_GroupStats g = g_Stats g"

definition group_UsedBytes :: "('m, 'c, 'w, 'p) env \<Rightarrow> 'm group \<Rightarrow> int64 \<times> int64" where
  "group_UsedBytes E g =
     (Cache_Bytes (e_cache E) (g_mainCache g), Cache_Bytes (e_cache E) (g_hotCache g))"

definition MainCache :: int where
  "MainCache = 1"

definition HotCache :: int where
  "HotCache = 2"

definition zero_CacheStats :: CacheStats where
  "zero_CacheStats =
     \<lparr>cs_Rejected = 0, cs_Bytes = 0, cs_Items = 0, cs_Gets = 0, cs_Hits = 0, cs_Evictions = 0\<rparr>"

definition group_CacheStats :: "('m, 'c, 'w, 'p) env \<Rightarrow> int \<Rightarrow> 'm group \<Rightarrow> CacheStats" where
  "group_CacheStats E which g =
     (if which = MainCache then Cache_Stats (e_cache E) (g_mainCache g)
      else if which = HotCache then Cache_Stats (e_cache E) (g_hotCache g)
      else zero_CacheStats)"

definition hot_size :: "int64 \<Rightarrow> int64" where
  "hot_size maxBytes = (if le64 0 maxBytes then quot64 maxBytes 8 else 0)"

definition main_size :: "int64 \<Rightarrow> int64" where
  "main_size maxBytes = (if le64 0 maxBytes then hot_size maxBytes * 7 else 0)"

definition group_ResetCacheSize ::
  "('m, 'c, 'w, 'p) env \<Rightarrow> int64 \<Rightarrow> 'm group \<Rightarrow> 'm group \<times> goerr option" where
  "group_ResetCacheSize E maxBytes g =
     (let g1 = g\<lparr>g_maxCacheBytes := maxBytes\<rparr>
      in case e_CacheFactory E (main_size maxBytes) of
           (main, err) \<Rightarrow>
             (let g2 = g1\<lparr>g_mainCache := main\<rparr>
              in case err of
                   Some e \<Rightarrow> (g2, Some (ErrWrap ''Options.CacheFactory(): '' e))
                 | None \<Rightarrow>
                     (case e_CacheFactory E (hot_size maxBytes) of
                        (hot, err2) \<Rightarrow>
                          (g2\<lparr>g_hotCache := hot\<rparr>,
                           map_option (ErrWrap ''Options.CacheFactory(): '') err2))))"

end
