(* ===== verification/MutexCache.thy ===== *)
theory MutexCache
  imports CacheApi
begin

text \<open>
  The default cache, \<open>mutexCache\<close> of src/cache.go: an LRU that counts the bytes of its keys and
  values and evicts from the old end until they fit.  Every exported method runs under the mutex
  from its first to its last statement, so each is one atomic step here.

  The callback the cache installs in its LRU writes the counters, so the counters are a record of
  their own, the state threaded through the LRU operations.  The loop of \<open>removeOldest\<close> has no
  exit but the bytes fitting, so it is a partial function: \<^term>\<open>None\<close> is a loop that never
  ends.
\<close>

record mcounters =
  m_bytes :: int64
  m_hits :: int64
  m_gets :: int64
  m_evictions :: int64
  m_maxBytes :: int64

record mutexCache =
  mc :: mcounters
  mc_lru :: "(string, byteview, mcounters) lru_cache option"

definition newMutexCache :: "int64 \<Rightarrow> mutexCache" where
  "newMutexCache maxBytes =
     \<lparr>mc = \<lparr>m_bytes = 0, m_hits = 0, m_gets = 0, m_evictions = 0, m_maxBytes = maxBytes\<rparr>,
      mc_lru = None\<rparr>"

text \<open>\<open>int64(len(key)) + int64(val.Len())\<close>.\<close>

definition entry_size :: "string \<Rightarrow> byteview \<Rightarrow> int64" where
  "entry_size key val = of_nat (length key) + word_of_int (bv_Len val)"

text \<open>The \<open>OnEvicted\<close> callback installed by \<open>Add\<close>.\<close>

definition mutex_onEvicted :: "string \<Rightarrow> byteview \<Rightarrow> mcounters \<Rightarrow> mcounters" where
  "mutex_onEvicted key val m =
     m\<lparr>m_bytes := m_bytes m - entry_size key val, m_evictions := m_evictions m + 1\<rparr>"

definition mutex_itemsLocked :: "mutexCache \<Rightarrow> int64" where
  "mutex_itemsLocked m =
     (case mc_lru m of None \<Rightarrow> 0 | Some l \<Rightarrow> word_of_int (lru_Len l))"

definition mutex_Stats :: "mutexCache \<Rightarrow> CacheStats" where
  "mutex_Stats m =
     \<lparr>cs_Rejected = 0, cs_Bytes = m_bytes (mc m), cs_Items = mutex_itemsLocked m,
      cs_Gets = m_gets (mc m), cs_Hits = m_hits (mc m), cs_Evictions = m_evictions (mc m)\<rparr>"

text \<open>One iteration of the loop of \<open>removeOldest\<close>, and the loop.\<close>

definition mutex_evict_one :: "mutexCache \<Rightarrow> mutexCache" where
  "mutex_evict_one m =
     (case mc_lru m of
        None \<Rightarrow> m
      | Some l \<Rightarrow>
          (case lru_RemoveOldest l (mc m) of (l', s) \<Rightarrow> m\<lparr>mc := s, mc_lru := Some l'\<rparr>))"

partial_function (option) mutex_evict_loop :: "mutexCache \<Rightarrow> mutexCache option" where
  "mutex_evict_loop m =
     (if le64 (m_bytes (mc m)) (m_maxBytes (mc m)) then Some m
      else mutex_evict_loop (mutex_evict_one m))"

definition mutex_removeOldest :: "mutexCache \<Rightarrow> mutexCache option" where
  "mutex_removeOldest m = (if m_maxBytes (mc m) = 0 then Some m else mutex_evict_loop m)"

definition mutex_Add :: "string \<Rightarrow> byteview \<Rightarrow> mutexCache \<Rightarrow> mutexCache option" where
  "mutex_Add key val m =
     (let l = (case mc_lru m of None \<Rightarrow> lru_literal (Some mutex_onEvicted) | Some l \<Rightarrow> l);
          (l', s) = lru_Add key val (bv_Expire val) l (mc m)
      in mutex_removeOldest
           (m\<lparr>mc := s\<lparr>m_bytes := m_bytes s + entry_size key val\<rparr>, mc_lru := Some l'\<rparr>))"

definition mutex_Get :: "gotime \<Rightarrow> string \<Rightarrow> mutexCache \<Rightarrow> byteview option \<times> mutexCache" where
  "mutex_Get now key m =
     (let s0 = (mc m)\<lparr>m_gets := m_gets (mc m) + 1\<rparr>
      in case mc_lru m of
           None \<Rightarrow> (None, m\<lparr>mc := s0\<rparr>)
         | Some l \<Rightarrow>
             (case lru_Get now key l s0 of
                (None, l', s) \<Rightarrow> (None, m\<lparr>mc := s, mc_lru := Some l'\<rparr>)
              | (Some v, l', s) \<Rightarrow>
                  (Some v, m\<lparr>mc := s\<lparr>m_hits := m_hits s + 1\<rparr>, mc_lru := Some l'\<rparr>)))"

definition mutex_Remove :: "string \<Rightarrow> mutexCache \<Rightarrow> mutexCache" where
  "mutex_Remove key m =
     (case mc_lru m of
        None \<Rightarrow> m
      | Some l \<Rightarrow>
          (case lru_Remove key l (mc m) of (l', s) \<Rightarrow> m\<lparr>mc := s, mc_lru := Some l'\<rparr>))"

definition mutex_Bytes :: "mutexCache \<Rightarrow> int64" where
  "mutex_Bytes m = m_bytes (mc m)"

definition mutex_Close :: "mutexCache \<Rightarrow> mutexCache" where
  "mutex_Close m = m"

text \<open>The method table of \<open>*mutexCache\<close>.\<close>

definition mutex_ops :: "mutexCache Cache" where
  "mutex_ops =
     \<lparr>Cache_Get = mutex_Get, Cache_Add = mutex_Add, Cache_Stats = mutex_Stats,
      Cache_Remove = mutex_Remove, Cache_Bytes = mutex_Bytes, Cache_Close = mutex_Close\<rparr>"

section \<open>What the cache holds\<close>

definition mutex_entries :: "mutexCache \<Rightarrow> (string, byteview) entry list" where
  "mutex_entries m = (case mc_lru m of None \<Rightarrow> [] | Some l \<Rightarrow> lru_entries l)"

definition mutex_contents :: "mutexCache \<Rightarrow> string \<rightharpoonup> byteview" where
  "mutex_contents m k = map_option e_value (rl_lookup k (mutex_entries m))"

text \<open>The number of bytes of keys and values, as a natural number.\<close>

definition total_size :: "(string, byteview) entry list \<Rightarrow> nat" where
  "total_size xs = sum_list (map (\<lambda>x. length (e_key x) + length (bv_data (e_value x))) xs)"

text \<open>The representation invariant: the LRU is well formed, unbounded in entries and reports to
  this cache; the byte counter is the size of what is held, in 64-bit arithmetic; the expiry of
  an entry is that of its value.  \<open>mutex_ok\<close> adds that the limit is not negative, as it is for
  every cache a group creates.\<close>

definition mutex_inv :: "mutexCache \<Rightarrow> bool" where
  "mutex_inv m \<longleftrightarrow>
     m_bytes (mc m) = weight_of entry_size (mutex_entries m) \<and>
     (\<forall>x\<in>set (mutex_entries m). e_expire x = bv_e (e_value x)) \<and>
     (case mc_lru m of
        None \<Rightarrow> True
      | Some l \<Rightarrow> lru_inv l \<and> OnEvicted l = Some mutex_onEvicted \<and> MaxEntries l = 0)"

definition mutex_ok :: "mutexCache \<Rightarrow> bool" where
  "mutex_ok m \<longleftrightarrow> mutex_inv m \<and> le64 0 (m_maxBytes (mc m))"

text \<open>The specification of eviction: drop entries from the old end until the rest fits.\<close>

function fit :: "int64 \<Rightarrow> (string, byteview) entry list \<Rightarrow> (string, byteview) entry list" where
  "fit mx xs =
     (if xs = [] \<or> le64 (weight_of entry_size xs) mx then xs else fit mx (butlast xs))"
  by pat_completeness auto
termination
  by (relation "measure (\<lambda>(mx, xs). length xs)") auto

declare fit.simps [simp del]

section \<open>Lemmas\<close>

lemma weight_of_total_size: "weight_of entry_size xs = of_nat (total_size xs)"
  by (induction xs) (simp_all add: total_size_def entry_size_def bv_Len_data)

interpretation byte_account: eviction_account mutex_onEvicted m_bytes entry_size
  by unfold_locales (simp add: mutex_onEvicted_def)

lemma notify_counters:
  assumes "OnEvicted l = Some mutex_onEvicted"
  shows "notify l xs s = s\<lparr>m_bytes := m_bytes s - weight_of entry_size xs,
    m_evictions := m_evictions s + of_nat (length xs)\<rparr>"
  by (induction xs arbitrary: s)
    (simp_all add: call_OnEvicted_def assms mutex_onEvicted_def diff_diff_eq add.assoc)

lemma mutex_entries_distinct: "mutex_inv m \<Longrightarrow> distinct (map e_key (mutex_entries m))"
  by (auto simp: mutex_inv_def mutex_entries_def dest: lru_entries_distinct split: option.splits)

lemma mutex_bytes_total: "mutex_inv m \<Longrightarrow> m_bytes (mc m) = of_nat (total_size (mutex_entries m))"
  by (simp add: mutex_inv_def weight_of_total_size)

lemma evict_one_spec:
  assumes "mutex_inv m"
  shows "mutex_inv (mutex_evict_one m)"
    and "mutex_entries (mutex_evict_one m) = butlast (mutex_entries m)"
    and "m_maxBytes (mc (mutex_evict_one m)) = m_maxBytes (mc m)"
    and "m_gets (mc (mutex_evict_one m)) = m_gets (mc m)"
    and "m_hits (mc (mutex_evict_one m)) = m_hits (mc m)"
proof -
  have "mutex_inv (mutex_evict_one m) \<and>
    mutex_entries (mutex_evict_one m) = butlast (mutex_entries m) \<and>
    m_maxBytes (mc (mutex_evict_one m)) = m_maxBytes (mc m) \<and>
    m_gets (mc (mutex_evict_one m)) = m_gets (mc m) \<and>
    m_hits (mc (mutex_evict_one m)) = m_hits (mc m)"
  proof (cases "mc_lru m")
    case None
    then show ?thesis using assms by (simp add: mutex_evict_one_def mutex_entries_def)
  next
    case (Some l)
    then have l: "lru_inv l" "OnEvicted l = Some mutex_onEvicted" "MaxEntries l = 0"
      "m_bytes (mc m) = weight_of entry_size (lru_entries l)"
      "\<forall>x\<in>set (lru_entries l). e_expire x = bv_e (e_value x)"
      using assms by (simp_all add: mutex_inv_def mutex_entries_def)
    obtain l' s where r: "lru_RemoveOldest l (mc m) = (l', s)"
      by (cases "lru_RemoveOldest l (mc m)") auto
    have "lru_inv l'" "lru_entries l' = butlast (lru_entries l)" "MaxEntries l' = 0"
      "OnEvicted l' = Some mutex_onEvicted" "s = notify l (snd (rl_oldest (lru_entries l))) (mc m)"
      using RemoveOldest_spec [OF l(1), of "mc m"] r l(2,3) by (simp_all add: rl_oldest_def)
    moreover have "m_bytes s = weight_of entry_size (lru_entries l')"
      using byte_account.RemoveOldest_account [OF l(1,2,4)] r by simp
    ultimately show ?thesis
      using Some r l(5) notify_counters [OF l(2), of _ "mc m"]
      by (auto simp: mutex_evict_one_def mutex_entries_def mutex_inv_def dest: in_set_butlastD)
  qed
  then show "mutex_inv (mutex_evict_one m)"
    "mutex_entries (mutex_evict_one m) = butlast (mutex_entries m)"
    "m_maxBytes (mc (mutex_evict_one m)) = m_maxBytes (mc m)"
    "m_gets (mc (mutex_evict_one m)) = m_gets (mc m)"
    "m_hits (mc (mutex_evict_one m)) = m_hits (mc m)"
    by simp_all
qed

lemma evict_loop_spec:
  assumes "mutex_ok m"
  shows "\<exists>m'. mutex_evict_loop m = Some m' \<and> mutex_ok m' \<and>
    mutex_entries m' = fit (m_maxBytes (mc m)) (mutex_entries m) \<and>
    m_maxBytes (mc m') = m_maxBytes (mc m) \<and> m_gets (mc m') = m_gets (mc m) \<and>
    m_hits (mc m') = m_hits (mc m)"
  using assms
proof (induction "length (mutex_entries m)" arbitrary: m rule: less_induct)
  case less
  have w: "m_bytes (mc m) = weight_of entry_size (mutex_entries m)"
    using less.prems by (simp add: mutex_ok_def mutex_inv_def)
  show ?case
  proof (cases "le64 (m_bytes (mc m)) (m_maxBytes (mc m))")
    case True
    then show ?thesis
      using less.prems w by (simp add: mutex_evict_loop.simps [of m] fit.simps)
  next
    case False
    then have ne: "mutex_entries m \<noteq> []"
      using less.prems w by (auto simp: mutex_ok_def)
    let ?m = "mutex_evict_one m"
    note one = evict_one_spec [of m]
    have ok: "mutex_ok ?m" using less.prems one by (simp add: mutex_ok_def)
    have "length (mutex_entries ?m) < length (mutex_entries m)"
      using less.prems one(2) ne by (simp add: mutex_ok_def)
    from less.hyps [OF this ok] obtain m' where "mutex_evict_loop ?m = Some m'" "mutex_ok m'"
      "mutex_entries m' = fit (m_maxBytes (mc ?m)) (mutex_entries ?m)"
      "m_maxBytes (mc m') = m_maxBytes (mc ?m)" "m_gets (mc m') = m_gets (mc ?m)"
      "m_hits (mc m') = m_hits (mc ?m)" by blast
    moreover have "mutex_evict_loop m = mutex_evict_loop ?m"
      using False by (simp add: mutex_evict_loop.simps [of m])
    moreover have "fit (m_maxBytes (mc m)) (mutex_entries m)
        = fit (m_maxBytes (mc m)) (butlast (mutex_entries m))"
      using False ne w by (simp add: fit.simps [of _ "mutex_entries m"])
    ultimately show ?thesis using less.prems one by (simp add: mutex_ok_def)
  qed
qed

text \<open>The limit in force: 0 stands for no limit.\<close>

definition evicted_to :: "int64 \<Rightarrow> (string, byteview) entry list \<Rightarrow> (string, byteview) entry list" where
  "evicted_to mx xs = (if mx = 0 then xs else fit mx xs)"

lemma removeOldest_spec:
  assumes "mutex_ok m"
  shows "\<exists>m'. mutex_removeOldest m = Some m' \<and> mutex_ok m' \<and>
    mutex_entries m' = evicted_to (m_maxBytes (mc m)) (mutex_entries m) \<and>
    m_maxBytes (mc m') = m_maxBytes (mc m) \<and> m_gets (mc m') = m_gets (mc m) \<and>
    m_hits (mc m') = m_hits (mc m)"
  using evict_loop_spec [OF assms] assms by (simp add: mutex_removeOldest_def evicted_to_def)

text \<open>What \<open>Add\<close> hands to \<open>removeOldest\<close>.\<close>

lemma mutex_Add_insert:
  assumes "mutex_inv m"
  shows "\<exists>m1. mutex_Add k v m = mutex_removeOldest m1 \<and> mutex_inv m1 \<and>
    mutex_entries m1 =
      \<lparr>e_key = k, e_value = v, e_expire = bv_e v\<rparr> # rl_without k (mutex_entries m) \<and>
    m_maxBytes (mc m1) = m_maxBytes (mc m) \<and> m_gets (mc m1) = m_gets (mc m) \<and>
    m_hits (mc m1) = m_hits (mc m)"
proof -
  let ?x = "\<lparr>e_key = k, e_value = v, e_expire = bv_e v\<rparr>"
  define l where "l = (case mc_lru m of None \<Rightarrow> lru_literal (Some mutex_onEvicted) | Some l \<Rightarrow> l)"
  have l: "lru_inv l" "OnEvicted l = Some mutex_onEvicted" "MaxEntries l = 0"
    "m_bytes (mc m) = weight_of entry_size (lru_entries l)"
    "\<forall>x\<in>set (lru_entries l). e_expire x = bv_e (e_value x)" "mutex_entries m = lru_entries l"
    using assms
    by (cases "mc_lru m"; simp add: l_def mutex_inv_def mutex_entries_def
        lru_literal_def lru_inv_def lru_entries_def)+
  obtain l' s where r: "lru_Add k v (bv_e v) l (mc m) = (l', s)"
    by (cases "lru_Add k v (bv_e v) l (mc m)") auto
  define es where "es = snd (rl_add 0 ?x (lru_entries l))"
  have l': "lru_inv l'" "MaxEntries l' = 0" "OnEvicted l' = Some mutex_onEvicted"
    "lru_entries l' = fst (rl_add 0 ?x (lru_entries l))" "s = notify l es (mc m)"
    using Add_spec [OF l(1), of k v "bv_e v" "mc m"] r l(2,3) by (simp_all add: es_def)
  have ent: "lru_entries l' = ?x # rl_without k (lru_entries l)"
    unfolding l'(4) by (auto simp: rl_add_def rl_lookup_None split: option.split)
  have "m_bytes s + entry_size k v = weight_of entry_size (lru_entries l')"
    using byte_account.Add_account [OF l(1,2,4), of k v "bv_e v"] r by simp
  then have "mutex_inv (m\<lparr>mc := s\<lparr>m_bytes := m_bytes s + entry_size k v\<rparr>, mc_lru := Some l'\<rparr>)"
    using assms l'(1,2,3,5) l(5) notify_counters [OF l(2), of es "mc m"]
    by (auto simp: mutex_inv_def mutex_entries_def ent rl_without_def)
  then show ?thesis
    using r l(6) l'(5) ent notify_counters [OF l(2), of es "mc m"]
    by (intro exI [of _ "m\<lparr>mc := s\<lparr>m_bytes := m_bytes s + entry_size k v\<rparr>, mc_lru := Some l'\<rparr>"])
      (simp add: mutex_Add_def mutex_entries_def l_def [symmetric])
qed

lemma mutex_Add_spec:
  assumes "mutex_ok m"
  shows "\<exists>m'. mutex_Add k v m = Some m' \<and> mutex_ok m' \<and>
    mutex_entries m' = evicted_to (m_maxBytes (mc m))
      (\<lparr>e_key = k, e_value = v, e_expire = bv_e v\<rparr> # rl_without k (mutex_entries m)) \<and>
    m_maxBytes (mc m') = m_maxBytes (mc m) \<and> m_gets (mc m') = m_gets (mc m) \<and>
    m_hits (mc m') = m_hits (mc m)"
proof -
  obtain m1 where m1: "mutex_Add k v m = mutex_removeOldest m1" "mutex_inv m1"
    "mutex_entries m1 =
      \<lparr>e_key = k, e_value = v, e_expire = bv_e v\<rparr> # rl_without k (mutex_entries m)"
    "m_maxBytes (mc m1) = m_maxBytes (mc m)" "m_gets (mc m1) = m_gets (mc m)"
    "m_hits (mc m1) = m_hits (mc m)"
    using mutex_Add_insert [of m k v] assms by (auto simp: mutex_ok_def)
  then have "mutex_ok m1" using assms by (simp add: mutex_ok_def)
  from removeOldest_spec [OF this] show ?thesis using m1 by simp
qed

lemma mutex_Get_spec:
  assumes "mutex_inv m" "mutex_Get now k m = (r, m')"
  shows "mutex_inv m' \<and> (r, mutex_entries m') =
      (fst (rl_get now k (mutex_entries m)), fst (snd (rl_get now k (mutex_entries m)))) \<and>
    m_maxBytes (mc m') = m_maxBytes (mc m) \<and> m_gets (mc m') = m_gets (mc m) + 1 \<and>
    m_hits (mc m') = m_hits (mc m) + (if r = None then 0 else 1)"
proof (cases "mc_lru m")
  case None
  then show ?thesis
    using assms by (auto simp: mutex_Get_def mutex_entries_def mutex_inv_def rl_get_def)
next
  case (Some l)
  let ?s = "(mc m)\<lparr>m_gets := m_gets (mc m) + 1\<rparr>"
  have l: "lru_inv l" "OnEvicted l = Some mutex_onEvicted" "MaxEntries l = 0"
    "m_bytes ?s = weight_of entry_size (lru_entries l)"
    "\<forall>x\<in>set (lru_entries l). e_expire x = bv_e (e_value x)" "mutex_entries m = lru_entries l"
    using assms(1) Some by (simp_all add: mutex_inv_def mutex_entries_def)
  obtain q l' s where g: "lru_Get now k l ?s = (q, l', s)" by (cases "lru_Get now k l ?s") auto
  obtain q' ys es where h: "rl_get now k (lru_entries l) = (q', ys, es)"
    by (cases "rl_get now k (lru_entries l)") auto
  have l': "lru_inv l'" "q = q'" "lru_entries l' = ys" "s = notify l es ?s" "MaxEntries l' = 0"
    "OnEvicted l' = Some mutex_onEvicted"
    using Get_spec [OF l(1) g h] l(2,3) by simp_all
  have b: "m_bytes s = weight_of entry_size (lru_entries l')"
    using byte_account.Get_account [OF l(1,2,4) g] .
  have "set ys \<subseteq> set (lru_entries l)"
    using h by (auto simp: rl_get_def rl_without_def dest: rl_lookup_SomeD
        split: option.splits if_splits)
  then have "\<forall>x\<in>set ys. e_expire x = bv_e (e_value x)" using l(5) by blast
  moreover have "r = q" and "m' = m\<lparr>mc := (if q = None then s else s\<lparr>m_hits := m_hits s + 1\<rparr>),
      mc_lru := Some l'\<rparr>"
    using assms(2) Some g by (auto simp: mutex_Get_def split: option.splits)
  ultimately show ?thesis
    using l l' b h notify_counters [OF l(2), of es ?s]
    by (auto simp: mutex_inv_def mutex_entries_def)
qed

lemma mutex_Remove_spec:
  assumes "mutex_inv m"
  shows "mutex_inv (mutex_Remove k m)"
    and "mutex_entries (mutex_Remove k m) = rl_without k (mutex_entries m)"
    and "m_maxBytes (mc (mutex_Remove k m)) = m_maxBytes (mc m)"
proof -
  have "mutex_inv (mutex_Remove k m) \<and>
    mutex_entries (mutex_Remove k m) = rl_without k (mutex_entries m) \<and>
    m_maxBytes (mc (mutex_Remove k m)) = m_maxBytes (mc m)"
  proof (cases "mc_lru m")
    case None
    then show ?thesis using assms by (simp add: mutex_Remove_def mutex_entries_def)
  next
    case (Some l)
    then have l: "lru_inv l" "OnEvicted l = Some mutex_onEvicted" "MaxEntries l = 0"
      "m_bytes (mc m) = weight_of entry_size (lru_entries l)"
      "\<forall>x\<in>set (lru_entries l). e_expire x = bv_e (e_value x)"
      using assms by (simp_all add: mutex_inv_def mutex_entries_def)
    obtain l' s where r: "lru_Remove k l (mc m) = (l', s)" by (cases "lru_Remove k l (mc m)") auto
    define es where "es = snd (rl_remove k (lru_entries l))"
    have l': "lru_inv l'" "lru_entries l' = fst (rl_remove k (lru_entries l))" "MaxEntries l' = 0"
      "OnEvicted l' = Some mutex_onEvicted" "s = notify l es (mc m)"
      using Remove_spec [OF l(1), of k "mc m"] r l(2,3) by (simp_all add: es_def)
    have ent: "lru_entries l' = rl_without k (lru_entries l)"
      unfolding l'(2) by (auto simp: rl_remove_def rl_lookup_None split: option.split)
    have "m_bytes s = weight_of entry_size (lru_entries l')"
      using byte_account.Remove_account [OF l(1,2,4), of k] r by simp
    then show ?thesis
      using Some r l'(1,3,4,5) l(5) ent notify_counters [OF l(2), of es "mc m"]
      by (auto simp: mutex_Remove_def mutex_entries_def mutex_inv_def rl_without_def)
  qed
  then show "mutex_inv (mutex_Remove k m)"
    "mutex_entries (mutex_Remove k m) = rl_without k (mutex_entries m)"
    "m_maxBytes (mc (mutex_Remove k m)) = m_maxBytes (mc m)"
    by simp_all
qed

subsection \<open>Eviction keeps the longest recent prefix that fits\<close>

lemma fit_take:
  "\<exists>n\<le>length xs. fit mx xs = take n xs \<and>
     (\<forall>j. n < j \<and> j \<le> length xs \<longrightarrow> \<not> le64 (weight_of entry_size (take j xs)) mx)"
proof (induction mx xs rule: fit.induct)
  case (1 mx xs)
  show ?case
  proof (cases "xs = [] \<or> le64 (weight_of entry_size xs) mx")
    case True
    then show ?thesis by (intro exI [of _ "length xs"]) (auto simp: fit.simps [of mx xs])
  next
    case False
    then obtain n where n: "n \<le> length (butlast xs)" "fit mx (butlast xs) = take n (butlast xs)"
      "\<forall>j. n < j \<and> j \<le> length (butlast xs) \<longrightarrow>
         \<not> le64 (weight_of entry_size (take j (butlast xs))) mx"
      using "1.IH" by blast
    have bl: "take j (butlast xs) = take j xs" if "j < length xs" for j
      using that by (auto simp: butlast_conv_take min_def)
    have "\<not> le64 (weight_of entry_size (take j xs)) mx" if "n < j" "j \<le> length xs" for j
      using n(3) that False bl [of j] by (cases "j = length xs") auto
    moreover have "n < length xs" using n(1) False by (cases "length xs") auto
    ultimately show ?thesis
      using n False bl [of n] by (intro exI [of _ n]) (auto simp: fit.simps [of mx xs])
  qed
qed

lemma fit_fits: "le64 0 mx \<Longrightarrow> le64 (weight_of entry_size (fit mx xs)) mx"
proof (induction mx xs rule: fit.induct)
  case (1 mx xs)
  then show ?case
    by (cases "xs = []") (auto simp: fit.simps [of mx xs] fit.simps [of mx "[]"])
qed

lemma lookup_take: "rl_lookup k (take n xs) = Some x \<Longrightarrow> rl_lookup k xs = Some x"
  by (induction xs arbitrary: n) (auto simp: take_Cons' split: if_splits)

lemma evicted_to_take: "\<exists>n. evicted_to mx xs = take n xs"
  using fit_take [of xs mx] by (auto simp: evicted_to_def intro: exI [of _ "length xs"])

lemma evicted_to_first:
  assumes "mx = 0 \<or> le64 (entry_size (e_key x) (e_value x)) mx"
  shows "\<exists>ys. evicted_to mx (x # xs) = x # ys"
proof (cases "mx = 0")
  case True
  then show ?thesis by (simp add: evicted_to_def)
next
  case False
  obtain n where n: "fit mx (x # xs) = take n (x # xs)"
    "\<forall>j. n < j \<and> j \<le> length (x # xs) \<longrightarrow> \<not> le64 (weight_of entry_size (take j (x # xs))) mx"
    using fit_take [of "x # xs" mx] by blast
  have "n \<noteq> 0"
  proof
    assume "n = 0"
    then have "\<not> le64 (weight_of entry_size (take 1 (x # xs))) mx" using n(2) by auto
    then show False using assms False by simp
  qed
  then show ?thesis using n(1) False by (cases n) (auto simp: evicted_to_def)
qed

section \<open>The cache keeps its contract\<close>

lemma mutex_Get_contents:
  assumes "mutex_ok m" "mutex_Get now k m = (r, m')"
  shows "mutex_ok m'" "mutex_contents m' \<subseteq>\<^sub>m mutex_contents m"
    "r = (case mutex_contents m k of None \<Rightarrow> None | Some v \<Rightarrow> if expired now (bv_e v) then None else Some v)"
    "r \<noteq> None \<Longrightarrow> mutex_contents m' = mutex_contents m"
proof -
  note g = mutex_Get_spec [of m now k r m']
  have inv: "mutex_inv m" using assms(1) by (simp add: mutex_ok_def)
  show "mutex_ok m'" using assms g by (simp add: mutex_ok_def)
  have e: "mutex_entries m' = fst (snd (rl_get now k (mutex_entries m)))"
    and r: "r = fst (rl_get now k (mutex_entries m))"
    using g [OF inv assms(2)] by simp_all
  have exp: "e_expire x = bv_e (e_value x)" if "rl_lookup k (mutex_entries m) = Some x" for x
    using that inv by (auto simp: mutex_inv_def dest: rl_lookup_SomeD)
  show "mutex_contents m' \<subseteq>\<^sub>m mutex_contents m"
    using e by (auto simp: mutex_contents_def map_le_def rl_get_def dest: rl_lookup_SomeD
        split: option.splits if_splits)
  show "r = (case mutex_contents m k of None \<Rightarrow> None | Some v \<Rightarrow> if expired now (bv_e v) then None else Some v)"
    using r exp by (auto simp: mutex_contents_def rl_get_def split: option.splits)
  show "mutex_contents m' = mutex_contents m" if "r \<noteq> None"
    using that r e by (auto simp: mutex_contents_def fun_eq_iff rl_get_def dest: rl_lookup_SomeD
        split: option.splits if_splits)
qed

lemma mutex_Add_contents:
  assumes "mutex_ok m"
  shows "\<exists>m'. mutex_Add k v m = Some m' \<and> mutex_ok m' \<and>
    mutex_contents m' \<subseteq>\<^sub>m (mutex_contents m)(k \<mapsto> v)"
proof -
  let ?ys = "\<lparr>e_key = k, e_value = v, e_expire = bv_e v\<rparr> # rl_without k (mutex_entries m)"
  obtain m' where m': "mutex_Add k v m = Some m'" "mutex_ok m'"
    "mutex_entries m' = evicted_to (m_maxBytes (mc m)) ?ys"
    using mutex_Add_spec [OF assms, of k v] by blast
  obtain n where "evicted_to (m_maxBytes (mc m)) ?ys = take n ?ys"
    using evicted_to_take by blast
  then have look: "rl_lookup j (mutex_entries m') = Some x \<Longrightarrow> rl_lookup j ?ys = Some x" for j x
    using lookup_take [of j n ?ys x] m'(3) by simp
  have upd: "((mutex_contents m)(k \<mapsto> v)) j = map_option e_value (rl_lookup j ?ys)" for j
    by (simp add: mutex_contents_def)
  have "mutex_contents m' \<subseteq>\<^sub>m (mutex_contents m)(k \<mapsto> v)"
    unfolding map_le_def
  proof
    fix j assume "j \<in> dom (mutex_contents m')"
    then obtain x where "rl_lookup j (mutex_entries m') = Some x"
      by (auto simp: mutex_contents_def)
    with look [OF this] show "mutex_contents m' j = ((mutex_contents m)(k \<mapsto> v)) j"
      unfolding upd by (simp add: mutex_contents_def)
  qed
  then show ?thesis using m' by blast
qed

lemma mutex_Add_holds:
  assumes "mutex_ok m"
    and "m_maxBytes (mc m) = 0 \<or> le64 (entry_size k v) (m_maxBytes (mc m))"
  shows "\<exists>m'. mutex_Add k v m = Some m' \<and> mutex_ok m' \<and> mutex_contents m' k = Some v"
proof -
  let ?x = "\<lparr>e_key = k, e_value = v, e_expire = bv_e v\<rparr>"
  obtain m' where m': "mutex_Add k v m = Some m'" "mutex_ok m'"
    "mutex_entries m' = evicted_to (m_maxBytes (mc m)) (?x # rl_without k (mutex_entries m))"
    using mutex_Add_spec [OF assms(1), of k v] by blast
  moreover obtain ys where
    "evicted_to (m_maxBytes (mc m)) (?x # rl_without k (mutex_entries m)) = ?x # ys"
    using evicted_to_first [of "m_maxBytes (mc m)" ?x] assms(2) by auto
  ultimately show ?thesis by (simp add: mutex_contents_def)
qed

interpretation mutex: retaining_cache mutex_ops mutex_ok mutex_contents
proof unfold_locales
  fix c now k r c'
  assume "mutex_ok c" "Cache_Get mutex_ops now k c = (r, c')"
  then show "mutex_ok c' \<and> mutex_contents c' \<subseteq>\<^sub>m mutex_contents c \<and>
      (\<forall>v. r = Some v \<longrightarrow> mutex_contents c k = Some v \<and> \<not> expired now (bv_e v))"
    using mutex_Get_contents [of c now k r c'] by (auto simp: mutex_ops_def split: option.splits)
next
  fix c k v
  assume "mutex_ok c"
  then obtain c' where c': "mutex_Add k v c = Some c'" "mutex_ok c'"
    "mutex_contents c' \<subseteq>\<^sub>m (mutex_contents c)(k \<mapsto> v)"
    using mutex_Add_contents by blast
  have "mutex_contents c j = Some u \<or> j = k \<and> u = v" if "mutex_contents c' j = Some u" for j u
    using map_le_SomeD [OF c'(3) that] by (auto split: if_splits)
  then show "\<exists>c'. Cache_Add mutex_ops k v c = Some c' \<and> mutex_ok c' \<and>
      (\<forall>j u. mutex_contents c' j = Some u \<longrightarrow> mutex_contents c j = Some u \<or> j = k \<and> u = v)"
    using c' by (simp add: mutex_ops_def)
next
  fix c k
  assume "mutex_ok c"
  then show "mutex_ok (Cache_Remove mutex_ops k c) \<and>
      mutex_contents (Cache_Remove mutex_ops k c) = (mutex_contents c)(k := None)"
    using mutex_Remove_spec [of c k]
    by (auto simp: mutex_ops_def mutex_ok_def mutex_contents_def fun_eq_iff)
next
  fix c k v now
  assume "mutex_ok c" "mutex_contents c k = Some v" "\<not> expired now (bv_e v)"
  then show "fst (Cache_Get mutex_ops now k c) = Some v \<and>
      mutex_contents (snd (Cache_Get mutex_ops now k c)) = mutex_contents c"
    using mutex_Get_contents [OF _ surjective_pairing, of c now k] by (simp add: mutex_ops_def)
qed

lemma mutex_ok_new: "le64 0 mx \<Longrightarrow> mutex_ok (newMutexCache mx)"
  by (simp add: mutex_ok_def mutex_inv_def newMutexCache_def mutex_entries_def)

section \<open>States a cache can be in\<close>

text \<open>The states of a cache with limit \<open>mx\<close>, reached by any calls.  The one thing asked of the
  calls is what memory enforces: the bytes held and those being added are below \<open>2 ^ 63\<close>.\<close>

inductive mutex_reach :: "int64 \<Rightarrow> mutexCache \<Rightarrow> bool" for mx :: int64 where
  reach_new: "mutex_reach mx (newMutexCache mx)"
| reach_add: "mutex_reach mx m \<Longrightarrow>
    total_size (mutex_entries m) + length k + length (bv_data v) < 2 ^ 63 \<Longrightarrow>
    mutex_Add k v m = Some m' \<Longrightarrow> mutex_reach mx m'"
| reach_get: "mutex_reach mx m \<Longrightarrow> mutex_Get now k m = (r, m') \<Longrightarrow> mutex_reach mx m'"
| reach_remove: "mutex_reach mx m \<Longrightarrow> mutex_reach mx (mutex_Remove k m)"

lemma total_size_Nil [simp]: "total_size [] = 0"
  by (simp add: total_size_def)

lemma total_size_Cons [simp]:
  "total_size (x # xs) = length (e_key x) + length (bv_data (e_value x)) + total_size xs"
  by (simp add: total_size_def)

lemma total_size_without: "total_size (rl_without k xs) \<le> total_size xs"
  by (induction xs) (auto simp: rl_without_def)

lemma total_size_get: "total_size (fst (snd (rl_get now k xs))) \<le> total_size xs"
proof (cases "rl_lookup k xs")
  case (Some x)
  have "length (e_key x) + length (bv_data (e_value x)) + total_size (rl_without k xs)
      \<le> total_size xs" using Some
    by (induction xs) (auto simp: rl_without_def total_size_without [unfolded rl_without_def]
        intro!: add_mono split: if_splits)
  then show ?thesis using Some by (auto simp: rl_get_def)
qed (simp add: rl_get_def)

lemma total_size_take: "total_size (take n xs) \<le> total_size xs"
  by (induction xs arbitrary: n) (auto simp: take_Cons')

lemma le64_of_nat: "n < 2 ^ 63 \<Longrightarrow> le64 (of_nat n) mx \<longleftrightarrow> int n \<le> sint mx"
  by (simp add: le64_def sint64_of_nat)

text \<open>The invariant of the reachable states: \<open>mutex_ok\<close>, the limit given, and the true size
  below \<open>2 ^ 63\<close> and within the limit.\<close>

definition mutex_bounded :: "int64 \<Rightarrow> mutexCache \<Rightarrow> bool" where
  "mutex_bounded mx m \<longleftrightarrow> mutex_ok m \<and> m_maxBytes (mc m) = mx \<and>
     total_size (mutex_entries m) < 2 ^ 63 \<and>
     (mx \<noteq> 0 \<longrightarrow> int (total_size (mutex_entries m)) \<le> sint mx)"

lemma mutex_bounded_Add:
  assumes "mutex_bounded mx m" "mutex_Add k v m = Some m'"
    and mem: "total_size (mutex_entries m) + length k + length (bv_data v) < 2 ^ 63"
  shows "mutex_bounded mx m'"
proof -
  let ?ys = "\<lparr>e_key = k, e_value = v, e_expire = bv_e v\<rparr> # rl_without k (mutex_entries m)"
  have ok: "mutex_ok m" "m_maxBytes (mc m) = mx" "le64 0 mx"
    using assms(1) by (auto simp: mutex_bounded_def mutex_ok_def)
  have m': "mutex_ok m'" "mutex_entries m' = evicted_to mx ?ys" "m_maxBytes (mc m') = mx"
    using mutex_Add_spec [OF ok(1), of k v] assms(2) ok(2) by auto
  obtain n where "evicted_to mx ?ys = take n ?ys" using evicted_to_take by blast
  then have small: "total_size (mutex_entries m') < 2 ^ 63"
    using total_size_take [of n ?ys] total_size_without [of k "mutex_entries m"] mem m'(2)
    by simp
  moreover have "int (total_size (mutex_entries m')) \<le> sint mx" if "mx \<noteq> 0"
    using fit_fits [OF ok(3), of ?ys] that m'(2) le64_of_nat [OF small, of mx]
    by (simp add: evicted_to_def weight_of_total_size)
  ultimately show ?thesis using m' by (simp add: mutex_bounded_def)
qed

lemma mutex_bounded_smaller:
  assumes "mutex_bounded mx m" "mutex_ok m'" "m_maxBytes (mc m') = m_maxBytes (mc m)"
    "total_size (mutex_entries m') \<le> total_size (mutex_entries m)"
  shows "mutex_bounded mx m'"
  using assms by (auto simp: mutex_bounded_def)

lemma mutex_reach_bounded:
  assumes "mutex_reach mx m" "le64 0 mx"
  shows "mutex_bounded mx m"
  using assms
proof (induction rule: mutex_reach.induct)
  case reach_new
  then show ?case
    using mutex_ok_new [of mx]
    by (simp add: mutex_bounded_def newMutexCache_def mutex_entries_def le64_def)
next
  case (reach_add m k v m')
  then show ?case using mutex_bounded_Add by blast
next
  case (reach_get m now k r m')
  then have b: "mutex_bounded mx m" and ok: "mutex_ok m" by (simp_all add: mutex_bounded_def)
  have "mutex_inv m" using ok by (simp add: mutex_ok_def)
  then show ?case
    using mutex_Get_spec [of m now k r m'] mutex_Get_contents(1) [OF ok reach_get.hyps(2)]
      reach_get.hyps(2) mutex_bounded_smaller [OF b, of m']
      total_size_get [of now k "mutex_entries m"] by simp
next
  case (reach_remove m k)
  then have b: "mutex_bounded mx m" and ok: "mutex_ok m" by (simp_all add: mutex_bounded_def)
  then show ?case
    using mutex_Remove_spec [of m k] mutex_bounded_smaller [OF b, of "mutex_Remove k m"]
      total_size_without [of k "mutex_entries m"] by (simp add: mutex_ok_def)
qed

lemma mutex_items: "mutex_inv m \<Longrightarrow> mutex_itemsLocked m = of_nat (length (mutex_entries m))"
  by (auto simp: mutex_itemsLocked_def mutex_entries_def mutex_inv_def lru_inv_def lru_Len_def
      lru_entries_def split: option.splits)

text \<open>When the loop returns, the counter is within the limit, whatever the limit.\<close>

lemma evict_loop_returns:
  assumes "mutex_evict_loop m = Some r" "mutex_inv m"
  shows "mutex_inv r \<and> m_maxBytes (mc r) = m_maxBytes (mc m) \<and>
    le64 (m_bytes (mc r)) (m_maxBytes (mc r)) \<and>
    total_size (mutex_entries r) \<le> total_size (mutex_entries m)"
proof -
  let ?P = "\<lambda>m r. mutex_inv m \<longrightarrow> mutex_inv r \<and> m_maxBytes (mc r) = m_maxBytes (mc m) \<and>
    le64 (m_bytes (mc r)) (m_maxBytes (mc r)) \<and>
    total_size (mutex_entries r) \<le> total_size (mutex_entries m)"
  have "?P m r"
  proof (rule mutex_evict_loop.raw_induct [where P = ?P, OF _ assms(1)])
    fix f m r
    assume IH: "\<And>m r. f m = Some r \<Longrightarrow> ?P m r"
      and eq: "(if le64 (m_bytes (mc m)) (m_maxBytes (mc m)) then Some m
        else f (mutex_evict_one m)) = Some r"
    show "?P m r"
    proof (cases "le64 (m_bytes (mc m)) (m_maxBytes (mc m))")
      case False
      then have "f (mutex_evict_one m) = Some r" using eq by simp
      from IH [OF this] show ?thesis
        using evict_one_spec [of m] total_size_take [of "length (mutex_entries m) - 1" "mutex_entries m"]
        by (auto simp: butlast_conv_take)
    qed (use eq in simp)
  qed
  then show ?thesis using assms(2) by (cases "mutex_inv m") auto
qed

section \<open>Properties\<close>

text \<open>C23.  The byte counter is exact and the limit holds: in every state a cache with a
  non-negative limit can be in, \<open>Bytes\<close> read as a signed integer is the number of bytes of the
  keys and values held, \<open>Stats().Items\<close> is their number, no key is held twice, and with a limit
  other than 0 the bytes held are at most the limit.\<close>

theorem mutex_accounting:
  assumes "le64 0 mx" "mutex_reach mx m"
  shows "sint (mutex_Bytes m) = int (total_size (mutex_entries m)) \<and>
    cs_Items (mutex_Stats m) = of_nat (length (mutex_entries m)) \<and>
    distinct (map e_key (mutex_entries m)) \<and>
    (mx \<noteq> 0 \<longrightarrow> int (total_size (mutex_entries m)) \<le> sint mx)"
proof -
  have b: "mutex_bounded mx m" using mutex_reach_bounded assms by simp
  then have inv: "mutex_inv m" by (simp add: mutex_bounded_def mutex_ok_def)
  show ?thesis
    using b mutex_bytes_total [OF inv] mutex_items [OF inv] mutex_entries_distinct [OF inv]
    by (simp add: mutex_bounded_def mutex_Bytes_def mutex_Stats_def sint64_of_nat)
qed

theorem mutex_accounting_witness:
  "\<exists>m. mutex_Add ''key'' (ByteViewWithExpire (Some ''value'') zero_time) (newMutexCache 16) = Some m \<and>
     sint (mutex_Bytes m) = int (total_size (mutex_entries m)) \<and>
     int (total_size (mutex_entries m)) \<le> 16"
proof -
  let ?v = "ByteViewWithExpire (Some ''value'') zero_time"
  have "le64 0 (16 :: int64)" by (simp add: le64_def)
  then obtain m where m: "mutex_Add ''key'' ?v (newMutexCache 16) = Some m"
    using mutex_Add_contents [OF mutex_ok_new] by blast
  have "mutex_reach 16 m"
    by (rule mutex_reach.reach_add [OF mutex_reach.reach_new _ m])
      (simp add: newMutexCache_def mutex_entries_def)
  from mutex_accounting [OF \<open>le64 0 16\<close> this] show ?thesis using m by auto
qed

text \<open>C24.  \<open>Add\<close> returns, puts the new entry first, and evicts from the old end only: what it
  leaves is the longest initial part of the recency order, the new entry first, whose bytes are
  within the limit; with limit 0 it evicts nothing.\<close>

theorem mutex_Add_evicts:
  fixes k v m
  defines "new \<equiv> \<lparr>e_key = k, e_value = v, e_expire = bv_e v\<rparr> # rl_without k (mutex_entries m)"
  assumes "mutex_ok m"
  shows "\<exists>m' n. mutex_Add k v m = Some m' \<and> n \<le> length new \<and> mutex_entries m' = take n new \<and>
    (m_maxBytes (mc m) = 0 \<longrightarrow> n = length new) \<and>
    (m_maxBytes (mc m) \<noteq> 0 \<longrightarrow>
       le64 (mutex_Bytes m') (m_maxBytes (mc m)) \<and>
       (\<forall>j. n < j \<and> j \<le> length new \<longrightarrow>
          \<not> le64 (of_nat (total_size (take j new))) (m_maxBytes (mc m))))"
proof -
  let ?mx = "m_maxBytes (mc m)"
  obtain m' where m': "mutex_Add k v m = Some m'" "mutex_ok m'"
    "mutex_entries m' = evicted_to ?mx new"
    using mutex_Add_spec [OF assms(2), of k v] unfolding new_def by blast
  obtain n where n: "n \<le> length new" "fit ?mx new = take n new"
    "\<forall>j. n < j \<and> j \<le> length new \<longrightarrow> \<not> le64 (weight_of entry_size (take j new)) ?mx"
    using fit_take [of new ?mx] by blast
  have "le64 0 ?mx" using assms(2) by (simp add: mutex_ok_def)
  then have "?mx \<noteq> 0 \<longrightarrow> le64 (mutex_Bytes m') ?mx"
    using fit_fits [of ?mx new] m'(2,3)
    by (simp add: evicted_to_def mutex_Bytes_def mutex_ok_def mutex_inv_def)
  then show ?thesis
    using m' n
    by (intro exI [of _ m'] exI [of _ "if ?mx = 0 then length new else n"])
      (auto simp: evicted_to_def weight_of_total_size)
qed

theorem mutex_Add_evicts_witness:
  "\<exists>m'. mutex_Add ''k'' (ByteViewWithExpire (Some ''value'') zero_time) (newMutexCache 2) = Some m' \<and>
     mutex_entries m' = []"
proof -
  let ?v = "ByteViewWithExpire (Some ''value'') zero_time"
  have "mutex_ok (newMutexCache 2)" by (simp add: mutex_ok_new le64_def)
  from mutex_Add_evicts [OF this, of "''k''" ?v] obtain m' n where
    m': "mutex_Add ''k'' ?v (newMutexCache 2) = Some m'" "n \<le> 1"
    "mutex_entries m' = take n [\<lparr>e_key = ''k'', e_value = ?v, e_expire = bv_e ?v\<rparr>]"
    "le64 (mutex_Bytes m') 2"
    by (auto simp: newMutexCache_def mutex_entries_def rl_without_def)
  have "mutex_ok m'"
    using mutex_Add_contents [OF \<open>mutex_ok (newMutexCache 2)\<close>, of "''k''" ?v] m'(1) by auto
  then have "mutex_Bytes m' = of_nat (total_size (mutex_entries m'))"
    using mutex_bytes_total by (simp add: mutex_Bytes_def mutex_ok_def)
  then have "n \<noteq> 1"
    using m'(3,4) by (auto simp: le64_def)
  then show ?thesis using m' by auto
qed

text \<open>Insert and lookup: after \<open>Add\<close> of a value that fits the limit, \<open>Get\<close> of its key
  returns that value until it expires and nothing from then on, whatever was in the cache; after
  \<open>Remove\<close> it returns nothing.\<close>

lemma mutex_insert_lookup:
  assumes "mutex_ok m"
    and "m_maxBytes (mc m) = 0 \<or> le64 (entry_size k v) (m_maxBytes (mc m))"
  shows "\<exists>m'. mutex_Add k v m = Some m' \<and> mutex_ok m' \<and>
    fst (mutex_Get now k m') = (if expired now (bv_e v) then None else Some v) \<and>
    fst (mutex_Get now k (mutex_Remove k m')) = None"
proof -
  obtain m' where m': "mutex_Add k v m = Some m'" "mutex_ok m'" "mutex_contents m' k = Some v"
    using mutex_Add_holds [OF assms] by blast
  then show ?thesis
    using mutex.get_spec [OF m'(2), of now k] mutex.get_removed [OF m'(2), of now k]
    by (simp add: mutex_ops_def)
qed

theorem mutex_insert_lookup_witness:
  "\<exists>m'. mutex_Add ''k'' (ByteViewWithExpire (Some ''v'') zero_time) (newMutexCache 2) = Some m' \<and>
     fst (mutex_Get zero_time ''k'' m') = Some (ByteViewWithExpire (Some ''v'') zero_time)"
proof -
  let ?v = "ByteViewWithExpire (Some ''v'') zero_time"
  have ok: "mutex_ok (newMutexCache 2)" by (simp add: mutex_ok_new le64_def)
  have "m_maxBytes (mc (newMutexCache 2)) = 0 \<or>
      le64 (entry_size ''k'' ?v) (m_maxBytes (mc (newMutexCache 2)))"
    by (simp add: newMutexCache_def le64_def entry_size_def bv_Len_data)
  moreover have "\<not> expired zero_time (bv_e ?v)"
    by (simp add: ByteViewWithExpire_def expired_def IsZero_def zero_time_def)
  ultimately show ?thesis using mutex_insert_lookup [OF ok, of "''k''" ?v zero_time] by auto
qed

text \<open>C30.  A negative limit is a hang: the loop of \<open>removeOldest\<close> leaves only when the bytes
  fit, and an empty cache still holds more than a negative limit, so the first \<open>Add\<close> never
  returns.\<close>

theorem mutex_Add_negative_diverges:
  assumes "lt64 mx 0" "length k + length (bv_data v) < 2 ^ 63"
  shows "mutex_Add k v (newMutexCache mx) = None"
proof (rule ccontr)
  assume "mutex_Add k v (newMutexCache mx) \<noteq> None"
  then obtain r where r: "mutex_Add k v (newMutexCache mx) = Some r" by auto
  have new: "mutex_inv (newMutexCache mx)" "mutex_entries (newMutexCache mx) = []"
    "m_maxBytes (mc (newMutexCache mx)) = mx"
    by (simp_all add: mutex_inv_def newMutexCache_def mutex_entries_def)
  from mutex_Add_insert [OF new(1), of k v] obtain m1 where m1:
    "mutex_removeOldest m1 = Some r" "mutex_inv m1" "m_maxBytes (mc m1) = mx"
    "total_size (mutex_entries m1) < 2 ^ 63"
    using new(2,3) r assms(2) by (auto simp: rl_without_def)
  moreover have "mx \<noteq> 0" using assms(1) by auto
  ultimately have "mutex_evict_loop m1 = Some r" by (simp add: mutex_removeOldest_def)
  from evict_loop_returns [OF this m1(2)] have "le64 (of_nat (total_size (mutex_entries r))) mx"
    "total_size (mutex_entries r) < 2 ^ 63"
    using m1(3,4) mutex_bytes_total [of r] by auto
  then show False using assms(1) le64_of_nat [of "total_size (mutex_entries r)" mx]
    by (simp add: le64_def)
qed

theorem mutex_Add_negative_witness:
  "mutex_Add ''k'' (ByteViewWithExpire (Some ''v'') zero_time) (newMutexCache (-1)) = None"
  by (rule mutex_Add_negative_diverges)
    (simp_all add: le64_def)

end
