(* ===== verification/GroupSafety.thy ===== *)
theory GroupSafety
  imports Group MutexCache
begin

text \<open>
  What a group keeps: the values it serves for a key are values the getter, a peer or a caller of
  \<open>Set\<close> gave for that key.  \<open>ok k v\<close> says that \<open>v\<close> is such a value for \<open>k\<close>; the group is safe
  when its caches hold only such values.  The lemmas are proved once for any cache that keeps the
  contract \<open>cache_api\<close>, and then used for the default cache.
\<close>

section \<open>Safe states\<close>

definition holds_only ::
  "('m \<Rightarrow> string \<rightharpoonup> byteview) \<Rightarrow> (string \<Rightarrow> byteview \<Rightarrow> bool) \<Rightarrow> 'm \<Rightarrow> bool" where
  "holds_only contents ok m \<longleftrightarrow> (\<forall>k v. contents m k = Some v \<longrightarrow> ok k v)"

definition safe ::
  "('m \<Rightarrow> bool) \<Rightarrow> ('m \<Rightarrow> string \<rightharpoonup> byteview) \<Rightarrow> (string \<Rightarrow> byteview \<Rightarrow> bool) \<Rightarrow> ('w \<Rightarrow> bool) \<Rightarrow>
   ('m, 'w) gstate \<Rightarrow> bool" where
  "safe ci contents ok W s \<longleftrightarrow>
     ci (g_mainCache (fst s)) \<and> holds_only contents ok (g_mainCache (fst s)) \<and>
     ci (g_hotCache (fst s)) \<and> holds_only contents ok (g_hotCache (fst s)) \<and> W (snd s)"

text \<open>What is asked of the environment: in a world in \<open>W\<close>, the getter and the peers answer with
  values that are right for the key, and every call leaves the world in \<open>W\<close>.\<close>

definition answers :: "('w \<Rightarrow> bool) \<Rightarrow> ('w \<Rightarrow> 'a \<times> 'w) \<Rightarrow> ('a \<Rightarrow> bool) \<Rightarrow> bool" where
  "answers W f R \<longleftrightarrow> (\<forall>w. W w \<longrightarrow> R (fst (f w)) \<and> W (snd (f w)))"

definition peer_value :: "GetResponse \<Rightarrow> byteview" where
  "peer_value res = ByteViewWithExpire (gp_Value res) (decode_expire (gp_Expire res))"

definition trusted ::
  "(string \<Rightarrow> byteview \<Rightarrow> bool) \<Rightarrow> ('w \<Rightarrow> bool) \<Rightarrow> ('m, 'c, 'w, 'p) env \<Rightarrow> bool" where
  "trusted ok W E \<longleftrightarrow>
     fair (e_sched E) \<and> answers W (e_now E) (\<lambda>_. True) \<and>
     (\<forall>key dest. answers W (getter_call E key dest)
        (\<lambda>x. fst x = None \<longrightarrow> ok key (Sink_View (snd x)))) \<and>
     (\<forall>p name key. answers W (get_call E p name key)
        (\<lambda>x. fst x = None \<longrightarrow> ok key (peer_value (snd x)))) \<and>
     (\<forall>p req. answers W (Client_Set (e_client E) p req) (\<lambda>_. True)) \<and>
     (\<forall>p req. answers W (Client_Remove (e_client E) p req) (\<lambda>_. True)) \<and>
     (\<forall>p req. answers W (Client_RemoveKeys (e_client E) p req) (\<lambda>_. True)) \<and>
     (\<forall>log a k e. e_Logger E = Some log \<longrightarrow> answers W (\<lambda>w. ((), log a k e w)) (\<lambda>_. True))"

lemma trustedD:
  assumes "trusted ok W E"
  shows "fair (e_sched E)" "answers W (e_now E) (\<lambda>_. True)"
    "answers W (getter_call E key dest) (\<lambda>x. fst x = None \<longrightarrow> ok key (Sink_View (snd x)))"
    "answers W (get_call E p name key) (\<lambda>x. fst x = None \<longrightarrow> ok key (peer_value (snd x)))"
    "answers W (Client_Set (e_client E) p sreq) (\<lambda>_. True)"
    "answers W (Client_Remove (e_client E) p rreq) (\<lambda>_. True)"
    "answers W (Client_RemoveKeys (e_client E) p kreq) (\<lambda>_. True)"
    "e_Logger E = Some log \<Longrightarrow> answers W (\<lambda>w. ((), log a k e w)) (\<lambda>_. True)"
  using assms by (simp_all add: trusted_def)

text \<open>What a flight leaves: a value that is right for the key, in the sink if it says so, and the
  sink as it was otherwise; what \<open>load\<close> makes of it; and what \<open>Get\<close> leaves in the sink of its
  caller.\<close>

definition loaded_ok :: "(string \<Rightarrow> byteview \<Rightarrow> bool) \<Rightarrow> string \<Rightarrow> 'p sink \<Rightarrow> 'p loaded \<Rightarrow> bool" where
  "loaded_ok ok key dest r \<longleftrightarrow>
     (snd (fst r) = None \<longrightarrow> (\<exists>x. fst (fst r) = Some x \<and> ok key x \<and>
        (if fst (snd r) then x = Sink_View (snd (snd r)) else snd (snd r) = dest)))"

definition result_ok ::
  "(string \<Rightarrow> byteview \<Rightarrow> bool) \<Rightarrow> string \<Rightarrow> 'p sink \<Rightarrow> (byteview \<times> bool \<times> goerr option) \<times> 'p sink \<Rightarrow>
   bool" where
  "result_ok ok key dest r \<longleftrightarrow>
     (snd (snd (fst r)) = None \<longrightarrow> ok key (fst (fst r)) \<and>
       (if fst (snd (fst r)) then fst (fst r) = Sink_View (snd r) else snd r = dest))"

definition served_ok ::
  "(string \<Rightarrow> byteview \<Rightarrow> bool) \<Rightarrow> string \<Rightarrow> goerr option \<times> 'p sink option \<Rightarrow> bool" where
  "served_ok ok key r \<longleftrightarrow>
     (fst r = None \<longrightarrow> (\<exists>d x. snd r = Some d \<and> ok key x \<and>
        bv_data (Sink_View d) = bv_data x \<and> bv_e (Sink_View d) = bv_e x))"

text \<open>A sink whose variable is there.\<close>

fun sink_safe :: "'p sink \<Rightarrow> bool" where
  "sink_safe (stringSink sp v) = (sp \<noteq> None)"
| "sink_safe (allocBytesSink d v) = (d \<noteq> None)"
| "sink_safe _ = True"

lemma SetSinkView_safe:
  assumes "sink_safe s"
  shows "\<exists>err s'. SetSinkView pr s v = Ret (err, s') \<and>
    (err = None \<longrightarrow> bv_data (Sink_View s') = bv_data v \<and> bv_e (Sink_View s') = bv_e v)"
proof (cases "sink_ready s")
  case True
  then show ?thesis using SetSinkView_shows [of s pr v] by auto
next
  case False
  then consider d w where "s = protoSink d w" | w where "s = truncBytesSink None w"
    using assms by (cases s) auto
  then show ?thesis
    by cases (auto simp: SetSinkView_def sink_set_defs bv_data_def cloneBytes_Some
        split: prod.splits option.splits)
qed

section \<open>Primitive actions\<close>

lemma safe_count: "succeeds (safe ci contents ok W) (count f) (\<lambda>_. safe ci contents ok W)"
  unfolding count_def by (rule succeeds_modifies) (auto simp: safe_def)

lemma safe_world:
  assumes "answers W f R"
  shows "succeeds (safe ci contents ok W) (world f) (\<lambda>x s. safe ci contents ok W s \<and> R x)"
  unfolding succeeds_def
proof (intro allI impI)
  fix s assume s: "safe ci contents ok W s"
  then have "W (snd s)" by (simp add: safe_def)
  then have "R (fst (f (snd s)))" "W (snd (f (snd s)))" using assms by (simp_all add: answers_def)
  then show "\<exists>x t. world f s = Done x t \<and> safe ci contents ok W t \<and> R x"
    using s by (auto simp: world_def safe_def split: prod.splits)
qed

lemma safe_world':
  "answers W f (\<lambda>_. True) \<Longrightarrow>
   succeeds (safe ci contents ok W) (world f) (\<lambda>_. safe ci contents ok W)"
  using safe_world [of W f "\<lambda>_. True"] by simp

lemma safe_ret: "succeeds (safe ci contents ok W) (ret x) (\<lambda>_. safe ci contents ok W)"
  by (simp add: succeeds_ret)

lemma safe_reads: "succeeds (safe ci contents ok W) (reads f) (\<lambda>_. safe ci contents ok W)"
  by (simp add: succeeds_reads)

text \<open>Sequencing that keeps a state predicate.\<close>

lemma succeeds_seq:
  assumes "succeeds I m (\<lambda>_. I)" "\<And>x. succeeds I (f x) Q"
  shows "succeeds I (bnd m f) Q"
  using assms by (rule succeeds_bnd)

lemma succeeds_seq_if:
  assumes "succeeds I m (\<lambda>x s. I s \<and> R x)" "\<And>x. R x \<Longrightarrow> succeeds I (f x) Q"
  shows "succeeds I (bnd m f) Q"
proof (rule succeeds_bnd [OF assms(1)])
  fix x
  show "succeeds (\<lambda>s. I s \<and> R x) (f x) Q"
    using assms(2) by (cases "R x") (auto simp: succeeds_def)
qed

lemma succeeds_ret_iff: "succeeds P (ret x) Q \<longleftrightarrow> (\<forall>s. P s \<longrightarrow> Q x s)"
  by (simp add: succeeds_def ret_def)

lemma succeeds_ret_if: "R x \<Longrightarrow> succeeds I (ret x) (\<lambda>x s. I s \<and> R x)"
  by (simp add: succeeds_ret)

section \<open>Operations keep a group safe\<close>

context cache_api
begin

lemma safe_cache_get:
  assumes "e_cache E = ops" "trusted ok W E"
  shows "succeeds (safe inv contents ok W) (cache_get E c key)
    (\<lambda>r s. safe inv contents ok W s \<and> (\<forall>v. r = Some v \<longrightarrow> ok key v))"
  unfolding cache_get_def
proof (rule succeeds_seq [OF safe_world' [OF trustedD(2) [OF assms(2)]]])
  fix now
  show "succeeds (safe inv contents ok W)
    (\<lambda>s. case Cache_Get (e_cache E) now key (the_cache c (fst s)) of
       (r, m) \<Rightarrow> Done r (put_cache c m (fst s), snd s))
    (\<lambda>r s. safe inv contents ok W s \<and> (\<forall>v. r = Some v \<longrightarrow> ok key v))"
    unfolding succeeds_def
  proof (intro allI impI)
    fix s assume s: "safe inv contents ok W s"
    obtain r m where g: "Cache_Get ops now key (the_cache c (fst s)) = (r, m)"
      by (cases "Cache_Get ops now key (the_cache c (fst s))")
    have c: "inv (the_cache c (fst s))" "holds_only contents ok (the_cache c (fst s))"
      using s by (cases c; simp add: safe_def)+
    from get_sound [OF c(1) g] have "inv m" "contents m \<subseteq>\<^sub>m contents (the_cache c (fst s))"
      "\<forall>v. r = Some v \<longrightarrow> ok key v"
      using c(2) by (auto simp: holds_only_def)
    moreover from this c(2) have "holds_only contents ok m"
      unfolding holds_only_def map_le_def by (metis domI)
    ultimately show "\<exists>x t. (case Cache_Get (e_cache E) now key (the_cache c (fst s)) of
        (r, m) \<Rightarrow> Done r (put_cache c m (fst s), snd s)) = Done x t \<and>
        safe inv contents ok W t \<and> (\<forall>v. x = Some v \<longrightarrow> ok key v)"
      using s g assms(1) by (cases c) (simp_all add: safe_def)
  qed
qed

lemma safe_cache_add:
  assumes "e_cache E = ops" "ok key v"
  shows "succeeds (safe inv contents ok W) (cache_add E c key v) (\<lambda>_. safe inv contents ok W)"
  unfolding succeeds_def
proof (intro allI impI)
  fix s assume s: "safe inv contents ok W s"
  have c: "inv (the_cache c (fst s))" "holds_only contents ok (the_cache c (fst s))"
    using s by (cases c; simp add: safe_def)+
  from add_sound [OF c(1), of key v] obtain m where m: "Cache_Add ops key v (the_cache c (fst s)) = Some m"
    "inv m" "\<And>j u. contents m j = Some u \<Longrightarrow> contents (the_cache c (fst s)) j = Some u \<or> j = key \<and> u = v" by blast
  have "holds_only contents ok m"
    unfolding holds_only_def
  proof (intro allI impI)
    fix k u assume "contents m k = Some u"
    from m(3) [OF this] show "ok k u" using c(2) assms(2) by (auto simp: holds_only_def)
  qed
  then show "\<exists>x t. cache_add E c key v s = Done x t \<and> safe inv contents ok W t"
    using s m(1,2) assms(1) by (cases c) (simp_all add: cache_add_def safe_def)
qed

lemma safe_cache_remove:
  assumes "e_cache E = ops"
  shows "succeeds (safe inv contents ok W) (cache_remove E c key) (\<lambda>_. safe inv contents ok W)"
  unfolding cache_remove_def
proof (rule succeeds_modifies)
  fix s assume s: "safe inv contents ok W s"
  have "inv (the_cache c (fst s))" "holds_only contents ok (the_cache c (fst s))"
    using s by (cases c; simp add: safe_def)+
  moreover from remove_sound [OF this(1), of key]
  have "inv (Cache_Remove ops key (the_cache c (fst s)))"
    "contents (Cache_Remove ops key (the_cache c (fst s))) = (contents (the_cache c (fst s)))(key := None)"
    by simp_all
  ultimately show "safe inv contents ok W (case s of (g, w) \<Rightarrow>
      (put_cache c (Cache_Remove (e_cache E) key (the_cache c g)) g, w))"
    using s assms
    by (cases c; cases s) (auto simp: safe_def holds_only_def split: if_splits)
qed

lemma safe_lookupCache:
  assumes "e_cache E = ops" "trusted ok W E"
  shows "succeeds (safe inv contents ok W) (group_lookupCache E key)
    (\<lambda>r s. safe inv contents ok W s \<and> (\<forall>v. r = Some v \<longrightarrow> ok key v))"
  unfolding group_lookupCache_def
proof (rule succeeds_seq [OF safe_reads])
  fix mx
  show "succeeds (safe inv contents ok W)
    (if le64 mx 0 then ret None
     else bnd (cache_get E Main key)
       (\<lambda>r. case r of Some v \<Rightarrow> ret (Some v) | None \<Rightarrow> cache_get E Hot key))
    (\<lambda>r s. safe inv contents ok W s \<and> (\<forall>v. r = Some v \<longrightarrow> ok key v))"
  proof (cases "le64 mx 0")
    case True
    then show ?thesis by (simp add: succeeds_ret)
  next
    case False
    have "succeeds (safe inv contents ok W)
      (case r of Some v \<Rightarrow> ret (Some v) | None \<Rightarrow> cache_get E Hot key)
      (\<lambda>r s. safe inv contents ok W s \<and> (\<forall>v. r = Some v \<longrightarrow> ok key v))"
      if "\<forall>v. r = Some v \<longrightarrow> ok key v" for r
      using that safe_cache_get [OF assms, of Hot key] by (cases r) (simp_all add: succeeds_ret)
    from succeeds_seq_if [OF safe_cache_get [OF assms] this] False show ?thesis by simp
  qed
qed

lemma safe_populateCache:
  assumes "e_cache E = ops" "ok key v"
  shows "succeeds (safe inv contents ok W) (group_populateCache E key v c)
    (\<lambda>_. safe inv contents ok W)"
  unfolding group_populateCache_def
  by (rule succeeds_seq [OF safe_reads]) (simp add: safe_ret safe_cache_add [where ok = ok, OF assms])

lemma safe_getFromPeer:
  assumes "e_cache E = ops" "trusted ok W E"
  shows "succeeds (safe inv contents ok W) (group_getFromPeer E p key)
    (\<lambda>r s. safe inv contents ok W s \<and>
       (snd r = None \<longrightarrow> (\<exists>x. fst r = Some x \<and> ok key x)))"
  unfolding group_getFromPeer_def
proof (rule succeeds_seq [OF safe_reads], rule succeeds_seq_if [OF safe_world [OF trustedD(4) [OF assms(2)]]])
  fix x :: "goerr option \<times> GetResponse"
  assume x: "fst x = None \<longrightarrow> ok key (peer_value (snd x))"
  show "succeeds (safe inv contents ok W)
    (case x of (err, res) \<Rightarrow> case err of
       None \<Rightarrow> let value = ByteViewWithExpire (gp_Value res) (decode_expire (gp_Expire res))
         in bnd (group_populateCache E key value Hot) (\<lambda>_. ret (Some value, None))
     | Some e \<Rightarrow> ret (None, Some e))
    (\<lambda>r s. safe inv contents ok W s \<and> (snd r = None \<longrightarrow> (\<exists>x. fst r = Some x \<and> ok key x)))"
  proof (cases "fst x")
    case None
    let ?v = "peer_value (snd x)"
    have v: "ok key ?v" using x None by simp
    have "succeeds (safe inv contents ok W)
      (bnd (group_populateCache E key ?v Hot) (\<lambda>_. ret (Some ?v, None)))
      (\<lambda>r s. safe inv contents ok W s \<and> (snd r = None \<longrightarrow> (\<exists>x. fst r = Some x \<and> ok key x)))"
      by (rule succeeds_seq [OF safe_populateCache [where ok = ok, OF assms(1) v]])
        (simp add: succeeds_ret v)
    then show ?thesis using None by (cases x) (simp add: Let_def peer_value_def)
  next
    case (Some e)
    then show ?thesis by (cases x) (simp add: succeeds_ret)
  qed
qed

lemma safe_getLocally:
  assumes "trusted ok W E"
  shows "succeeds (safe inv contents ok W) (group_getLocally E key dest)
    (\<lambda>r s. safe inv contents ok W s \<and> (snd (fst r) = None \<longrightarrow>
       fst (fst r) = Some (Sink_View (snd r)) \<and> ok key (Sink_View (snd r))))"
  unfolding group_getLocally_def
proof (rule succeeds_seq_if [OF safe_world [OF trustedD(3) [OF assms]]])
  fix x :: "goerr option \<times> 'd sink"
  assume "fst x = None \<longrightarrow> ok key (Sink_View (snd x))"
  then show "succeeds (safe inv contents ok W)
    (case x of (err, dest') \<Rightarrow> case err of
        None \<Rightarrow> ret ((Some (Sink_View dest'), None), dest') | Some e \<Rightarrow> ret ((None, Some e), dest'))
    (\<lambda>r s. safe inv contents ok W s \<and> (snd (fst r) = None \<longrightarrow>
       fst (fst r) = Some (Sink_View (snd r)) \<and> ok key (Sink_View (snd r))))"
    by (cases x; cases "fst x") (simp_all add: succeeds_ret)
qed

lemma safe_log_error:
  assumes "trusted ok W E" "e_Logger E \<noteq> None"
  shows "succeeds (safe inv contents ok W) (log_error E p key e) (\<lambda>_. safe inv contents ok W)"
proof -
  obtain log where log: "e_Logger E = Some log" using assms(2) by blast
  show ?thesis
    using safe_world' [OF trustedD(8) [OF assms(1) log]] by (simp add: log_error_def log)
qed

lemma safe_peer_outcome:
  assumes "trusted ok W E" "snd r = None \<longrightarrow> (\<exists>x. fst r = Some x \<and> ok key x)"
  shows "succeeds (safe inv contents ok W) (peer_outcome E p key r)
    (\<lambda>r s. safe inv contents ok W s \<and>
       (\<forall>v. r = Some (v, None) \<longrightarrow> (\<exists>x. v = Some x \<and> ok key x)))"
proof -
  let ?S = "safe inv contents ok W"
  let ?Q = "\<lambda>r s. ?S s \<and> (\<forall>v. r = Some (v, None) \<longrightarrow> (\<exists>x. v = Some x \<and> ok key x))"
  have log: "succeeds ?S (if e_Logger E \<noteq> None then log_error E p key e else ret ()) (\<lambda>_. ?S)" for e
    by (cases "e_Logger E = None") (simp_all add: safe_ret safe_log_error [OF assms(1)])
  have "succeeds ?S (peer_failed E p key e) ?Q" for e
    unfolding peer_failed_def
    by (rule succeeds_seq [OF log], rule succeeds_seq [OF safe_count], rule succeeds_seq [OF safe_reads])
      (simp add: succeeds_ret)
  moreover have "succeeds ?S (bnd (count f) (\<lambda>_. ret (Some (fst r, None)))) ?Q"
    if "\<exists>x. fst r = Some x \<and> ok key x" for f
    by (rule succeeds_seq [OF safe_count]) (use that in \<open>simp add: succeeds_ret\<close>)
  ultimately show ?thesis
    unfolding peer_outcome_def using assms(2) by (cases "snd r") (auto simp: succeeds_ret)
qed

lemma safe_load_from_peer:
  assumes "e_cache E = ops" "trusted ok W E"
  shows "succeeds (safe inv contents ok W) (load_from_peer E p key)
    (\<lambda>r s. safe inv contents ok W s \<and>
       (\<forall>v. r = Some (v, None) \<longrightarrow> (\<exists>x. v = Some x \<and> ok key x)))"
  unfolding load_from_peer_def observe_latency_def
proof (rule succeeds_seq [OF safe_world' [OF trustedD(2) [OF assms(2)]]],
    rule succeeds_seq_if [OF safe_getFromPeer [OF assms]],
    rule succeeds_seq [OF safe_world' [OF trustedD(2) [OF assms(2)]]],
    rule succeeds_seq [OF safe_count])
qed (rule safe_peer_outcome [OF assms(2)])

lemma safe_load_locally:
  assumes "e_cache E = ops" "trusted ok W E"
  shows "succeeds (safe inv contents ok W) (load_locally E key dest)
    (\<lambda>r s. safe inv contents ok W s \<and> (snd (fst r) = None \<longrightarrow>
       (\<exists>x. fst (fst r) = Some x \<and> ok key x \<and> fst (snd r) \<and> x = Sink_View (snd (snd r)))))"
  unfolding load_locally_def
proof (rule succeeds_seq_if [OF safe_getLocally [OF assms(2)]])
  let ?S = "safe inv contents ok W"
  fix r :: "(byteview option \<times> goerr option) \<times> 'd sink"
  assume r: "snd (fst r) = None \<longrightarrow> fst (fst r) = Some (Sink_View (snd r)) \<and> ok key (Sink_View (snd r))"
  show "succeeds ?S (loaded_locally E key r)
    (\<lambda>r s. ?S s \<and> (snd (fst r) = None \<longrightarrow>
       (\<exists>x. fst (fst r) = Some x \<and> ok key x \<and> fst (snd r) \<and> x = Sink_View (snd (snd r)))))"
  proof (cases "snd (fst r)")
    case None
    have v: "ok key (Sink_View (snd r))" and f: "fst r = (Some (Sink_View (snd r)), None)"
      using r None by (simp_all add: prod_eq_iff)
    show ?thesis
      unfolding loaded_locally_def f
      by (simp, rule succeeds_seq [OF safe_count],
          rule succeeds_seq [OF safe_populateCache [where ok = ok, OF assms(1) v]])
        (simp add: succeeds_ret v)
  next
    case (Some e)
    then obtain v where f: "fst r = (v, Some e)" by (cases "fst r") simp
    show ?thesis
      unfolding loaded_locally_def f
      by (cases v; simp, rule succeeds_seq [OF safe_count]) (simp_all add: succeeds_ret)
  qed
qed

lemma safe_load_missed:
  assumes "e_cache E = ops" "trusted ok W E"
  shows "succeeds (safe inv contents ok W) (load_missed E key dest)
    (\<lambda>r s. safe inv contents ok W s \<and> loaded_ok ok key dest r)"
proof -
  let ?S = "safe inv contents ok W"
  let ?Q = "\<lambda>r s. ?S s \<and> loaded_ok ok key dest r"
  have loc: "succeeds ?S (load_locally E key dest) ?Q"
    by (rule succeeds_weaken [OF safe_load_locally [OF assms]]) (auto simp: loaded_ok_def)
  have "succeeds ?S (bnd (load_from_peer E p key)
      (\<lambda>r. case r of Some res \<Rightarrow> ret (res, False, dest) | None \<Rightarrow> load_locally E key dest)) ?Q" for p
  proof (rule succeeds_seq_if [OF safe_load_from_peer [OF assms]])
    fix r :: "(byteview option \<times> goerr option) option"
    assume "\<forall>v. r = Some (v, None) \<longrightarrow> (\<exists>x. v = Some x \<and> ok key x)"
    then show "succeeds ?S
      (case r of Some res \<Rightarrow> ret (res, False, dest) | None \<Rightarrow> load_locally E key dest) ?Q"
      using loc by (cases r) (auto simp: succeeds_ret loaded_ok_def)
  qed
  then show ?thesis
    unfolding load_missed_def using loc by (auto split: prod.split option.split bool.split)
qed

lemma safe_load_flight:
  assumes "e_cache E = ops" "trusted ok W E"
  shows "succeeds (safe inv contents ok W) (load_flight E key dest)
    (\<lambda>r s. safe inv contents ok W s \<and> loaded_ok ok key dest r)"
  unfolding load_flight_def
proof (rule succeeds_seq_if [OF safe_lookupCache [OF assms]])
  let ?S = "safe inv contents ok W"
  let ?Q = "\<lambda>r s. ?S s \<and> loaded_ok ok key dest r"
  fix hit assume hit: "\<forall>v. hit = Some v \<longrightarrow> ok key v"
  show "succeeds ?S (case hit of
      Some v \<Rightarrow> bnd (count (\<lambda>st. st\<lparr>CacheHits := AtomicInt_Add 1 (CacheHits st)\<rparr>))
        (\<lambda>_. ret ((Some v, None), False, dest))
    | None \<Rightarrow> bnd (count (\<lambda>st. st\<lparr>LoadsDeduped := AtomicInt_Add 1 (LoadsDeduped st)\<rparr>))
        (\<lambda>_. load_missed E key dest)) ?Q"
  proof (cases hit)
    case None
    show ?thesis
      unfolding None option.case by (rule succeeds_seq [OF safe_count safe_load_missed [OF assms]])
  next
    case (Some v)
    show ?thesis
      unfolding Some option.case
      by (rule succeeds_seq [OF safe_count]) (use hit Some in \<open>simp add: succeeds_ret loaded_ok_def\<close>)
  qed
qed

lemma safe_set_sink_view:
  assumes "sink_safe dest" "ok key v"
  shows "succeeds (safe inv contents ok W) (set_sink_view E dest v)
    (\<lambda>r s. safe inv contents ok W s \<and> served_ok ok key r)"
proof -
  obtain err d where "SetSinkView (e_proto E) dest v = Ret (err, d)"
    "err = None \<longrightarrow> bv_data (Sink_View d) = bv_data v \<and> bv_e (Sink_View d) = bv_e v"
    using SetSinkView_safe [OF assms(1)] by blast
  then show ?thesis
    using assms(2) by (auto simp: succeeds_def set_sink_view_def exec served_ok_def)
qed

lemma safe_load:
  assumes "e_cache E = ops" "trusted ok W E"
    and "\<forall>v e. role = Follower v e \<longrightarrow> e = None \<longrightarrow> (\<exists>x. v = Some x \<and> ok key x)"
  shows "succeeds (safe inv contents ok W) (group_load E role key dest)
    (\<lambda>r s. safe inv contents ok W s \<and> result_ok ok key dest r)"
proof -
  let ?S = "safe inv contents ok W"
  let ?R = "loaded_ok ok key dest"
  have flight: "succeeds ?S (case role of Leader \<Rightarrow> load_flight E key dest
      | Follower v e \<Rightarrow> ret ((v, e), False, dest)) (\<lambda>r s. ?S s \<and> ?R r)"
    using safe_load_flight [OF assms(1,2)] assms(3)
    by (cases role) (auto simp: succeeds_ret loaded_ok_def)
  show ?thesis
    unfolding group_load_def
  proof (rule succeeds_seq [OF safe_count], rule succeeds_seq_if [OF flight])
    fix r :: "(byteview option \<times> goerr option) \<times> bool \<times> 'd sink"
    assume "?R r"
    moreover obtain v err pop d where "r = ((v, err), pop, d)" by (metis surj_pair)
    ultimately show "succeeds ?S (load_result r) (\<lambda>r s. ?S s \<and> result_ok ok key dest r)"
      by (cases err; cases v; cases pop)
        (simp_all add: load_result_def succeeds_ret_iff loaded_ok_def result_ok_def)
  qed
qed

lemma safe_Get:
  assumes "e_cache E = ops" "trusted ok W E" "sink_safe dest"
    and "\<forall>v e. role = Follower v e \<longrightarrow> e = None \<longrightarrow> (\<exists>x. v = Some x \<and> ok key x)"
  shows "succeeds (safe inv contents ok W) (group_Get E role key (Some dest))
    (\<lambda>r s. safe inv contents ok W s \<and> served_ok ok key r)"
  unfolding group_Get_def option.case
proof (rule succeeds_seq [OF safe_count], rule succeeds_seq_if [OF safe_lookupCache [OF assms(1,2)]])
  let ?S = "safe inv contents ok W"
  let ?Q = "\<lambda>r s. ?S s \<and> served_ok ok key r"
  fix hit assume hit: "\<forall>v. hit = Some v \<longrightarrow> ok key v"
  show "succeeds ?S (case hit of
      Some value \<Rightarrow> bnd (count (\<lambda>st. st\<lparr>CacheHits := AtomicInt_Add 1 (CacheHits st)\<rparr>))
        (\<lambda>_. set_sink_view E dest value)
    | None \<Rightarrow> bnd (group_load E role key dest) (get_loaded E)) ?Q"
  proof (cases hit)
    case (Some v)
    then have "ok key v" using hit by simp
    show ?thesis
      unfolding Some option.case
      by (rule succeeds_seq [OF safe_count safe_set_sink_view [where ok = ok, OF assms(3) \<open>ok key v\<close>]])
  next
    case None
    show ?thesis
      unfolding None option.case
    proof (rule succeeds_seq_if [OF safe_load [OF assms(1,2,4)]])
      fix r :: "(byteview \<times> bool \<times> goerr option) \<times> 'd sink"
      assume r: "result_ok ok key dest r"
      obtain v pop err d where eq: "r = ((v, pop, err), d)" by (metis prod_cases3 surj_pair)
      show "succeeds ?S (get_loaded E r) ?Q"
      proof (cases "err = None \<and> \<not> pop")
        case True
        then have "ok key v" "d = dest" using r eq by (simp_all add: result_ok_def)
        then show ?thesis
          using True eq safe_set_sink_view [where ok = ok, OF assms(3), of key v]
          by (simp add: get_loaded_def)
      next
        case False
        then show ?thesis
          using r eq
          by (cases err) (auto simp: get_loaded_def succeeds_ret_iff result_ok_def served_ok_def)
      qed
    qed
  qed
qed

end

section \<open>An environment for examples\<close>

text \<open>One instance with the default cache, no peers, and a getter that answers \<open>value of k\<close> for the
  key \<open>k\<close>.\<close>

definition demo_proto :: "unit proto" where
  "demo_proto = \<lparr>proto_Marshal = (\<lambda>_. (Some [], None)), proto_Unmarshal = (\<lambda>_ _. ((), None))\<rparr>"

definition demo_getter :: "string \<Rightarrow> unit sink \<Rightarrow> nat \<Rightarrow> goerr option \<times> unit sink \<times> nat" where
  "demo_getter key dest w =
     (case Sink_SetString demo_proto dest (''value of '' @ key) zero_time of
        Ret (err, dest') \<Rightarrow> (err, dest', w + 1)
      | Panic m \<Rightarrow> (Some (ErrString m), dest, w))"

definition demo_clients :: "(NoOpClient, nat) Client" where
  "demo_clients = NoOpClient_ops\<lparr>Client_Get := (\<lambda>p req out w. (Some (ErrString ''down''), out, w))\<rparr>"

definition demo_env :: "(mutexCache, NoOpClient, nat, unit) env" where
  "demo_env =
     \<lparr>e_cache = mutex_ops, e_CacheFactory = (\<lambda>n. (newMutexCache n, None)), e_client = demo_clients,
      e_picker = NewPicker (\<lambda>_. 0) \<lparr>HashFn = None, Replicas = 1\<rparr>, e_order = (\<lambda>xs. xs),
      e_sched = (\<lambda>n. [0..<n]), e_getter = demo_getter, e_proto = demo_proto,
      e_now = (\<lambda>w. (zero_time, w)), e_ctxErr = (\<lambda>w. None), e_Logger = None\<rparr>"

definition demo_group :: "mutexCache group" where
  "demo_group =
     \<lparr>g_name = ''g'', g_maxCacheBytes = 800, g_mainCache = newMutexCache 700,
      g_hotCache = newMutexCache 100, g_Stats = zero_stats\<rparr>"

lemma SetString_view:
  "Sink_SetString pr s d e = Ret (None, s') \<Longrightarrow> bv_data (Sink_View s') = d"
  by (cases s) (auto simp: sink_set_defs split: option.splits prod.splits)

lemma demo_trusted: "trusted (\<lambda>k v. bv_data v = ''value of '' @ k) (\<lambda>w. True) demo_env"
  by (auto simp: trusted_def answers_def demo_env_def fair_def getter_call_def demo_getter_def
      get_call_def demo_clients_def NoOpClient_ops_def SetString_view
      split: prod.splits go.splits)

lemma demo_safe: "safe mutex_ok mutex_contents ok (\<lambda>w. True) (demo_group, w)"
proof -
  have ok: "mutex_ok (newMutexCache 700)" "mutex_ok (newMutexCache 100)"
    by (simp_all add: mutex_ok_new le64_def)
  have "mutex_contents (newMutexCache n) = Map.empty" for n
    by (rule ext) (simp add: mutex_contents_def newMutexCache_def mutex_entries_def rl_lookup_def)
  then show ?thesis
    by (simp add: safe_def demo_group_def ok holds_only_def)
qed

section \<open>Properties\<close>

text \<open>C1.  A group serves for a key only values given for that key: if the getter and the peers
  answer with right values and the caches hold right values, \<open>Get\<close> returns whether it leads the
  flight or joins one, and when it reports no error the caller's sink holds the bytes and the expiry
  of a right value for the key asked for; the caches still hold right values only.\<close>

theorem group_Get_integrity:
  assumes "e_cache E = mutex_ops" "trusted ok W E" "sink_safe dest"
    and "\<forall>v e. role = Follower v e \<longrightarrow> e = None \<longrightarrow> (\<exists>x. v = Some x \<and> ok key x)"
    and "safe mutex_ok mutex_contents ok W s"
  shows "\<exists>err d s'. group_Get E role key (Some dest) s = Done (err, d) s' \<and>
    safe mutex_ok mutex_contents ok W s' \<and>
    (err = None \<longrightarrow> (\<exists>d' x. d = Some d' \<and> ok key x \<and>
       bv_data (Sink_View d') = bv_data x \<and> bv_e (Sink_View d') = bv_e x))"
  using succeedsD [OF mutex.safe_Get [OF assms(1-4)] assms(5)]
  by (auto simp: served_ok_def)

theorem group_Get_integrity_witness:
  "\<exists>err d s'. group_Get demo_env Leader ''k'' (Some (byteViewSink zero_view)) (demo_group, 0)
     = Done (err, d) s' \<and>
     (err = None \<longrightarrow> (\<exists>d' x. d = Some d' \<and> bv_data x = ''value of k'' \<and>
        bv_data (Sink_View d') = bv_data x))"
proof -
  have "e_cache demo_env = mutex_ops" by (simp add: demo_env_def)
  from group_Get_integrity [OF this demo_trusted _ _ demo_safe, of "byteViewSink zero_view" Leader "''k''" 0]
  show ?thesis by auto
qed

end
