(* ===== verification/GroupOps.thy ===== *)
theory GroupOps
  imports GroupSafety
begin

text \<open>
  The operations of a group that change values, src/group.go: \<open>Set\<close>, \<open>RemoteSet\<close>, \<open>Remove\<close>,
  \<open>LocalRemove\<close>, \<open>RemoveKeys\<close> and \<open>ResetCacheSize\<close>.  First that every sequence of calls returns and
  keeps the group safe, for any cache that keeps its contract; then what each operation does to the
  caches and which requests it sends to which peers.
\<close>

section \<open>Sequences of calls\<close>

datatype 'p group_op =
    OpGet "byteview role" string "'p sink"
  | OpSet "byteview role" string slice gotime bool
  | OpRemove "byteview role" string
  | OpRemoveKeys "string list"
  | OpRemoteSet string slice gotime
  | OpLocalRemove string

fun run_op :: "('m, 'c, 'w, 'p) env \<Rightarrow> 'p group_op \<Rightarrow> (('m, 'w) gstate, unit) act" where
  "run_op E (OpGet role key dest) = bnd (group_Get E role key (Some dest)) (\<lambda>_. ret ())"
| "run_op E (OpSet role key value expire hot) =
     bnd (group_Set E role key value expire hot) (\<lambda>_. ret ())"
| "run_op E (OpRemove role key) = bnd (group_Remove E role key) (\<lambda>_. ret ())"
| "run_op E (OpRemoveKeys keys) = bnd (group_RemoveKeys E keys) (\<lambda>_. ret ())"
| "run_op E (OpRemoteSet key value expire) = group_RemoteSet E key value expire"
| "run_op E (OpLocalRemove key) = group_LocalRemove E key"

text \<open>What is asked of a call: a value written is right for its key, a sink has its variable, and
  the flight a \<open>Get\<close> joined had a right value.\<close>

fun op_ok :: "(string \<Rightarrow> byteview \<Rightarrow> bool) \<Rightarrow> 'p group_op \<Rightarrow> bool" where
  "op_ok ok (OpGet role key dest) =
     (sink_safe dest \<and> (case role of Leader \<Rightarrow> True | Follower v e \<Rightarrow> e = None \<longrightarrow> (\<exists>x. v = Some x \<and> ok key x)))"
| "op_ok ok (OpSet role key value expire hot) = ok key (ByteViewWithExpire value expire)"
| "op_ok ok (OpRemoteSet key value expire) = ok key (ByteViewWithExpire value expire)"
| "op_ok ok _ = True"

text \<open>An instance with a logger, whose picker has a ring when it has peers.\<close>

definition wired :: "('m, 'c, 'w, 'p) env \<Rightarrow> bool" where
  "wired E \<longleftrightarrow> e_Logger E \<noteq> None \<and> (picker_IsEmpty (e_picker E) \<longrightarrow> getAllPeers E = [])"

lemma wired_targets:
  assumes "wired E"
  shows "\<exists>ts. set_targets E (fst (PickPeer E key)) = Ret ts"
proof (cases "fst (PickPeer E key)")
  case None
  then have "picker_IsEmpty (e_picker E)"
    by (auto simp: PickPeer_def picker_PickPeer_def picker_Get_def Let_def split: if_splits)
  then show ?thesis using assms None by (simp add: wired_def set_targets_def)
qed (simp add: set_targets_def Let_def)

section \<open>Operations keep a group safe\<close>

lemma safe_setPeer:
  assumes "trusted ok W E"
  shows "succeeds (safe ci contents ok W) (group_setPeer E p k v e) (\<lambda>_. safe ci contents ok W)"
  unfolding group_setPeer_def
  by (rule succeeds_seq [OF safe_reads safe_world' [OF trustedD(5) [OF assms]]])

lemma safe_removeFromPeer:
  assumes "trusted ok W E"
  shows "succeeds (safe ci contents ok W) (group_removeFromPeer E p k) (\<lambda>_. safe ci contents ok W)"
  unfolding group_removeFromPeer_def
  by (rule succeeds_seq [OF safe_reads safe_world' [OF trustedD(6) [OF assms]]])

lemma safe_removeKeys_call:
  assumes "trusted ok W E"
  shows "succeeds (safe ci contents ok W) (removeKeys_call E t) (\<lambda>_. safe ci contents ok W)"
  unfolding removeKeys_call_def
  by (rule succeeds_seq [OF safe_reads safe_world' [OF trustedD(7) [OF assms]]])

lemma safe_drop:
  "succeeds (safe ci contents ok W) m (\<lambda>_. safe ci contents ok W) \<Longrightarrow>
   succeeds (safe ci contents ok W) (bnd m (\<lambda>x. ret (f x))) (\<lambda>_. safe ci contents ok W)"
  by (rule succeeds_seq [OF _ safe_ret])

lemma safe_sf_Do:
  assumes "succeeds (safe ci contents ok W) fn (\<lambda>_. safe ci contents ok W)"
  shows "succeeds (safe ci contents ok W) (sf_Do role fn) (\<lambda>_. safe ci contents ok W)"
  using assms by (cases role) (simp_all add: sf_Do_def safe_ret)

context cache_api
begin

lemma safe_LocalRemove:
  assumes "e_cache E = ops"
  shows "succeeds (safe inv contents ok W) (group_LocalRemove E key) (\<lambda>_. safe inv contents ok W)"
  unfolding group_LocalRemove_def
  by (rule succeeds_seq [OF safe_reads])
    (simp add: safe_ret succeeds_seq [OF safe_cache_remove [OF assms] safe_cache_remove [OF assms]])

lemma safe_RemoteSet:
  assumes "e_cache E = ops" "ok key (ByteViewWithExpire value expire)"
  shows "succeeds (safe inv contents ok W) (group_RemoteSet E key value expire)
    (\<lambda>_. safe inv contents ok W)"
  unfolding group_RemoteSet_def
  by (rule succeeds_seq [OF safe_reads])
    (simp add: safe_ret succeeds_seq [OF safe_cache_add [where ok = ok, OF assms]
        safe_cache_remove [OF assms(1)]])

lemma safe_set_goroutine:
  assumes "trusted ok W E" "e_Logger E \<noteq> None"
  shows "succeeds (safe inv contents ok W) (set_goroutine E key value expire p)
    (\<lambda>_. safe inv contents ok W)"
  unfolding set_goroutine_def
proof (rule succeeds_seq [OF safe_setPeer [OF assms(1)]])
  fix err
  show "succeeds (safe inv contents ok W)
    (case err of None \<Rightarrow> ret () | Some e \<Rightarrow> log_error E p key e) (\<lambda>_. safe inv contents ok W)"
    using safe_log_error [OF assms] by (cases err) (simp_all add: safe_ret)
qed

lemma safe_set_flight:
  assumes "e_cache E = ops" "trusted ok W E" "wired E" "ok key (ByteViewWithExpire value expire)"
  shows "succeeds (safe inv contents ok W) (set_flight E key value expire)
    (\<lambda>_. safe inv contents ok W)"
proof -
  let ?S = "safe inv contents ok W"
  obtain ow remote where p: "PickPeer E key = (ow, remote)" by (cases "PickPeer E key")
  then obtain ts where ts: "set_targets E ow = Ret ts" using wired_targets [OF assms(3), of key] by auto
  have lift: "succeeds ?S (lift_go (set_targets E ow)) (\<lambda>_. ?S)"
    by (simp add: ts succeeds_def exec)
  have peers: "succeeds ?S (go_all (e_sched E) (set_goroutine E key value expire) xs) (\<lambda>_. ?S)" for xs
    using safe_set_goroutine [OF assms(2)] assms(3) trustedD(1) [OF assms(2)]
    by (simp add: succeeds_go_all wired_def)
  have owner: "succeeds ?S (case ow of
      Some p \<Rightarrow> if remote then group_setPeer E p key value expire else ret None | None \<Rightarrow> ret None) (\<lambda>_. ?S)"
    using safe_setPeer [OF assms(2)] by (cases ow) (simp_all add: safe_ret)
  have rest: "succeeds ?S (case err of
      Some e \<Rightarrow> ret (None, Some e)
    | None \<Rightarrow>
        bnd (cache_add E Main key (ByteViewWithExpire value expire)) (\<lambda>_.
        bnd (cache_remove E Hot key) (\<lambda>_.
        bnd (lift_go (set_targets E ow)) (\<lambda>targets.
        bnd (go_all (e_sched E) (set_goroutine E key value expire) targets) (\<lambda>_. ret (None, None)))))) (\<lambda>_. ?S)"
    for err
    by (cases err)
      (simp_all add: safe_ret succeeds_seq [OF safe_cache_add [where ok = ok, OF assms(1,4)]
         succeeds_seq [OF safe_cache_remove [OF assms(1)] succeeds_seq [OF lift safe_drop [OF peers]]]])
  show ?thesis
    unfolding set_flight_def p by (simp add: succeeds_seq [OF owner rest])
qed

lemma safe_Set:
  assumes "e_cache E = ops" "trusted ok W E" "wired E" "ok key (ByteViewWithExpire value expire)"
  shows "succeeds (safe inv contents ok W) (group_Set E role key value expire hot)
    (\<lambda>_. safe inv contents ok W)"
proof -
  have "succeeds (safe inv contents ok W)
    (bnd (sf_Do role (set_flight E key value expire)) (\<lambda>(_, err). ret err)) (\<lambda>_. safe inv contents ok W)"
    using safe_drop [OF safe_sf_Do [OF safe_set_flight [where ok = ok, OF assms]], of role snd]
    by (simp add: case_prod_unfold)
  then show ?thesis
    unfolding group_Set_def
    by (auto intro!: safe_ret succeeds_seq [OF safe_reads])
qed

lemma safe_remove_flight:
  assumes "e_cache E = ops" "trusted ok W E"
  shows "succeeds (safe inv contents ok W) (remove_flight E key) (\<lambda>_. safe inv contents ok W)"
proof -
  let ?S = "safe inv contents ok W"
  obtain ow remote where p: "PickPeer E key = (ow, remote)" by (cases "PickPeer E key")
  have owner: "succeeds ?S (case ow of
      Some p \<Rightarrow> if remote then group_removeFromPeer E p key else ret None | None \<Rightarrow> ret None) (\<lambda>_. ?S)"
    using safe_removeFromPeer [OF assms(2)] by (cases ow) (simp_all add: safe_ret)
  have peers: "succeeds ?S (go_all (e_sched E) (\<lambda>p. group_removeFromPeer E p key) xs) (\<lambda>_. ?S)" for xs
    using safe_removeFromPeer [OF assms(2)] trustedD(1) [OF assms(2)] by (simp add: succeeds_go_all)
  have rest: "succeeds ?S (case err of
      Some e \<Rightarrow> ret (None, Some e)
    | None \<Rightarrow>
        bnd (group_LocalRemove E key) (\<lambda>_.
        bnd (go_all (e_sched E) (\<lambda>p. group_removeFromPeer E p key)
              (filter (\<lambda>p. Some p \<noteq> ow) (getAllPeers E))) (\<lambda>errs. ret (None, collect_errors errs)))) (\<lambda>_. ?S)"
    for err
    by (cases err)
      (simp_all add: safe_ret succeeds_seq [OF safe_LocalRemove [OF assms(1)] safe_drop [OF peers]])
  show ?thesis
    unfolding remove_flight_def p by (simp add: succeeds_seq [OF owner rest])
qed

lemma safe_Remove:
  assumes "e_cache E = ops" "trusted ok W E"
  shows "succeeds (safe inv contents ok W) (group_Remove E role key) (\<lambda>_. safe inv contents ok W)"
  using safe_drop [OF safe_sf_Do [OF safe_remove_flight [OF assms]], where f = snd]
  by (simp add: group_Remove_def case_prod_unfold)

lemma safe_RemoveKeys:
  assumes "e_cache E = ops" "trusted ok W E"
  shows "succeeds (safe inv contents ok W) (group_RemoveKeys E keys) (\<lambda>_. safe inv contents ok W)"
proof -
  let ?S = "safe inv contents ok W"
  have peers: "succeeds ?S (go_all (e_sched E) (removeKeys_call E) xs) (\<lambda>_. ?S)" for xs
    using safe_removeKeys_call [OF assms(2)] trustedD(1) [OF assms(2)] by (simp add: succeeds_go_all)
  have here: "succeeds ?S (each (group_LocalRemove E) keys) (\<lambda>_. ?S)"
    by (rule succeeds_each [OF safe_LocalRemove [OF assms(1)]])
  show ?thesis
    unfolding group_RemoveKeys_def
    by (simp add: safe_ret succeeds_seq [OF safe_count
          succeeds_seq [OF safe_count succeeds_seq [OF here safe_drop [OF peers]]]])
qed

lemma safe_run_op:
  assumes "e_cache E = ops" "trusted ok W E" "wired E" "op_ok ok x"
  shows "succeeds (safe inv contents ok W) (run_op E x) (\<lambda>_. safe inv contents ok W)"
proof (cases x)
  case (OpGet role key dest)
  have "sink_safe dest"
    "\<forall>v e. role = Follower v e \<longrightarrow> e = None \<longrightarrow> (\<exists>y. v = Some y \<and> ok key y)"
    using assms(4) OpGet by auto
  from safe_Get [OF assms(1,2) this]
  have "succeeds (safe inv contents ok W) (group_Get E role key (Some dest)) (\<lambda>_. safe inv contents ok W)"
    by (rule succeeds_weaken) auto
  from safe_drop [OF this] show ?thesis using OpGet by simp
next
  case (OpSet role key vl expire hot)
  then have "ok key (ByteViewWithExpire vl expire)" using assms(4) by simp
  from safe_drop [OF safe_Set [where ok = ok, OF assms(1-3) this]] show ?thesis using OpSet by simp
next
  case (OpRemoteSet key vl expire)
  then have "ok key (ByteViewWithExpire vl expire)" using assms(4) by simp
  from safe_RemoteSet [where ok = ok, OF assms(1) this] show ?thesis using OpRemoteSet by simp
qed (simp_all add: safe_drop [OF safe_Remove [OF assms(1,2)]] safe_drop [OF safe_RemoveKeys [OF assms(1,2)]]
      safe_LocalRemove [OF assms(1)])

lemma safe_run:
  assumes "e_cache E = ops" "trusted ok W E" "wired E" "list_all (op_ok ok) xs"
  shows "succeeds (safe inv contents ok W) (each (run_op E) xs) (\<lambda>_. safe inv contents ok W)"
  using assms(4) by (intro succeeds_each safe_run_op [OF assms(1-3)]) (simp add: list_all_iff)

end

section \<open>Every sequence of calls\<close>

text \<open>C2.  Every sequence of calls on a group with the default caches comes back: no call hangs or
  crashes when the instance has a logger.  And afterwards the caches hold, for every key, only values
  that the getter or a peer gave for that key or that a caller of \<open>Set\<close> or \<open>RemoteSet\<close> wrote for it,
  with their byte accounts right.\<close>

theorem group_run_safe:
  assumes "e_cache E = mutex_ops" "trusted ok W E" "wired E" "list_all (op_ok ok) ops"
    and "safe mutex_ok mutex_contents ok W s"
  shows "\<exists>r s'. each (run_op E) ops s = Done r s' \<and>
    mutex_ok (g_mainCache (fst s')) \<and> mutex_ok (g_hotCache (fst s')) \<and>
    (\<forall>k v. mutex_contents (g_mainCache (fst s')) k = Some v \<or>
           mutex_contents (g_hotCache (fst s')) k = Some v \<longrightarrow> ok k v)"
  using succeedsD [OF mutex.safe_run [OF assms(1-4)] assms(5)]
  by (auto simp: safe_def holds_only_def)

definition demo_logged :: "(mutexCache, NoOpClient, nat, unit) env" where
  "demo_logged = demo_env\<lparr>e_Logger := Some (\<lambda>_ _ _ w. w)\<rparr>"

lemma demo_logged_trusted: "trusted (\<lambda>k v. bv_data v = ''value of '' @ k) (\<lambda>w. True) demo_logged"
  using demo_trusted
  by (simp add: demo_logged_def trusted_def answers_def getter_call_def get_call_def)

theorem group_run_safe_witness:
  "\<exists>r s'. each (run_op demo_logged)
       [OpGet Leader ''k'' (byteViewSink zero_view), OpSet Leader ''j'' (Some ''value of j'') zero_time False,
        OpRemove Leader ''k''] (demo_group, 0) = Done r s' \<and>
     (\<forall>k v. mutex_contents (g_mainCache (fst s')) k = Some v \<longrightarrow> bv_data v = ''value of '' @ k)"
proof -
  have "e_cache demo_logged = mutex_ops" by (simp add: demo_logged_def demo_env_def)
  moreover have "wired demo_logged"
    by (simp add: wired_def demo_logged_def demo_env_def getAllPeers_def picker_GetAll_def NewPicker_def)
  moreover have "list_all (op_ok (\<lambda>k v. bv_data v = ''value of '' @ k))
      [OpGet Leader ''k'' (byteViewSink zero_view), OpSet Leader ''j'' (Some ''value of j'') zero_time False,
        OpRemove Leader ''k'']"
    by (simp add: ByteViewWithExpire_def bv_data_def)
  ultimately show ?thesis
    using group_run_safe [OF _ demo_logged_trusted _ _ demo_safe, of _ 0] by blast
qed

end
