(* ===== verification/GroupLaws.thy ===== *)
theory GroupLaws
  imports GroupOps
begin

text \<open>
  What the operations of a group do, branch by branch: which requests \<open>Set\<close>, \<open>Remove\<close> and
  \<open>RemoveKeys\<close> send to which peers, what they leave in the two caches, what a \<open>Get\<close> answers after
  them, and what a failure of the owner leads to.  The requests are observed in the world outside:
  \<open>obs\<close> is a view of it in which a call of a client leaves its request.
\<close>

section \<open>The ring of an instance\<close>

definition ring_of :: "('m, 'c, 'w, 'p) env \<Rightarrow> 'c list \<Rightarrow> bool" where
  "ring_of E cs \<longleftrightarrow>
     (\<exists>srt fnv1 opts. ring_sort srt \<and> 0 < ring_replicas opts \<and>
        e_picker E = picker_of srt fnv1 opts (e_client E) cs) \<and>
     (\<forall>xs. mset (e_order E xs) = mset xs) \<and> distinct (map (Client_HashKey (e_client E)) cs)"

abbreviation is_self :: "('m, 'c, 'w, 'p) env \<Rightarrow> 'c \<Rightarrow> bool" where
  "is_self E c \<equiv> IsSelf (Client_PeerInfo (e_client E) c)"

lemma ring_of_peers: "ring_of E cs \<Longrightarrow> mset (getAllPeers E) = mset cs"
  by (auto simp: ring_of_def getAllPeers_def ring_sort.GetAll_mset)

lemma ring_of_set: "ring_of E cs \<Longrightarrow> set (getAllPeers E) = set cs"
  by (rule mset_eq_setD [OF ring_of_peers])

lemma ring_of_owner:
  assumes "ring_of E cs" "cs \<noteq> []"
  obtains c where "c \<in> set cs" "PickPeer E key = (Some c, \<not> is_self E c)"
proof -
  obtain srt fnv1 opts where r: "ring_sort srt" "0 < ring_replicas opts"
    "e_picker E = picker_of srt fnv1 opts (e_client E) cs"
    using assms(1) by (auto simp: ring_of_def)
  have "set cs \<noteq> {}" using assms(2) by simp
  from ring_sort.picker_of_Get [OF r(1) this r(2), of fnv1 "e_client E" key] obtain e where
    e: "picker_Get (e_picker E) key = Some (r_client e)"
    "e \<in> ring_set (ring_hash fnv1 opts) (ring_replicas opts) (Client_HashKey (e_client E)) (set cs)"
    unfolding r(3) succ_entry_def by blast
  then have c: "r_client e \<in> set cs" by (auto simp: ring_set_def)
  from e(1)
  have "\<not> picker_IsEmpty (e_picker E)" by (auto simp: picker_Get_def split: if_splits)
  then have "PickPeer E key = (Some (r_client e), \<not> is_self E (r_client e))"
    using e(1) by (simp add: PickPeer_def picker_PickPeer_def)
  with c show thesis by (rule that)
qed

lemma ring_of_none:
  assumes "ring_of E []"
  shows "PickPeer E key = (None, False)"
proof -
  obtain srt fnv1 opts where "ring_sort srt" "e_picker E = picker_of srt fnv1 opts (e_client E) []"
    using assms by (auto simp: ring_of_def)
  then have "picker_Get (e_picker E) key = None"
    by (simp add: ring_sort.picker_of_Get_None)
  then show ?thesis by (simp add: PickPeer_def picker_PickPeer_def)
qed

lemma ring_of_inj:
  "ring_of E cs \<Longrightarrow> p \<in> set cs \<Longrightarrow> q \<in> set cs \<Longrightarrow>
   Client_HashKey (e_client E) p = Client_HashKey (e_client E) q \<longleftrightarrow> p = q"
  by (auto simp: ring_of_def distinct_map inj_on_def)

lemma ring_of_distinct: "ring_of E cs \<Longrightarrow> distinct cs"
  by (simp add: ring_of_def distinct_map)

lemma mset_owner_first:
  assumes "distinct cs" "ow \<in> set cs"
  shows "mset cs = add_mset ow (mset (filter (\<lambda>p. p \<noteq> ow) cs))"
proof -
  have "mset (filter (\<lambda>p. p = ow) cs) = {#ow#}"
    using assms by (simp add: filter_eq_replicate_mset count_mset_0_iff distinct_count_atmost_1)
  then show ?thesis
    using multiset_partition [of "mset cs" "\<lambda>p. p = ow"] by simp
qed

section \<open>Observing requests\<close>

lemma each_logs:
  assumes "\<And>x s. x \<in> set xs \<Longrightarrow> fst s = g \<Longrightarrow>
      \<exists>y s'. f x s = Done y s' \<and> fst s' = g \<and> obs (snd s') = obs (snd s) @ [h x]"
    and "fst s = g"
  shows "\<exists>ys s'. each f xs s = Done ys s' \<and> fst s' = g \<and> obs (snd s') = obs (snd s) @ map h xs"
  using assms
proof (induction xs arbitrary: s)
  case Nil
  then show ?case by (simp add: exec)
next
  case (Cons x xs)
  from Cons.prems(1) [of x s] Cons.prems(2) obtain y s1 where
    s1: "f x s = Done y s1" "fst s1 = g" "obs (snd s1) = obs (snd s) @ [h x]" by auto
  from Cons.IH [OF Cons.prems(1) s1(2)] obtain ys s2 where
    s2: "each f xs s1 = Done ys s2" "fst s2 = g" "obs (snd s2) = obs (snd s1) @ map h xs" by auto
  show ?case using s1 s2 by (simp add: exec)
qed

lemma go_all_logs:
  assumes "fair sched"
    and "\<And>x s. x \<in> set xs \<Longrightarrow> fst s = g \<Longrightarrow>
      \<exists>y s'. f x s = Done y s' \<and> fst s' = g \<and> obs (snd s') = obs (snd s) @ [h x]"
  shows "\<exists>ys w'. go_all sched f xs (g, w) = Done ys (g, w') \<and>
    mset (obs w') = mset (obs w) + image_mset h (mset xs)"
proof -
  have "\<exists>ys s'. each f (scheduled sched xs) (g, w) = Done ys s' \<and> fst s' = g \<and>
      obs (snd s') = obs (snd (g, w)) @ map h (scheduled sched xs)"
    using assms(2) by (intro each_logs) (auto simp: set_scheduled [OF assms(1)])
  then show ?thesis
    using mset_scheduled [OF assms(1), of xs] by (auto simp: go_all_def)
qed

section \<open>Set\<close>

definition set_req :: "string \<Rightarrow> string \<Rightarrow> slice \<Rightarrow> gotime \<Rightarrow> SetRequest" where
  "set_req name key v e =
     \<lparr>sr_Group = Some name, sr_Key = Some key, sr_Value = v, sr_Expire = Some (encode_expire e)\<rparr>"

definition logs_set :: "('m, 'c, 'w, 'p) env \<Rightarrow> ('w \<Rightarrow> ('c \<times> SetRequest) list) \<Rightarrow> bool" where
  "logs_set E obs \<longleftrightarrow>
     (\<forall>p r w. obs (snd (Client_Set (e_client E) p r w)) = obs w @ [(p, r)]) \<and>
     (\<exists>log. e_Logger E = Some log \<and> (\<forall>a k e w. obs (log a k e w) = obs w))"

lemma setPeer_exec:
  "group_setPeer E p k v e (g, w) =
     Done (fst (Client_Set (e_client E) p (set_req (g_name g) k v e) w))
       (g, snd (Client_Set (e_client E) p (set_req (g_name g) k v e) w))"
  by (simp add: group_setPeer_def exec world_def set_req_def split: prod.split)

lemma set_goroutine_logs:
  assumes "logs_set E obs" "fst s = g"
  shows "\<exists>y s'. set_goroutine E k v e p s = Done y s' \<and> fst s' = g \<and>
    obs (snd s') = obs (snd s) @ [(p, set_req (g_name g) k v e)]"
proof -
  obtain log where log: "e_Logger E = Some log" "\<And>a k e w. obs (log a k e w) = obs w"
    using assms(1) by (auto simp: logs_set_def)
  have call: "obs (snd (Client_Set (e_client E) p r w)) = obs w @ [(p, r)]" for r w
    using assms(1) by (simp add: logs_set_def)
  obtain err w' where r: "Client_Set (e_client E) p (set_req (g_name g) k v e) (snd s) = (err, w')"
    by fastforce
  then have "group_setPeer E p k v e s = Done err (g, w')"
    using setPeer_exec [of E p k v e g "snd s"] assms(2) by (cases s) simp
  moreover have "obs w' = obs (snd s) @ [(p, set_req (g_name g) k v e)]" using call r by (metis snd_conv)
  ultimately show ?thesis
    using log by (cases err) (simp_all add: set_goroutine_def exec log_error_def world_def)
qed

text \<open>The part of \<open>Set\<close> after the owner.\<close>

lemma set_flight_spread:
  assumes "e_cache E = mutex_ops" "fair (e_sched E)" "logs_set E obs"
    and "mutex_ok (g_mainCache g)" "mutex_ok (g_hotCache g)"
    and "m_maxBytes (mc (g_mainCache g)) = 0 \<or>
      le64 (entry_size key (ByteViewWithExpire vl expire)) (m_maxBytes (mc (g_mainCache g)))"
    and "PickPeer E key = (ow, remote)" "set_targets E ow = Ret ts"
    and "(case ow of Some p \<Rightarrow> if remote then group_setPeer E p key vl expire else ret None
            | None \<Rightarrow> ret None) (g, w) = Done None (g, w1)"
  shows "\<exists>g' w'. set_flight E key vl expire (g, w) = Done (None, None) (g', w') \<and>
    mutex_ok (g_mainCache g') \<and> mutex_ok (g_hotCache g') \<and> g_maxCacheBytes g' = g_maxCacheBytes g \<and>
    mutex_contents (g_mainCache g') key = Some (ByteViewWithExpire vl expire) \<and>
    mutex_contents (g_hotCache g') key = None \<and>
    mset (obs w') = mset (obs w1) + image_mset (\<lambda>p. (p, set_req (g_name g) key vl expire)) (mset ts)"
proof -
  let ?v = "ByteViewWithExpire vl expire"
  obtain m where m: "mutex_Add key ?v (g_mainCache g) = Some m" "mutex_ok m" "mutex_contents m key = Some ?v"
    using mutex_Add_holds [OF assms(4,6)] by blast
  let ?h = "mutex_Remove key (g_hotCache g)"
  have h: "mutex_ok ?h" "mutex_contents ?h key = None"
    using mutex.remove_sound [OF assms(5), of key] by (simp_all add: mutex_ops_def)
  let ?g = "g\<lparr>g_mainCache := m, g_hotCache := ?h\<rparr>"
  have "\<exists>ys w'. go_all (e_sched E) (set_goroutine E key vl expire) ts (?g, w1) = Done ys (?g, w') \<and>
    mset (obs w') = mset (obs w1) + image_mset (\<lambda>p. (p, set_req (g_name g) key vl expire)) (mset ts)"
    using set_goroutine_logs [OF assms(3), of _ ?g key vl expire]
    by (intro go_all_logs assms(2)) simp
  then obtain ys w' where w': "go_all (e_sched E) (set_goroutine E key vl expire) ts (?g, w1) = Done ys (?g, w')"
    "mset (obs w') = mset (obs w1) + image_mset (\<lambda>p. (p, set_req (g_name g) key vl expire)) (mset ts)" by blast
  have "set_flight E key vl expire (g, w) = Done (None, None) (?g, w')"
    using assms(1,7-9) m(1) w'(1)
    by (simp add: set_flight_def exec cache_add_def cache_remove_def mutex_ops_def)
  then show ?thesis using m(2,3) h w'(2) by simp
qed

section \<open>Peers for examples\<close>

text \<open>Clients that record the requests they get, and answer with the error given for them.\<close>

datatype demo_request = ReqSet SetRequest | ReqRemove GetRequest | ReqRemoveKeys RemoveKeysRequest

definition log_clients :: "(Info \<Rightarrow> goerr option) \<Rightarrow> (Info, (Info \<times> demo_request) list) Client" where
  "log_clients err =
     \<lparr>Client_Get = (\<lambda>p r out w. (err p, out, w)),
      Client_Remove = (\<lambda>p r w. (err p, w @ [(p, ReqRemove r)])),
      Client_Set = (\<lambda>p r w. (err p, w @ [(p, ReqSet r)])),
      Client_RemoveKeys = (\<lambda>p r w. (err p, w @ [(p, ReqRemoveKeys r)])),
      Client_PeerInfo = (\<lambda>p. p), Client_HashKey = Address\<rparr>"

definition peers_env ::
  "(Info \<Rightarrow> goerr option) \<Rightarrow> Info list \<Rightarrow> (mutexCache, Info, (Info \<times> demo_request) list, unit) env" where
  "peers_env err cs =
     \<lparr>e_cache = mutex_ops, e_CacheFactory = (\<lambda>n. (newMutexCache n, None)), e_client = log_clients err,
      e_picker = picker_of sort_ring (\<lambda>_. 0) demo_opts (log_clients err) cs, e_order = (\<lambda>xs. xs),
      e_sched = (\<lambda>n. [0..<n]), e_getter = (\<lambda>k d w. (Some (ErrString ''none''), d, w)),
      e_proto = demo_proto, e_now = (\<lambda>w. (zero_time, w)), e_ctxErr = (\<lambda>w. None),
      e_Logger = Some (\<lambda>_ _ _ w. w)\<rparr>"

definition demo_self :: Info where
  "demo_self = \<lparr>Address = ''a'', IsSelf = True\<rparr>"

definition demo_peer :: "string \<Rightarrow> Info" where
  "demo_peer a = \<lparr>Address = a, IsSelf = False\<rparr>"

lemma demo_infos [simp]:
  "Address demo_self = ''a''" "IsSelf demo_self" "Address (demo_peer x) = x" "\<not> IsSelf (demo_peer x)"
  by (simp_all add: demo_self_def demo_peer_def)

lemma peers_env_simps [simp]:
  "e_cache (peers_env err cs) = mutex_ops" "e_client (peers_env err cs) = log_clients err"
  "e_sched (peers_env err cs) = (\<lambda>n. [0..<n])" "fair (e_sched (peers_env err cs))"
  "Client_PeerInfo (log_clients err) p = p" "Client_HashKey (log_clients err) p = Address p"
  by (simp_all add: peers_env_def log_clients_def fair_def)

lemma peers_env_ring: "distinct (map Address cs) \<Longrightarrow> ring_of (peers_env err cs) cs"
proof -
  assume d: "distinct (map Address cs)"
  have "ring_sort (sort_ring :: Info ring_entry list \<Rightarrow> _) \<and> 0 < ring_replicas demo_opts \<and>
      e_picker (peers_env err cs) = picker_of sort_ring (\<lambda>_. 0) demo_opts (e_client (peers_env err cs)) cs"
    by (simp add: sort_ring.ring_sort_axioms demo_ring(1) peers_env_def)
  moreover have "Client_HashKey (log_clients err) = Address"
    by (simp add: log_clients_def)
  ultimately show ?thesis
    using d unfolding ring_of_def by (auto simp: peers_env_def)
qed

definition seen_set :: "(Info \<times> demo_request) list \<Rightarrow> (Info \<times> SetRequest) list" where
  "seen_set w = List.map_filter (\<lambda>(p, r). case r of ReqSet q \<Rightarrow> Some (p, q) | _ \<Rightarrow> None) w"

lemma map_filter_append: "List.map_filter f (xs @ ys) = List.map_filter f xs @ List.map_filter f ys"
  by (simp add: List.map_filter_def)

lemma peers_env_logs_set: "logs_set (peers_env err cs) seen_set"
  by (simp add: logs_set_def peers_env_def log_clients_def seen_set_def map_filter_append map_filter_simps)

lemma demo_group_ok: "mutex_ok (g_mainCache demo_group)" "mutex_ok (g_hotCache demo_group)"
  "g_maxCacheBytes demo_group = 800" "m_maxBytes (mc (g_mainCache demo_group)) = 700"
proof -
  show "mutex_ok (g_mainCache demo_group)" "mutex_ok (g_hotCache demo_group)"
    by (simp_all add: demo_group_def mutex_ok_new le64_def)
qed (simp_all add: demo_group_def newMutexCache_def)

section \<open>Set and the peers\<close>

lemma set_targets_ring:
  assumes "ring_of E cs" "ow \<in> set cs" "PickPeer E key = (Some ow, \<not> is_self E ow)"
  shows "\<exists>ts. set_targets E (Some ow) = Ret ts \<and>
    filter_mset (\<lambda>p. \<not> is_self E p) (mset cs) =
      (if is_self E ow then mset ts else add_mset ow (mset ts))"
proof -
  let ?o = "filter (\<lambda>p. \<not> is_self E p) (getAllPeers E)"
  have o: "mset ?o = filter_mset (\<lambda>p. \<not> is_self E p) (mset cs)"
    using ring_of_peers [OF assms(1)] by simp
  have "filter (\<lambda>p. Client_HashKey (e_client E) p \<noteq> Client_HashKey (e_client E) ow) ?o =
      filter (\<lambda>p. p \<noteq> ow) ?o"
    using ring_of_inj [OF assms(1)] assms(2) ring_of_set [OF assms(1)] by (intro filter_cong) auto
  then have t: "set_targets E (Some ow) = Ret (filter (\<lambda>p. p \<noteq> ow) ?o)"
    by (simp add: set_targets_def Let_def)
  have d: "distinct ?o"
    using ring_of_peers [OF assms(1)] ring_of_distinct [OF assms(1)] by (metis distinct_filter mset_eq_imp_distinct_iff)
  show ?thesis
  proof (cases "is_self E ow")
    case True
    then have "filter (\<lambda>p. p \<noteq> ow) ?o = ?o" by (intro filter_True) auto
    then show ?thesis using t o True by simp
  next
    case False
    then have "ow \<in> set ?o" using assms(2) ring_of_set [OF assms(1)] by simp
    from mset_owner_first [OF d this] show ?thesis using t o False by simp
  qed
qed

lemma group_Set_spec:
  assumes "e_cache E = mutex_ops" "fair (e_sched E)" "logs_set E obs" "ring_of E cs"
    and "mutex_ok (g_mainCache g)" "mutex_ok (g_hotCache g)" "\<not> le64 (g_maxCacheBytes g) 0"
    and "m_maxBytes (mc (g_mainCache g)) = 0 \<or>
      le64 (entry_size key (ByteViewWithExpire vl expire)) (m_maxBytes (mc (g_mainCache g)))"
    and "key \<noteq> []"
  shows "\<exists>err g' w'. group_Set E Leader key vl expire hot (g, w) = Done err (g', w') \<and>
    (case err of
       None \<Rightarrow> mset (obs w') = mset (obs w) +
            mset (map (\<lambda>p. (p, set_req (g_name g) key vl expire)) (filter (\<lambda>p. \<not> is_self E p) cs)) \<and>
          mutex_contents (g_mainCache g') key = Some (ByteViewWithExpire vl expire) \<and>
          mutex_contents (g_hotCache g') key = None \<and>
          mutex_ok (g_mainCache g') \<and> mutex_ok (g_hotCache g') \<and> g_maxCacheBytes g' = g_maxCacheBytes g
     | Some e \<Rightarrow> \<exists>ow\<in>set cs. PickPeer E key = (Some ow, True) \<and>
          obs w' = obs w @ [(ow, set_req (g_name g) key vl expire)] \<and> g' = g)"
proof -
  let ?q = "set_req (g_name g) key vl expire"
  have set: "group_Set E Leader key vl expire hot (g, w) = Done (snd r) s"
    if "set_flight E key vl expire (g, w) = Done r s" for r s
    using that assms(7,9) by (simp add: group_Set_def sf_Do_def exec case_prod_unfold)
  have spread: ?thesis
    if p: "PickPeer E key = (ow, remote)" "set_targets E ow = Ret ts"
      and first: "(case ow of Some p \<Rightarrow> if remote then group_setPeer E p key vl expire else ret None
            | None \<Rightarrow> ret None) (g, w) = Done None (g, w1)"
      and all: "mset (obs w1) + image_mset (\<lambda>p. (p, ?q)) (mset ts) =
        mset (obs w) + image_mset (\<lambda>p. (p, ?q)) (mset (filter (\<lambda>p. \<not> is_self E p) cs))"
    for ow remote ts w1
  proof -
    from set_flight_spread [OF assms(1-3,5,6,8) p first] obtain g' w' where
      f: "set_flight E key vl expire (g, w) = Done (None, None) (g', w')"
        "mutex_contents (g_mainCache g') key = Some (ByteViewWithExpire vl expire)"
        "mutex_contents (g_hotCache g') key = None" "mutex_ok (g_mainCache g')" "mutex_ok (g_hotCache g')"
        "g_maxCacheBytes g' = g_maxCacheBytes g"
        "mset (obs w') = mset (obs w1) + image_mset (\<lambda>p. (p, ?q)) (mset ts)" by blast
    show ?thesis
      by (rule exI [of _ None], rule exI [of _ g'], rule exI [of _ w'])
        (use set [OF f(1)] f(2-7) all in simp)
  qed
  show ?thesis
  proof (cases "cs = []")
    case True
    have "getAllPeers E = []" using ring_of_peers [OF assms(4)] True by simp
    then have "set_targets E None = Ret []" by (simp add: set_targets_def)
    from spread [OF ring_of_none this, of w] assms(4) True show ?thesis by (simp add: exec)
  next
    case False
    then obtain ow where ow: "ow \<in> set cs" "PickPeer E key = (Some ow, \<not> is_self E ow)"
      using ring_of_owner [OF assms(4)] by blast
    obtain ts where ts: "set_targets E (Some ow) = Ret ts" "filter_mset (\<lambda>p. \<not> is_self E p) (mset cs) =
      (if is_self E ow then mset ts else add_mset ow (mset ts))"
      using set_targets_ring [OF assms(4) ow] by blast
    obtain err w1 where call: "Client_Set (e_client E) ow ?q w = (err, w1)" by fastforce
    then have w1: "obs w1 = obs w @ [(ow, ?q)]" using assms(3) unfolding logs_set_def by (metis snd_conv)
    have first: "group_setPeer E ow key vl expire (g, w) = Done err (g, w1)"
      using call by (simp add: setPeer_exec)
    consider "is_self E ow" | "\<not> is_self E ow" "err = None" | e where "\<not> is_self E ow" "err = Some e"
      by blast
    then show ?thesis
    proof cases
      case 1
      show ?thesis by (rule spread [OF ow(2) ts(1), of w]) (simp_all add: 1 ts(2) exec)
    next
      case 2
      show ?thesis by (rule spread [OF ow(2) ts(1), of w1]) (simp_all add: 2 first ts(2) w1)
    next
      case (3 e)
      then have f: "set_flight E key vl expire (g, w) = Done (None, Some e) (g, w1)"
        using ow(2) first by (simp add: set_flight_def exec)
      show ?thesis
        by (rule exI [of _ "Some e"], rule exI [of _ g], rule exI [of _ w1])
          (use set [OF f] 3 ow w1 in auto)
    qed
  qed
qed

text \<open>C3.  \<open>Set\<close> reaches every instance: with a ring of peers of different hash keys and a value that
  fits, a \<open>Set\<close> that runs returns; if it reports no error, every peer but this instance has been sent
  the value with its expiry once, the value is in the main cache and no other is in the hot cache; if
  it reports one, the owner of the key is a peer, it alone was asked, and this instance is as it
  was.\<close>

theorem group_Set_reaches_all:
  assumes "e_cache E = mutex_ops" "fair (e_sched E)" "logs_set E obs" "ring_of E cs"
    and "mutex_ok (g_mainCache g)" "mutex_ok (g_hotCache g)" "\<not> le64 (g_maxCacheBytes g) 0"
    and "m_maxBytes (mc (g_mainCache g)) = 0 \<or>
      le64 (entry_size key (ByteViewWithExpire vl expire)) (m_maxBytes (mc (g_mainCache g)))"
    and "key \<noteq> []"
  shows "\<exists>err g' w'. group_Set E Leader key vl expire hot (g, w) = Done err (g', w') \<and>
    (case err of
       None \<Rightarrow> mset (obs w') = mset (obs w) +
            mset (map (\<lambda>p. (p, set_req (g_name g) key vl expire)) (filter (\<lambda>p. \<not> is_self E p) cs)) \<and>
          mutex_contents (g_mainCache g') key = Some (ByteViewWithExpire vl expire) \<and>
          mutex_contents (g_hotCache g') key = None
     | Some e \<Rightarrow> \<exists>ow\<in>set cs. PickPeer E key = (Some ow, True) \<and>
          obs w' = obs w @ [(ow, set_req (g_name g) key vl expire)] \<and> g' = g)"
proof -
  obtain err g' w' where "group_Set E Leader key vl expire hot (g, w) = Done err (g', w')"
    "case err of None \<Rightarrow> mset (obs w') = mset (obs w) +
            mset (map (\<lambda>p. (p, set_req (g_name g) key vl expire)) (filter (\<lambda>p. \<not> is_self E p) cs)) \<and>
          mutex_contents (g_mainCache g') key = Some (ByteViewWithExpire vl expire) \<and>
          mutex_contents (g_hotCache g') key = None
     | Some e \<Rightarrow> \<exists>ow\<in>set cs. PickPeer E key = (Some ow, True) \<and>
          obs w' = obs w @ [(ow, set_req (g_name g) key vl expire)] \<and> g' = g"
    using group_Set_spec [OF assms, of hot w] by (auto split: option.splits)
  then show ?thesis by blast
qed

theorem group_Set_reaches_all_witness:
  "\<exists>err g' w'. group_Set (peers_env (\<lambda>_. None) [demo_self, demo_peer ''b'']) Leader ''k'' (Some ''v'')
     zero_time False (demo_group, []) = Done err (g', w') \<and>
   (err = None \<longrightarrow> mset (seen_set w') = {#(demo_peer ''b'', set_req ''g'' ''k'' (Some ''v'') zero_time)#})"
proof -
  let ?cs = "[demo_self, demo_peer ''b'']" and ?v = "ByteViewWithExpire (Some ''v'') zero_time"
  have fits: "m_maxBytes (mc (g_mainCache demo_group)) = 0 \<or>
      le64 (entry_size ''k'' ?v) (m_maxBytes (mc (g_mainCache demo_group)))"
    by (simp add: demo_group_ok le64_def entry_size_def bv_Len_data)
  have "ring_of (peers_env (\<lambda>_. None) ?cs) ?cs" by (rule peers_env_ring) simp
  note all = group_Set_reaches_all [OF peers_env_simps(1,4) peers_env_logs_set this demo_group_ok(1,2) _ fits,
      of False "[]"]
  have "seen_set [] = []" by (simp add: seen_set_def map_filter_simps)
  moreover have "g_name demo_group = ''g''" by (simp add: demo_group_def)
  ultimately show ?thesis
    using all by (auto simp: demo_group_ok(3) le64_def split: option.splits)
qed

section \<open>Hits and misses\<close>

text \<open>Reading the clock does nothing to the world.\<close>

definition idle_clock :: "('m, 'c, 'w, 'p) env \<Rightarrow> bool" where
  "idle_clock E \<longleftrightarrow> (\<forall>w. snd (e_now E w) = w)"

lemma cache_get_exec:
  assumes "idle_clock E"
  shows "cache_get E c key (g, w) =
    (case Cache_Get (e_cache E) (fst (e_now E w)) key (the_cache c g) of
       (r, m) \<Rightarrow> Done r (put_cache c m g, w))"
proof -
  have "world (e_now E) (g, w) = Done (fst (e_now E w)) (g, w)"
    using assms by (simp add: world_def idle_clock_def case_prod_unfold)
  then show ?thesis by (simp add: cache_get_def exec)
qed

text \<open>The part of a group a lookup leaves alone.\<close>

definition same_but_caches :: "mutexCache group \<Rightarrow> mutexCache group \<Rightarrow> bool" where
  "same_but_caches g g' \<longleftrightarrow>
     g_name g' = g_name g \<and> g_maxCacheBytes g' = g_maxCacheBytes g \<and> g_Stats g' = g_Stats g \<and>
     mutex_ok (g_mainCache g') \<and> mutex_ok (g_hotCache g')"

definition held :: "mutexCache group \<Rightarrow> string \<Rightarrow> byteview option" where
  "held g key =
     (case mutex_contents (g_mainCache g) key of Some v \<Rightarrow> Some v | None \<Rightarrow> mutex_contents (g_hotCache g) key)"

lemma lookup_hit:
  assumes "e_cache E = mutex_ops" "idle_clock E" "\<not> le64 (g_maxCacheBytes g) 0"
    and "mutex_ok (g_mainCache g)" "mutex_ok (g_hotCache g)"
    and "held g key = Some v" "\<not> expired (fst (e_now E w)) (bv_e v)"
  shows "\<exists>g'. group_lookupCache E key (g, w) = Done (Some v) (g', w) \<and> same_but_caches g g'"
proof -
  let ?now = "fst (e_now E w)"
  obtain r m where r: "mutex_Get ?now key (g_mainCache g) = (r, m)" by fastforce
  note main = mutex_Get_contents [OF assms(4) r]
  obtain q h where q: "mutex_Get ?now key (g_hotCache g) = (q, h)" by fastforce
  note hot = mutex_Get_contents [OF assms(5) q]
  show ?thesis
  proof (cases "mutex_contents (g_mainCache g) key")
    case None
    then have "r = None" "q = Some v" using main(3) hot(3) assms(6,7) by (simp_all add: held_def)
    then show ?thesis using r q main(1) hot(1) assms(1,3)
      by (simp add: group_lookupCache_def exec cache_get_exec [OF assms(2)] mutex_ops_def same_but_caches_def)
  next
    case (Some u)
    then have "r = Some v" using main(3) assms(6,7) by (simp add: held_def)
    then show ?thesis using r main(1) assms(1,3,5)
      by (simp add: group_lookupCache_def exec cache_get_exec [OF assms(2)] mutex_ops_def same_but_caches_def)
  qed
qed

lemma lookup_miss:
  assumes "e_cache E = mutex_ops" "idle_clock E"
    and "mutex_ok (g_mainCache g)" "mutex_ok (g_hotCache g)" "held g key = None"
  shows "\<exists>g'. group_lookupCache E key (g, w) = Done None (g', w) \<and> same_but_caches g g' \<and>
    held g' key = None"
proof (cases "le64 (g_maxCacheBytes g) 0")
  case True
  then show ?thesis using assms by (simp add: group_lookupCache_def exec same_but_caches_def)
next
  case False
  let ?now = "fst (e_now E w)"
  obtain r m where r: "mutex_Get ?now key (g_mainCache g) = (r, m)" by fastforce
  note main = mutex_Get_contents [OF assms(3) r]
  obtain q h where q: "mutex_Get ?now key (g_hotCache g) = (q, h)" by fastforce
  note hot = mutex_Get_contents [OF assms(4) q]
  have none: "mutex_contents (g_mainCache g) key = None" "mutex_contents (g_hotCache g) key = None"
    using assms(5) by (simp_all add: held_def split: option.splits)
  then have "r = None" "q = None" using main(3) hot(3) by simp_all
  moreover have "mutex_contents m key = None" "mutex_contents h key = None"
    using main(2) hot(2) none by (auto simp: map_le_def dom_def)
  ultimately show ?thesis using r q main(1) hot(1) assms(1) False
    by (simp add: group_lookupCache_def exec cache_get_exec [OF assms(2)] mutex_ops_def same_but_caches_def held_def)
qed

definition counted :: "(GroupStats \<Rightarrow> GroupStats) \<Rightarrow> 'm group \<Rightarrow> 'm group" where
  "counted f g = g\<lparr>g_Stats := f (g_Stats g)\<rparr>"

lemma count_exec [exec]: "count f (g, w) = Done () (counted f g, w)"
  "bnd (count f) k (g, w) = k () (counted f g, w)"
  by (simp_all add: count_def counted_def exec)

lemma counted_simps [simp]:
  "g_name (counted f g) = g_name g" "g_maxCacheBytes (counted f g) = g_maxCacheBytes g"
  "g_mainCache (counted f g) = g_mainCache g" "g_hotCache (counted f g) = g_hotCache g"
  "g_Stats (counted f g) = f (g_Stats g)" "held (counted f g :: mutexCache group) = held (g :: mutexCache group)"
  by (auto simp: counted_def held_def fun_eq_iff split: option.split)

text \<open>C7.  A hit is served here: when one of the caches holds a live value for the key, \<open>Get\<close> hands
  that value to the sink and does nothing outside the group, whoever owns the key: no peer and no
  getter is called, and the counters of calls and hits go up by one.\<close>

theorem group_Get_hit:
  assumes "e_cache E = mutex_ops" "idle_clock E" "\<not> le64 (g_maxCacheBytes g) 0"
    and "mutex_ok (g_mainCache g)" "mutex_ok (g_hotCache g)"
    and "held g key = Some v" "\<not> expired (fst (e_now E w)) (bv_e v)"
    and "SetSinkView (e_proto E) dest v = Ret (err, d)"
  shows "\<exists>g'. group_Get E role key (Some dest) (g, w) = Done (err, Some d) (g', w) \<and>
    g_Stats g' = (g_Stats g)\<lparr>Gets := AtomicInt_Add 1 (Gets (g_Stats g)),
      CacheHits := AtomicInt_Add 1 (CacheHits (g_Stats g))\<rparr>"
proof -
  let ?g = "counted (\<lambda>st. st\<lparr>Gets := AtomicInt_Add 1 (Gets st)\<rparr>) g"
  obtain g' where g': "group_lookupCache E key (?g, w) = Done (Some v) (g', w)" "same_but_caches ?g g'"
    using lookup_hit [of E ?g key v w] assms(1-7) by auto
  then show ?thesis
    using assms(8) by (simp add: group_Get_def exec set_sink_view_def same_but_caches_def)
qed

theorem group_Get_hit_witness:
  "\<exists>g'. group_Get demo_env Leader ''k'' (Some (byteViewSink zero_view))
     (demo_group\<lparr>g_mainCache := the (mutex_Add ''k'' (ByteViewWithExpire (Some ''v'') zero_time) (newMutexCache 700))\<rparr>, 0)
     = Done (None, Some (byteViewSink (ByteViewWithExpire (Some ''v'') zero_time))) (g', 0)"
proof -
  let ?v = "ByteViewWithExpire (Some ''v'') zero_time"
  have "mutex_ok (newMutexCache 700)" by (simp add: mutex_ok_new le64_def)
  moreover have "le64 (entry_size ''k'' ?v) 700" by (simp add: entry_size_def bv_Len_data le64_def)
  ultimately obtain m where m: "mutex_Add ''k'' ?v (newMutexCache 700) = Some m" "mutex_ok m"
    "mutex_contents m ''k'' = Some ?v"
    using mutex_Add_holds [of "newMutexCache 700" "''k''" ?v] by (auto simp: newMutexCache_def)
  let ?g = "demo_group\<lparr>g_mainCache := m\<rparr>"
  have "\<exists>g'. group_Get demo_env Leader ''k'' (Some (byteViewSink zero_view)) (?g, 0)
      = Done (None, Some (byteViewSink ?v)) (g', 0) \<and>
      g_Stats g' = (g_Stats ?g)\<lparr>Gets := AtomicInt_Add 1 (Gets (g_Stats ?g)),
        CacheHits := AtomicInt_Add 1 (CacheHits (g_Stats ?g))\<rparr>"
  proof (rule group_Get_hit)
    show "e_cache demo_env = mutex_ops" "idle_clock demo_env" by (simp_all add: demo_env_def idle_clock_def)
    show "mutex_ok (g_mainCache ?g)" "mutex_ok (g_hotCache ?g)" "held ?g ''k'' = Some ?v"
      using m demo_group_ok(2) by (simp_all add: held_def)
    show "\<not> le64 (g_maxCacheBytes ?g) 0" by (simp add: demo_group_ok(3) le64_def)
    show "\<not> expired (fst (e_now demo_env 0)) (bv_e ?v)"
      by (simp add: ByteViewWithExpire_def expired_def IsZero_def zero_time_def)
    show "SetSinkView (e_proto demo_env) (byteViewSink zero_view) ?v = Ret (None, byteViewSink ?v)"
      by (simp add: SetSinkView_def byteViewSink_setView_def)
  qed
  then show ?thesis using m(1) by auto
qed

text \<open>C4.  Read your writes: when a \<open>Set\<close> of a value that fits has reported no error, a \<open>Get\<close> of the
  key, in whatever role, answers with that value and expiry as long as it has not expired, and asks
  nobody.\<close>

theorem group_Set_then_Get:
  assumes "e_cache E = mutex_ops" "fair (e_sched E)" "logs_set E obs" "ring_of E cs"
    and "mutex_ok (g_mainCache g)" "mutex_ok (g_hotCache g)" "\<not> le64 (g_maxCacheBytes g) 0"
    and "m_maxBytes (mc (g_mainCache g)) = 0 \<or>
      le64 (entry_size key (ByteViewWithExpire vl expire)) (m_maxBytes (mc (g_mainCache g)))"
    and "key \<noteq> []" "idle_clock E"
  shows "\<exists>err g' w'. group_Set E Leader key vl expire hot (g, w) = Done err (g', w') \<and>
    (err = None \<longrightarrow> \<not> expired (fst (e_now E w')) expire \<longrightarrow>
       (\<exists>g''. group_Get E role key (Some (byteViewSink d)) (g', w') =
          Done (None, Some (byteViewSink (ByteViewWithExpire vl expire))) (g'', w')))"
proof -
  let ?v = "ByteViewWithExpire vl expire" and ?f = "\<lambda>st. st\<lparr>Gets := AtomicInt_Add 1 (Gets st)\<rparr>"
  from group_Set_spec [OF assms(1-9), of hot w] obtain err g' w' where
    set: "group_Set E Leader key vl expire hot (g, w) = Done err (g', w')" and
    done': "err = None \<Longrightarrow> held g' key = Some ?v \<and> mutex_ok (g_mainCache g') \<and> mutex_ok (g_hotCache g') \<and>
      g_maxCacheBytes g' = g_maxCacheBytes g"
    by (auto simp: held_def split: option.splits)
  have "\<exists>g''. group_Get E role key (Some (byteViewSink d)) (g', w') = Done (None, Some (byteViewSink ?v)) (g'', w')"
    if ok: "err = None" and live: "\<not> expired (fst (e_now E w')) expire"
  proof -
    obtain g2 where "group_lookupCache E key (counted ?f g', w') = Done (Some ?v) (g2, w')"
      using lookup_hit [OF assms(1,10), of "counted ?f g'" key ?v w'] done' [OF ok] live assms(7)
      by (auto simp: ByteViewWithExpire_def)
    then show ?thesis
      by (simp add: group_Get_def exec set_sink_view_def SetSinkView_def byteViewSink_setView_def)
  qed
  then show ?thesis using set by blast
qed

theorem group_Set_then_Get_witness:
  "\<exists>err g' w'. group_Set (peers_env (\<lambda>_. None) [demo_self, demo_peer ''b'']) Leader ''k'' (Some ''v'')
     zero_time False (demo_group, []) = Done err (g', w') \<and>
   (err = None \<longrightarrow> (\<exists>g''. group_Get (peers_env (\<lambda>_. None) [demo_self, demo_peer ''b'']) Leader ''k''
       (Some (byteViewSink zero_view)) (g', w') =
      Done (None, Some (byteViewSink (ByteViewWithExpire (Some ''v'') zero_time))) (g'', w')))"
proof -
  let ?cs = "[demo_self, demo_peer ''b'']" and ?v = "ByteViewWithExpire (Some ''v'') zero_time"
  have fits: "m_maxBytes (mc (g_mainCache demo_group)) = 0 \<or>
      le64 (entry_size ''k'' ?v) (m_maxBytes (mc (g_mainCache demo_group)))"
    by (simp add: demo_group_ok le64_def entry_size_def bv_Len_data)
  have ring: "ring_of (peers_env (\<lambda>_. None) ?cs) ?cs" by (rule peers_env_ring) simp
  have clock: "idle_clock (peers_env (\<lambda>_. None) ?cs)" by (simp add: idle_clock_def peers_env_def)
  have "\<not> expired t zero_time" for t by (simp add: expired_def IsZero_def zero_time_def)
  then show ?thesis
    using group_Set_then_Get [OF peers_env_simps(1,4) peers_env_logs_set ring demo_group_ok(1,2) _ fits _ clock,
        of False "[]" Leader zero_view]
    by (simp add: demo_group_ok(3) le64_def)
qed

end
