(* ===== verification/GroupRemove.thy ===== *)
theory GroupRemove
  imports GroupLaws
begin

text \<open>
  Removal and failures, src/group.go: which peers \<open>Remove\<close> and \<open>RemoveKeys\<close> tell and what they
  leave in the caches, what an error of the owner makes of a \<open>Get\<close>, what a failing peer does to a
  \<open>Set\<close> without a logger.
\<close>

section \<open>Remove\<close>

definition remove_req :: "string \<Rightarrow> string \<Rightarrow> GetRequest" where
  "remove_req name key = \<lparr>gr_Group = Some name, gr_Key = Some key\<rparr>"

definition logs_remove :: "('m, 'c, 'w, 'p) env \<Rightarrow> ('w \<Rightarrow> ('c \<times> GetRequest) list) \<Rightarrow> bool" where
  "logs_remove E obs \<longleftrightarrow> (\<forall>p r w. obs (snd (Client_Remove (e_client E) p r w)) = obs w @ [(p, r)])"

lemma removeFromPeer_exec:
  "group_removeFromPeer E p k (g, w) =
     Done (fst (Client_Remove (e_client E) p (remove_req (g_name g) k) w))
       (g, snd (Client_Remove (e_client E) p (remove_req (g_name g) k) w))"
  by (simp add: group_removeFromPeer_def exec world_def remove_req_def split: prod.split)

lemma removeFromPeer_logs:
  assumes "logs_remove E obs" "fst s = g"
  shows "\<exists>y s'. group_removeFromPeer E p k s = Done y s' \<and> fst s' = g \<and>
    obs (snd s') = obs (snd s) @ [(p, remove_req (g_name g) k)]"
  using assms removeFromPeer_exec [of E p k g "snd s"] by (cases s) (simp add: logs_remove_def)

text \<open>The caches without a key.\<close>

definition removed :: "string \<Rightarrow> mutexCache group \<Rightarrow> mutexCache group" where
  "removed key g =
     (if le64 (g_maxCacheBytes g) 0 then g
      else g\<lparr>g_hotCache := mutex_Remove key (g_hotCache g), g_mainCache := mutex_Remove key (g_mainCache g)\<rparr>)"

lemma LocalRemove_exec:
  "e_cache E = mutex_ops \<Longrightarrow> group_LocalRemove E key (g, w) = Done () (removed key g, w)"
  by (simp add: group_LocalRemove_def exec cache_remove_def removed_def mutex_ops_def)

lemma removed_simps [simp]:
  "g_name (removed key g) = g_name g" "g_maxCacheBytes (removed key g) = g_maxCacheBytes g"
  "g_Stats (removed key g) = g_Stats g"
  by (simp_all add: removed_def)

lemma removed_ok:
  assumes "mutex_ok (g_mainCache g)" "mutex_ok (g_hotCache g)"
  shows "mutex_ok (g_mainCache (removed key g))" "mutex_ok (g_hotCache (removed key g))"
  using assms mutex.remove_sound [of "g_mainCache g" key] mutex.remove_sound [of "g_hotCache g" key]
  by (simp_all add: removed_def mutex_ops_def)

lemma held_removed:
  assumes "mutex_ok (g_mainCache g)" "mutex_ok (g_hotCache g)" "\<not> le64 (g_maxCacheBytes g) 0"
  shows "held (removed key g) k = (if k = key then None else held g k)"
  using assms mutex.remove_sound [of "g_mainCache g" key] mutex.remove_sound [of "g_hotCache g" key]
  by (simp add: removed_def held_def mutex_ops_def split: option.split)

definition owner_fails :: "('m, 'c, 'w, 'p) env \<Rightarrow> string \<Rightarrow> string \<Rightarrow> 'w \<Rightarrow> goerr option" where
  "owner_fails E name key w =
     (case PickPeer E key of
        (Some ow, True) \<Rightarrow> fst (Client_Remove (e_client E) ow (remove_req name key) w)
      | _ \<Rightarrow> None)"

text \<open>C5.  \<open>Remove\<close> returns.  If the owner of the key is a peer and its request fails, the error comes
  back, the owner alone was asked, and the key stays in the caches here and on the other peers.
  Otherwise the key is gone from both caches and every client of the ring has been told once, this
  instance excepted when it owns the key itself.\<close>

theorem group_Remove_reaches_all:
  assumes "e_cache E = mutex_ops" "fair (e_sched E)" "logs_remove E obs" "ring_of E cs"
    and "mutex_ok (g_mainCache g)" "mutex_ok (g_hotCache g)" "\<not> le64 (g_maxCacheBytes g) 0"
  shows "\<exists>err g' w'. group_Remove E Leader key (g, w) = Done err (g', w') \<and>
    (case owner_fails E (g_name g) key w of
       Some e \<Rightarrow> err = Some e \<and> g' = g \<and>
         (\<exists>ow\<in>set cs. obs w' = obs w @ [(ow, remove_req (g_name g) key)])
     | None \<Rightarrow> held g' key = None \<and>
         mset (obs w') = mset (obs w) + mset (map (\<lambda>p. (p, remove_req (g_name g) key))
           (filter (\<lambda>p. PickPeer E key \<noteq> (Some p, False)) cs)))"
proof -
  let ?q = "remove_req (g_name g) key"
  have rem: "group_Remove E Leader key (g, w) = Done (snd r) s"
    if "remove_flight E key (g, w) = Done r s" for r s
    using that by (simp add: group_Remove_def sf_Do_def exec case_prod_unfold)
  have peers: "\<exists>err w'. group_Remove E Leader key (g, w) = Done err (removed key g, w') \<and>
      mset (obs w') = mset (obs w1) + image_mset (\<lambda>p. (p, ?q)) (filter_mset (\<lambda>p. Some p \<noteq> ow) (mset cs))"
    if p: "PickPeer E key = (ow, remote)"
      and first: "(case ow of Some p \<Rightarrow> if remote then group_removeFromPeer E p key else ret None
            | None \<Rightarrow> ret None) (g, w) = Done None (g, w1)"
    for ow remote w1
  proof -
    let ?ps = "filter (\<lambda>p. Some p \<noteq> ow) (getAllPeers E)"
    have "\<exists>ys w'. go_all (e_sched E) (\<lambda>p. group_removeFromPeer E p key) ?ps (removed key g, w1) =
        Done ys (removed key g, w') \<and> mset (obs w') = mset (obs w1) + image_mset (\<lambda>p. (p, ?q)) (mset ?ps)"
      using removeFromPeer_logs [OF assms(3), of _ "removed key g" _ key]
      by (intro go_all_logs assms(2)) simp
    then obtain ys w' where w': "go_all (e_sched E) (\<lambda>p. group_removeFromPeer E p key) ?ps (removed key g, w1) =
        Done ys (removed key g, w')" "mset (obs w') = mset (obs w1) + image_mset (\<lambda>p. (p, ?q)) (mset ?ps)"
      by blast
    have "remove_flight E key (g, w) = Done (None, collect_errors ys) (removed key g, w')"
      using p first w'(1) by (simp add: remove_flight_def exec LocalRemove_exec [OF assms(1)])
    from rem [OF this] show ?thesis using w'(2) ring_of_peers [OF assms(4)] by simp
  qed
  have gone: "held (removed key g) key = None" using held_removed [OF assms(5-7)] by simp
  show ?thesis
  proof (cases "cs = []")
    case True
    then have "PickPeer E key = (None, False)" using ring_of_none assms(4) by blast
    with peers [OF this, of w] gone True show ?thesis by (auto simp: owner_fails_def exec)
  next
    case False
    then obtain ow where ow: "ow \<in> set cs" "PickPeer E key = (Some ow, \<not> is_self E ow)"
      using ring_of_owner [OF assms(4)] by blast
    obtain err w1 where call: "Client_Remove (e_client E) ow ?q w = (err, w1)" by fastforce
    then have w1: "obs w1 = obs w @ [(ow, ?q)]" using assms(3) unfolding logs_remove_def by (metis snd_conv)
    have first: "group_removeFromPeer E ow key (g, w) = Done err (g, w1)"
      using call by (simp add: removeFromPeer_exec)
    have split: "mset cs = add_mset ow (filter_mset (\<lambda>p. p \<noteq> ow) (mset cs))"
      using mset_owner_first [OF ring_of_distinct [OF assms(4)] ow(1)] by simp
    consider "is_self E ow" | "\<not> is_self E ow" "err = None" | e where "\<not> is_self E ow" "err = Some e"
      by blast
    then show ?thesis
    proof cases
      case 1
      then obtain err' w' where "group_Remove E Leader key (g, w) = Done err' (removed key g, w')"
        "mset (obs w') = mset (obs w) + image_mset (\<lambda>p. (p, ?q)) (filter_mset (\<lambda>p. p \<noteq> ow) (mset cs))"
        using peers [OF ow(2), of w] by (auto simp: exec)
      moreover have "(\<lambda>p. p \<noteq> ow) = (\<lambda>p. PickPeer E key \<noteq> (Some p, False))" using ow(2) 1 by auto
      ultimately show ?thesis using gone ow(2) 1 by (auto simp: owner_fails_def)
    next
      case 2
      have "mset (obs w1) + image_mset (\<lambda>p. (p, ?q)) (filter_mset (\<lambda>p. p \<noteq> ow) (mset cs)) =
          mset (obs w) + image_mset (\<lambda>p. (p, ?q)) (mset cs)"
        using w1 arg_cong [OF split, of "image_mset (\<lambda>p. (p, ?q))"] by simp
      moreover obtain err' w' where "group_Remove E Leader key (g, w) = Done err' (removed key g, w')"
        "mset (obs w') = mset (obs w1) + image_mset (\<lambda>p. (p, ?q)) (filter_mset (\<lambda>p. p \<noteq> ow) (mset cs))"
        using peers [OF ow(2), of w1] 2 first by auto
      ultimately show ?thesis using gone ow(2) 2 call by (auto simp: owner_fails_def)
    next
      case (3 e)
      then have f: "remove_flight E key (g, w) = Done (None, Some e) (g, w1)"
        using ow(2) first by (simp add: remove_flight_def exec)
      show ?thesis
        by (rule exI [of _ "Some e"], rule exI [of _ g], rule exI [of _ w1])
          (use rem [OF f] 3 ow w1 call in \<open>auto simp: owner_fails_def\<close>)
    qed
  qed
qed

definition seen_remove :: "(Info \<times> demo_request) list \<Rightarrow> (Info \<times> GetRequest) list" where
  "seen_remove w = List.map_filter (\<lambda>(p, r). case r of ReqRemove q \<Rightarrow> Some (p, q) | _ \<Rightarrow> None) w"

lemma peers_env_logs_remove: "logs_remove (peers_env err cs) seen_remove"
  by (simp add: logs_remove_def peers_env_def log_clients_def seen_remove_def map_filter_append map_filter_simps)

theorem group_Remove_reaches_all_witness:
  "\<exists>err g' w'. group_Remove (peers_env (\<lambda>_. Some (ErrString ''down'')) [demo_peer ''b'']) Leader ''k''
     (demo_group, []) = Done err (g', w') \<and> err = Some (ErrString ''down'') \<and> g' = demo_group"
proof -
  let ?E = "peers_env (\<lambda>_. Some (ErrString ''down'')) [demo_peer ''b'']"
  have ring: "ring_of ?E [demo_peer ''b'']" by (rule peers_env_ring) simp
  obtain c where "c \<in> set [demo_peer ''b'']" "PickPeer ?E ''k'' = (Some c, \<not> is_self ?E c)"
    using ring_of_owner [OF ring] by blast
  then have "owner_fails ?E (g_name demo_group) ''k'' [] = Some (ErrString ''down'')"
    by (simp add: owner_fails_def log_clients_def)
  then show ?thesis
    using group_Remove_reaches_all [OF peers_env_simps(1,4) peers_env_logs_remove ring demo_group_ok(1,2),
        of "''k''" "[]"]
    by (auto simp: demo_group_ok(3) le64_def)
qed

section \<open>RemoveKeys\<close>

definition owned_by :: "('m, 'c, 'w, 'p) env \<Rightarrow> 'c \<Rightarrow> string list \<Rightarrow> string list" where
  "owned_by E p keys = filter (\<lambda>k. PickPeer E k = (Some p, True)) keys"

lemma add_key_spec:
  assumes "distinct (map fst m)"
  shows "map fst (add_key p k m) = (if p \<in> set (map fst m) then map fst m else map fst m @ [p])"
    "map_of (add_key p k m) = (map_of m)(p \<mapsto> (case map_of m p of None \<Rightarrow> [] | Some ks \<Rightarrow> ks) @ [k])"
  using assms by (induction p k m rule: add_key.induct) (auto simp: fun_eq_iff)

lemma keysByOwner_spec:
  "distinct (map fst (keysByOwner E keys)) \<and>
   (\<forall>p. map_of (keysByOwner E keys) p = (if owned_by E p keys = [] then None else Some (owned_by E p keys)))"
proof (induction keys rule: rev_induct)
  case Nil
  then show ?case by (simp add: keysByOwner_def owned_by_def)
next
  case (snoc k keys)
  let ?m = "keysByOwner E keys"
  have step: "keysByOwner E (keys @ [k]) =
      (case PickPeer E k of (Some ow, True) \<Rightarrow> add_key ow k ?m | _ \<Rightarrow> ?m)"
    unfolding keysByOwner_def by simp
  show ?case
  proof (cases "\<exists>ow. PickPeer E k = (Some ow, True)")
    case True
    then obtain ow where ow: "PickPeer E k = (Some ow, True)" by blast
    have d: "distinct (map fst ?m)" using snoc by blast
    have "distinct (map fst (add_key ow k ?m))" using d by (auto simp: add_key_spec(1) [OF d])
    moreover have "map_of (add_key ow k ?m) p =
        (if owned_by E p (keys @ [k]) = [] then None else Some (owned_by E p (keys @ [k])))" for p
      using snoc ow by (auto simp: add_key_spec(2) [OF d] owned_by_def)
    ultimately show ?thesis by (simp add: step ow)
  next
    case False
    then have "keysByOwner E (keys @ [k]) = ?m"
      unfolding step by (auto split: prod.splits option.splits bool.splits)
    moreover have "owned_by E p (keys @ [k]) = owned_by E p keys" for p
      using False by (auto simp: owned_by_def)
    ultimately show ?thesis using snoc by simp
  qed
qed

text \<open>What a peer is told.\<close>

definition told :: "('m, 'c, 'w, 'p) env \<Rightarrow> string list \<Rightarrow> 'c \<Rightarrow> string list" where
  "told E keys p = (if owned_by E p keys = [] then keys else owned_by E p keys)"

lemma owner_in_ring:
  assumes "ring_of E cs" "owned_by E p keys \<noteq> []"
  shows "p \<in> set cs" "\<not> is_self E p"
proof -
  obtain k where k: "PickPeer E k = (Some p, True)"
    using assms(2) by (auto simp: owned_by_def filter_empty_conv)
  then have "cs \<noteq> []" using ring_of_none [of E k] assms(1) by auto
  from ring_of_owner [OF assms(1) this, of k] k show "p \<in> set cs" "\<not> is_self E p"
    by (metis option.inject prod.inject)+
qed

lemma removeKeys_requests_spec:
  assumes "ring_of E cs"
  shows "mset (removeKeys_requests E keys) =
    image_mset (\<lambda>p. (p, told E keys p)) (filter_mset (\<lambda>p. \<not> is_self E p) (mset cs))"
proof -
  let ?m = "keysByOwner E keys"
  let ?ps = "filter (\<lambda>p. \<not> is_self E p) cs"
  let ?rest = "filter (\<lambda>p. \<not> is_self E p \<and> p \<notin> set (map fst ?m)) (getAllPeers E)"
  have d: "distinct (map fst ?m)"
    and look: "map_of ?m p = (if owned_by E p keys = [] then None else Some (owned_by E p keys))" for p
    using keysByOwner_spec [of E keys] by blast+
  have own: "p \<in> set (map fst ?m) \<longleftrightarrow> owned_by E p keys \<noteq> []" for p
    using look [of p] map_of_eq_None_iff [of ?m p] by (simp split: if_splits)
  have pairs: "(p, ks) \<in> set ?m \<longleftrightarrow> owned_by E p keys \<noteq> [] \<and> ks = owned_by E p keys" for p ks
    using look [of p] map_of_eq_Some_iff [OF d, of p ks] by (auto split: if_splits)
  have dc: "distinct (getAllPeers E)"
    using mset_eq_imp_distinct_iff [OF ring_of_peers [OF assms]] ring_of_distinct [OF assms] by blast
  have req: "removeKeys_requests E keys = ?m @ map (\<lambda>p. (p, keys)) ?rest"
    by (simp add: removeKeys_requests_def Let_def)
  have "distinct (removeKeys_requests E keys)"
    unfolding req distinct_append
  proof (intro conjI)
    show "distinct ?m" using d by (simp add: distinct_map)
    show "distinct (map (\<lambda>p. (p, keys)) ?rest)" using dc by (simp add: distinct_map inj_on_def)
    show "set ?m \<inter> set (map (\<lambda>p. (p, keys)) ?rest) = {}" by force
  qed
  moreover have "distinct (map (\<lambda>p. (p, told E keys p)) ?ps)"
    using ring_of_distinct [OF assms] by (simp add: distinct_map inj_on_def)
  moreover have "set (removeKeys_requests E keys) = set (map (\<lambda>p. (p, told E keys p)) ?ps)"
  proof (rule set_eqI)
    fix x
    show "x \<in> set (removeKeys_requests E keys) \<longleftrightarrow> x \<in> set (map (\<lambda>p. (p, told E keys p)) ?ps)"
      using owner_in_ring [OF assms, of "fst x" keys] ring_of_set [OF assms] own [of "fst x"]
      unfolding req by (cases x) (auto simp: told_def pairs)
  qed
  ultimately have "mset (removeKeys_requests E keys) = mset (map (\<lambda>p. (p, told E keys p)) ?ps)"
    using set_eq_iff_mset_eq_distinct by blast
  then show ?thesis by simp
qed

definition logs_keys :: "('m, 'c, 'w, 'p) env \<Rightarrow> ('w \<Rightarrow> ('c \<times> RemoveKeysRequest) list) \<Rightarrow> bool" where
  "logs_keys E obs \<longleftrightarrow> (\<forall>p r w. obs (snd (Client_RemoveKeys (e_client E) p r w)) = obs w @ [(p, r)])"

definition keys_req :: "string \<Rightarrow> string list \<Rightarrow> RemoveKeysRequest" where
  "keys_req name keys = \<lparr>rk_Group = Some name, rk_Keys = keys\<rparr>"

lemma removeKeys_call_logs:
  assumes "logs_keys E obs" "fst s = g"
  shows "\<exists>y s'. removeKeys_call E t s = Done y s' \<and> fst s' = g \<and>
    obs (snd s') = obs (snd s) @ [(fst t, keys_req (g_name g) (snd t))]"
  using assms
  by (cases s) (simp add: removeKeys_call_def exec world_def logs_keys_def keys_req_def case_prod_unfold)

lemma each_LocalRemove:
  assumes "e_cache E = mutex_ops"
  shows "\<exists>r. each (group_LocalRemove E) keys (g, w) = Done r (fold removed keys g, w)"
proof (induction keys arbitrary: g)
  case Nil
  then show ?case by (simp add: exec)
next
  case (Cons key keys)
  from Cons [of "removed key g"] show ?case by (auto simp: exec LocalRemove_exec [OF assms])
qed

lemma fold_removed [simp]: "g_name (fold removed keys g) = g_name g"
  "g_maxCacheBytes (fold removed keys g) = g_maxCacheBytes g"
  by (induction keys arbitrary: g) simp_all

lemma held_fold_removed:
  assumes "mutex_ok (g_mainCache g)" "mutex_ok (g_hotCache g)" "\<not> le64 (g_maxCacheBytes g) 0"
  shows "held (fold removed keys g) k = (if k \<in> set keys then None else held g k)"
  using assms
proof (induction keys arbitrary: g)
  case (Cons key keys)
  then show ?case using removed_ok [of g key] held_removed [of g key k] by auto
qed simp

text \<open>C6.  \<open>RemoveKeys\<close> returns, whatever the peers answer; every key is gone from both caches here, and
  every peer but this instance gets one request.  A peer that owns none of the keys is told all of
  them; a peer that owns some of them is told these and no others, so that another of the keys stays
  in the hot cache of that peer.\<close>

theorem group_RemoveKeys_tells:
  assumes "e_cache E = mutex_ops" "fair (e_sched E)" "logs_keys E obs" "ring_of E cs"
    and "mutex_ok (g_mainCache g)" "mutex_ok (g_hotCache g)" "\<not> le64 (g_maxCacheBytes g) 0" "keys \<noteq> []"
  shows "\<exists>err g' w'. group_RemoveKeys E keys (g, w) = Done err (g', w') \<and>
    (\<forall>k. held g' k = (if k \<in> set keys then None else held g k)) \<and>
    mset (obs w') = mset (obs w) + mset (map (\<lambda>p. (p, keys_req (g_name g)
        (let own = filter (\<lambda>k. PickPeer E k = (Some p, True)) keys in if own = [] then keys else own)))
      (filter (\<lambda>p. \<not> is_self E p) cs))"
proof -
  let ?g = "counted (\<lambda>st. st\<lparr>RemovedKeys := AtomicInt_Add (of_nat (length keys)) (RemovedKeys st)\<rparr>)
    (counted (\<lambda>st. st\<lparr>RemoveKeysRequests := AtomicInt_Add 1 (RemoveKeysRequests st)\<rparr>) g)"
  let ?h = "fold removed keys ?g"
  obtain r where r: "each (group_LocalRemove E) keys (?g, w) = Done r (?h, w)"
    using each_LocalRemove [OF assms(1)] by blast
  have "\<exists>ys w'. go_all (e_sched E) (removeKeys_call E) (removeKeys_requests E keys) (?h, w) = Done ys (?h, w') \<and>
      mset (obs w') = mset (obs w) + image_mset (\<lambda>t. (fst t, keys_req (g_name g) (snd t)))
        (mset (removeKeys_requests E keys))"
    using removeKeys_call_logs [OF assms(3), of _ ?h] by (intro go_all_logs assms(2)) simp
  then obtain ys w' where w': "go_all (e_sched E) (removeKeys_call E) (removeKeys_requests E keys) (?h, w) = Done ys (?h, w')"
    "mset (obs w') = mset (obs w) + image_mset (\<lambda>t. (fst t, keys_req (g_name g) (snd t)))
        (mset (removeKeys_requests E keys))" by blast
  have "group_RemoveKeys E keys (g, w) = Done (collect_errors ys) (?h, w')"
    using assms(8) r w'(1) by (simp add: group_RemoveKeys_def exec)
  moreover have "held ?h k = (if k \<in> set keys then None else held g k)" for k
    using held_fold_removed [of ?g keys k] assms(5-7) by simp
  moreover have "mset (obs w') = mset (obs w) + mset (map (\<lambda>p. (p, keys_req (g_name g)
        (let own = filter (\<lambda>k. PickPeer E k = (Some p, True)) keys in if own = [] then keys else own)))
      (filter (\<lambda>p. \<not> is_self E p) cs))"
    unfolding w'(2) removeKeys_requests_spec [OF assms(4)] told_def owned_by_def Let_def
    by (simp add: image_mset.compositionality comp_def)
  ultimately show ?thesis by blast
qed

definition seen_keys :: "(Info \<times> demo_request) list \<Rightarrow> (Info \<times> RemoveKeysRequest) list" where
  "seen_keys w = List.map_filter (\<lambda>(p, r). case r of ReqRemoveKeys q \<Rightarrow> Some (p, q) | _ \<Rightarrow> None) w"

lemma peers_env_logs_keys: "logs_keys (peers_env err cs) seen_keys"
  by (simp add: logs_keys_def peers_env_def log_clients_def seen_keys_def map_filter_append map_filter_simps)

text \<open>Two peers, each the owner of one of two keys: neither is told the key of the other.\<close>

lemma demo_replicas:
  "replica_hash demo_hash ''b'' 0 = 0x33343730" "replica_hash demo_hash ''c'' 0 = 0x30666132"
  "demo_hash ''k'' = 0x6b" "demo_hash ''1zzz'' = 0x317a7a7a"
  by code_simp+

lemma demo_owners:
  fixes E :: "(mutexCache, Info, (Info \<times> demo_request) list, unit) env"
  assumes "e_picker E = picker_of sort_ring (\<lambda>_. 0) demo_opts (log_clients err) [p, q]"
    and "e_client E = log_clients err" "Address p = ''b''" "Address q = ''c''"
  shows "PickPeer E ''k'' = (Some q, \<not> IsSelf q)" "PickPeer E ''1zzz'' = (Some p, \<not> IsSelf p)"
proof -
  let ?R = "ring_set demo_hash 1 (Client_HashKey (log_clients err)) (set [p, q])"
  have R: "?R = {\<lparr>r_hash = 0x33343730, r_client = p\<rparr>, \<lparr>r_hash = 0x30666132, r_client = q\<rparr>}"
    by (auto simp: ring_set_def demo_replicas assms)
  have get: "\<exists>e. picker_Get (e_picker E) k = Some (r_client e) \<and> succ_entry (demo_hash k) ?R e" for k
    using sort_ring.picker_of_Get [of "[p, q]" demo_opts "\<lambda>_. 0" "log_clients err" k]
    by (simp add: demo_ring(1,2) assms(1))
  have pick: "PickPeer E k = (Some c, \<not> IsSelf c)" if "picker_Get (e_picker E) k = Some c" for k c
    using that by (auto simp: PickPeer_def picker_PickPeer_def picker_Get_def assms(2) split: if_splits)
  show "PickPeer E ''k'' = (Some q, \<not> IsSelf q)"
    using get [of "''k''"] pick [of "''k''"] unfolding R by (auto simp: succ_entry_def demo_replicas le64_def)
  show "PickPeer E ''1zzz'' = (Some p, \<not> IsSelf p)"
    using get [of "''1zzz''"] pick [of "''1zzz''"] unfolding R by (auto simp: succ_entry_def demo_replicas le64_def)
qed

theorem group_RemoveKeys_tells_witness:
  "\<exists>err g' w'. group_RemoveKeys (peers_env (\<lambda>_. None) [demo_peer ''b'', demo_peer ''c'']) [''k'', ''1zzz'']
     (demo_group, []) = Done err (g', w') \<and> held g' ''k'' = None \<and>
     mset (seen_keys w') = {#(demo_peer ''b'', keys_req ''g'' [''1zzz'']), (demo_peer ''c'', keys_req ''g'' [''k''])#}"
proof -
  let ?cs = "[demo_peer ''b'', demo_peer ''c'']"
  have ring: "ring_of (peers_env (\<lambda>_. None) ?cs) ?cs" by (rule peers_env_ring) simp
  have "demo_peer ''b'' \<noteq> demo_peer ''c''" by (simp add: demo_peer_def)
  moreover have "seen_keys [] = []" "g_name demo_group = ''g''"
    by (simp_all add: seen_keys_def map_filter_simps demo_group_def)
  moreover have "e_picker (peers_env (\<lambda>_. None) ?cs) =
      picker_of sort_ring (\<lambda>_. 0) demo_opts (log_clients (\<lambda>_. None)) ?cs"
    by (simp add: peers_env_def)
  note own = demo_owners [OF this peers_env_simps(2) demo_infos(3) demo_infos(3)]
  ultimately show ?thesis
    using group_RemoveKeys_tells [OF peers_env_simps(1,4) peers_env_logs_keys ring demo_group_ok(1,2),
        of "[''k'', ''1zzz'']" "[]"]
    by (auto simp: demo_group_ok(3) le64_def own)
qed

section \<open>Set without a logger\<close>

lemma each_crash:
  assumes "\<And>x s. x \<in> set xs \<Longrightarrow> (\<exists>y s'. f x s = Done y s') \<or> f x s = Crash m"
    and "z \<in> set xs" "\<And>s. f z s = Crash m"
  shows "each f xs s = Crash m"
  using assms(1,2)
proof (induction xs arbitrary: s)
  case (Cons x xs)
  show ?case
  proof (cases "\<exists>y s'. f x s = Done y s'")
    case True
    then obtain y s' where y: "f x s = Done y s'" by blast
    then have "z \<in> set xs" using Cons.prems(2) assms(3) by auto
    from Cons.IH [OF Cons.prems(1) this, of s'] show ?thesis using y by (simp add: exec)
  next
    case False
    then have "f x s = Crash m" using Cons.prems(1) [of x s] by auto
    then show ?thesis by (simp add: exec)
  qed
qed simp

text \<open>C9.  \<open>Set\<close> needs a logger: when this instance owns the key, was given no logger, and some peer of
  the ring fails, \<open>Set\<close> brings the process down with a nil dereference in the goroutine of that
  peer.\<close>

theorem group_Set_nil_logger:
  assumes "e_cache E = mutex_ops" "fair (e_sched E)" "ring_of E cs" "mutex_ok (g_mainCache g)"
    and "\<not> le64 (g_maxCacheBytes g) 0" "key \<noteq> []"
    and "PickPeer E key = (Some ow, False)" "p \<in> set cs" "\<not> is_self E p"
    and "\<forall>r w. fst (Client_Set (e_client E) p r w) \<noteq> None" "e_Logger E = None"
  shows "group_Set E Leader key vl expire hot (g, w) = Crash nil_deref"
proof -
  have ow: "ow \<in> set cs" "is_self E ow"
    using ring_of_owner [OF assms(3), of key] assms(7,8) by (metis empty_iff list.set(1) option.inject prod.inject)+
  obtain ts where ts: "set_targets E (Some ow) = Ret ts"
    "filter_mset (\<lambda>p. \<not> is_self E p) (mset cs) = mset ts"
    using set_targets_ring [OF assms(3) ow(1), of key] assms(7) ow(2) by auto
  have p: "p \<in> set ts" using assms(8,9) by (metis (mono_tags, lifting) mem_Collect_eq set_mset_filter set_mset_mset ts(2))
  obtain m where m: "mutex_Add key (ByteViewWithExpire vl expire) (g_mainCache g) = Some m"
    using mutex_Add_contents [OF assms(4)] by blast
  let ?f = "set_goroutine E key vl expire"
  have f: "?f q s = (case fst (Client_Set (e_client E) q (set_req (g_name (fst s)) key vl expire) (snd s)) of
      None \<Rightarrow> Done () (fst s, snd (Client_Set (e_client E) q (set_req (g_name (fst s)) key vl expire) (snd s)))
    | Some e \<Rightarrow> Crash nil_deref)" for q s
    using setPeer_exec [of E q key vl expire "fst s" "snd s"] assms(11)
    by (simp add: set_goroutine_def exec log_error_def split: option.split)
  have "?f p s = Crash nil_deref" for s
    using assms(10) f [of p s] by (auto split: option.splits)
  then have "go_all (e_sched E) ?f ts s = Crash nil_deref" for s
    unfolding go_all_def
    by (intro each_crash [where z = p]) (auto simp: f set_scheduled [OF assms(2)] p split: option.split)
  then have "set_flight E key vl expire (g, w) = Crash nil_deref"
    using assms(1,7) m ts(1) by (simp add: set_flight_def exec cache_add_def cache_remove_def mutex_ops_def)
  then show ?thesis using assms(5,6) by (simp add: group_Set_def sf_Do_def exec)
qed

theorem group_Set_nil_logger_witness:
  "group_Set ((peers_env (\<lambda>_. Some (ErrString ''down'')) [demo_peer ''b'', \<lparr>Address = ''c'', IsSelf = True\<rparr>])
       \<lparr>e_Logger := None\<rparr>) Leader ''k'' (Some ''v'') zero_time False (demo_group, []) = Crash nil_deref"
proof -
  let ?cs = "[demo_peer ''b'', \<lparr>Address = ''c'', IsSelf = True\<rparr>]"
  let ?F = "peers_env (\<lambda>_. Some (ErrString ''down'')) ?cs"
  let ?E = "?F\<lparr>e_Logger := None\<rparr>"
  have "ring_of ?F ?cs" by (rule peers_env_ring) simp
  then have ring: "ring_of ?E ?cs" unfolding ring_of_def by simp
  have pk: "e_picker ?E = picker_of sort_ring (\<lambda>_. 0) demo_opts (log_clients (\<lambda>_. Some (ErrString ''down''))) ?cs"
    by (simp add: peers_env_def)
  have own: "PickPeer ?E ''k'' = (Some \<lparr>Address = ''c'', IsSelf = True\<rparr>, False)"
    using demo_owners(1) [OF pk] by simp
  show ?thesis
    by (rule group_Set_nil_logger [OF _ _ ring demo_group_ok(1) _ _ own, of "demo_peer ''b''"])
      (simp_all add: demo_group_ok(3) le64_def log_clients_def fair_def)
qed

section \<open>Errors of the owner\<close>

text \<open>The errors of a peer that \<open>Get\<close> reports; after any other it asks its own getter.\<close>

definition final_error :: "goerr \<Rightarrow> bool" where
  "final_error e \<longleftrightarrow> Is_Canceled e \<or> Is_ErrNotFound e \<or> Is_ErrRemoteCall e"

lemma getFromPeer_error:
  assumes "Client_Get (e_client E) p (remove_req (g_name g) key) empty_response w = (Some e, res, w')"
  shows "group_getFromPeer E p key (g, w) = Done (None, Some e) (g, w')"
  using assms by (simp add: group_getFromPeer_def exec world_def get_call_def remove_req_def)

text \<open>The world after a failed call of the owner has been logged, if there is a logger.\<close>

definition after_log :: "('m, 'c, 'w, 'p) env \<Rightarrow> 'c \<Rightarrow> string \<Rightarrow> goerr \<Rightarrow> 'w \<Rightarrow> 'w" where
  "after_log E p key e w =
     (case e_Logger E of None \<Rightarrow> w | Some log \<Rightarrow> log (Address (Client_PeerInfo (e_client E) p)) key e w)"

lemma load_from_peer_error:
  assumes "idle_clock E"
    and "Client_Get (e_client E) p (remove_req (g_name g) key) empty_response w = (Some e, res, w')"
  shows "\<exists>f. load_from_peer E p key (g, w) =
    (if final_error e then Done (Some (None, Some e)) (counted f g, w')
     else Done (if e_ctxErr E (after_log E p key e w') \<noteq> None then Some (None, Some e) else None)
            (counted f g, after_log E p key e w'))"
proof -
  have clock: "world (e_now E) (h, v) = Done (fst (e_now E v)) (h, v)" for h v
    using assms(1) by (simp add: world_def idle_clock_def case_prod_unfold)
  have twice: "counted f (counted f' g) = counted (f \<circ> f') g" for f f'
    by (simp add: counted_def)
  have logged: "(if e_Logger E \<noteq> None then log_error E p key e else ret ()) (h, v) = Done () (h, after_log E p key e v)" for h v
    by (cases "e_Logger E") (simp_all add: log_error_def world_def after_log_def ret_def)
  show ?thesis
    using logged
    by (auto simp: load_from_peer_def exec clock getFromPeer_error [OF assms(2)] observe_latency_def
        peer_outcome_def peer_failed_def final_error_def twice)
qed

text \<open>C8.  What an error of the owner leads to, when neither cache holds the key, with the default caches
  and a clock whose reading changes nothing: a \<open>Get\<close> whose owner answers that the key is not found, that
  its getter failed or that the context was cancelled reports that error and does not ask its own
  getter.  Any other error is logged, if there is a logger; if the context of the caller has ended by
  then, the error of the owner is reported and the getter is not asked; otherwise the getter is asked,
  once, and what it answers is reported.\<close>

theorem group_Get_owner_error:
  assumes "e_cache E = mutex_ops" "idle_clock E"
    and "mutex_ok (g_mainCache g)" "mutex_ok (g_hotCache g)" "held g key = None"
    and "PickPeer E key = (Some p, True)"
    and "Client_Get (e_client E) p (remove_req (g_name g) key) empty_response w = (Some e, res, w')"
    and "e_getter E key dest (after_log E p key e w') = (err, dest', w'')"
  shows "\<exists>g'. group_Get E Leader key (Some dest) (g, w) =
    (if final_error e then Done (Some e, Some dest) (g', w')
     else if e_ctxErr E (after_log E p key e w') \<noteq> None then Done (Some e, Some dest) (g', after_log E p key e w')
     else Done (err, Some dest') (g', w''))"
proof -
  let ?w1 = "after_log E p key e w'"
  let ?gets = "\<lambda>st. st\<lparr>Gets := AtomicInt_Add 1 (Gets st)\<rparr>" and ?loads = "\<lambda>st. st\<lparr>Loads := AtomicInt_Add 1 (Loads st)\<rparr>"
  let ?dedup = "\<lambda>st. st\<lparr>LoadsDeduped := AtomicInt_Add 1 (LoadsDeduped st)\<rparr>"
  obtain g1 where g1: "group_lookupCache E key (counted ?gets g, w) = Done None (g1, w)"
    "same_but_caches (counted ?gets g) g1" "held g1 key = None"
    using lookup_miss [OF assms(1,2), of "counted ?gets g" key w] assms(3-5) by auto
  obtain g2 where g2: "group_lookupCache E key (counted ?loads g1, w) = Done None (g2, w)"
    "same_but_caches (counted ?loads g1) g2" "held g2 key = None"
    using lookup_miss [OF assms(1,2), of "counted ?loads g1" key w] g1(2,3) by (auto simp: same_but_caches_def)
  let ?g3 = "counted ?dedup g2"
  have "g_name ?g3 = g_name g" using g1(2) g2(2) by (simp add: same_but_caches_def)
  then obtain f where f: "load_from_peer E p key (?g3, w) =
      (if final_error e then Done (Some (None, Some e)) (counted f ?g3, w')
       else Done (if e_ctxErr E ?w1 \<noteq> None then Some (None, Some e) else None) (counted f ?g3, ?w1))"
    using load_from_peer_error [OF assms(2), of p ?g3 key w e res w'] assms(7) by auto
  note run = group_Get_def group_load_def load_flight_def load_missed_def load_result_def get_loaded_def exec
  show ?thesis
  proof (cases "final_error e \<or> e_ctxErr E ?w1 \<noteq> None")
    case True
    then show ?thesis using f g1(1) g2(1) by (cases "final_error e") (simp_all add: run assms(6))
  next
    case False
    have ok: "mutex_ok (g_mainCache g2)" using g2(2) by (simp add: same_but_caches_def)
    obtain m where m: "mutex_Add key (Sink_View dest') (g_mainCache g2) = Some m"
      using mutex_Add_contents [OF ok] by blast
    have get: "world (getter_call E key dest) (h, ?w1) = Done (err, dest') (h, w'')" for h
      by (simp add: world_def getter_call_def assms(8))
    have pop: "\<exists>h. group_populateCache E key (Sink_View dest') Main (counted f' (counted f ?g3), w'') = Done () (h, w'')" for f'
      using m assms(1) by (simp add: group_populateCache_def exec cache_add_def mutex_ops_def)
    show ?thesis
    proof (cases err)
      case None
      obtain h where "group_populateCache E key (Sink_View dest') Main
          (counted (\<lambda>st. st\<lparr>LocalLoads := AtomicInt_Add 1 (LocalLoads st)\<rparr>) (counted f ?g3), w'') = Done () (h, w'')"
        using pop by blast
      then show ?thesis
        using f g1(1) g2(1) False None by (simp add: run assms(6) load_locally_def group_getLocally_def get loaded_locally_def)
    next
      case (Some e')
      then show ?thesis
        using f g1(1) g2(1) False Some by (simp add: run assms(6) load_locally_def group_getLocally_def get loaded_locally_def)
    qed
  qed
qed

theorem group_Get_owner_error_witness:
  "(\<exists>g'. group_Get ((peers_env (\<lambda>_. Some (ErrString ''down'')) [demo_peer ''b''])\<lparr>e_Logger := None\<rparr>)
      Leader ''k'' (Some (byteViewSink zero_view)) (demo_group, []) =
    Done (Some (ErrString ''none''), Some (byteViewSink zero_view)) (g', [])) \<and>
   (\<exists>g'. group_Get ((peers_env (\<lambda>_. Some (ErrString ''down'')) [demo_peer ''b''])
        \<lparr>e_Logger := Some (\<lambda>a k e w. [(demo_peer a, ReqRemove (remove_req [] k))]), e_ctxErr := (\<lambda>w. if w = [] then None else Some ContextDeadlineExceeded)\<rparr>)
      Leader ''k'' (Some (byteViewSink zero_view)) (demo_group, []) =
    Done (Some (ErrString ''down''), Some (byteViewSink zero_view)) (g', [(demo_peer ''b'', ReqRemove (remove_req [] ''k''))]))"
proof -
  let ?F = "peers_env (\<lambda>_. Some (ErrString ''down'')) [demo_peer ''b'']"
  let ?E = "?F\<lparr>e_Logger := None\<rparr>"
  let ?L = "?F\<lparr>e_Logger := Some (\<lambda>a k e w. [(demo_peer a, ReqRemove (remove_req [] k))]), e_ctxErr := (\<lambda>w. if w = [] then None else Some ContextDeadlineExceeded)\<rparr>"
  have ring: "ring_of ?F [demo_peer ''b'']" by (rule peers_env_ring) simp
  have r: "ring_of ?E [demo_peer ''b'']" "ring_of ?L [demo_peer ''b'']"
    using ring unfolding ring_of_def by simp_all
  have own: "PickPeer ?E ''k'' = (Some (demo_peer ''b''), True)" "PickPeer ?L ''k'' = (Some (demo_peer ''b''), True)"
    using ring_of_owner [OF r(1), of "''k''"] ring_of_owner [OF r(2), of "''k''"] by simp_all
  have "mutex_contents (newMutexCache n) j = None" for n j
    by (simp add: mutex_contents_def newMutexCache_def mutex_entries_def)
  then have miss: "held demo_group ''k'' = None" by (simp add: held_def demo_group_def)
  have soft: "\<not> final_error (ErrString ''down'')" by (simp add: final_error_def)
  show ?thesis
    using group_Get_owner_error [OF _ _ demo_group_ok(1,2) miss own(1), of "[]" "ErrString ''down''"
        empty_response "[]" "byteViewSink zero_view" "Some (ErrString ''none'')" "byteViewSink zero_view" "[]"]
      group_Get_owner_error [OF _ _ demo_group_ok(1,2) miss own(2), of "[]" "ErrString ''down''"
        empty_response "[]" "byteViewSink zero_view" "Some (ErrString ''none'')" "byteViewSink zero_view"
        "[(demo_peer ''b'', ReqRemove (remove_req [] ''k''))]"] soft
    by (simp add: idle_clock_def peers_env_def log_clients_def after_log_def)
qed

end
