(* ===== verification/GroupSizes.thy ===== *)
theory GroupSizes
  imports GroupLaws
begin

text \<open>The limits \<open>ResetCacheSize\<close> of src/group.go gives the two caches of a group.\<close>

section \<open>Sizes\<close>

lemma size_ints:
  "sint (hot_size mx) = (if 0 \<le> sint mx then sint mx div 8 else 0)"
  "sint (main_size mx) = (if 0 \<le> sint mx then 7 * (sint mx div 8) else 0)"
proof -
  have bound: "sint mx < 2 ^ 63" using sint_lt [of mx] by simp
  have q: "sint (quot64 mx 8) = sint mx div 8" if "0 \<le> sint mx"
  proof -
    have "sint mx sdiv 8 = sint mx div 8" using that
      by (cases "sint mx = 0") (simp_all add: signed_divide_int_def)
    then show ?thesis using that bound by (simp add: quot64_def sint64_of_int)
  qed
  show h: "sint (hot_size mx) = (if 0 \<le> sint mx then sint mx div 8 else 0)"
    using q by (simp add: hot_size_def le64_def)
  have "sint (quot64 mx 8 * 7) = 7 * (sint mx div 8)" if "0 \<le> sint mx"
  proof -
    have "quot64 mx 8 * 7 = word_of_int (sint (quot64 mx 8)) * 7" by simp
    then have e: "quot64 mx 8 * 7 = word_of_int (7 * (sint mx div 8))" unfolding q [OF that] by simp
    have "7 * (sint mx div 8) < 2 ^ 63" using bound that by simp
    then show ?thesis unfolding e using that by (intro sint64_of_int) simp_all
  qed
  then show "sint (main_size mx) = (if 0 \<le> sint mx then 7 * (sint mx div 8) else 0)"
    by (simp add: main_size_def hot_size_def le64_def)
qed

text \<open>C10.  \<open>ResetCacheSize\<close> splits its bytes seven to one between the main and the hot cache and never
  hands out more than it was given; but a size of one to seven bytes, which leaves caching on, is
  rounded to the limit 0 for both caches, and a cache with limit 0 never evicts: each value stored is
  kept beside all the others, whatever its size.\<close>

theorem group_ResetCacheSize_limits:
  assumes "e_cache E = mutex_ops" "\<forall>n. e_CacheFactory E n = (newMutexCache n, None)"
    and "group_ResetCacheSize E mx g = (g', err)"
  shows "err = None \<and> g_maxCacheBytes g' = mx \<and>
    sint (m_maxBytes (mc (g_mainCache g'))) = (if 0 \<le> sint mx then 7 * (sint mx div 8) else 0) \<and>
    sint (m_maxBytes (mc (g_hotCache g'))) = (if 0 \<le> sint mx then sint mx div 8 else 0) \<and>
    (0 < sint mx \<and> sint mx < 8 \<longrightarrow>
       (\<exists>g''. group_populateCache E key v Main (g', w) = Done () (g'', w) \<and>
          m_maxBytes (mc (g_mainCache g')) = 0 \<and> held g'' key = Some v))"
proof -
  have g': "err = None" "g_maxCacheBytes g' = mx" "g_mainCache g' = newMutexCache (main_size mx)"
    "g_hotCache g' = newMutexCache (hot_size mx)"
    using assms(2,3) by (auto simp: group_ResetCacheSize_def Let_def)
  have small: "\<exists>g''. group_populateCache E key v Main (g', w) = Done () (g'', w) \<and>
      m_maxBytes (mc (g_mainCache g')) = 0 \<and> held g'' key = Some v" if "0 < sint mx" "sint mx < 8"
  proof -
    have i: "sint (main_size mx) = 0" using size_ints(2) [of mx] that by simp
    have "main_size mx = word_of_int (sint (main_size mx))" by simp
    then have z: "main_size mx = 0" unfolding i by simp
    then have "mutex_ok (g_mainCache g')" using g'(3) by (simp add: mutex_ok_new le64_def)
    moreover have l: "m_maxBytes (mc (g_mainCache g')) = 0" using g'(3) z by (simp add: newMutexCache_def)
    ultimately obtain m where "mutex_Add key v (g_mainCache g') = Some m" "mutex_contents m key = Some v"
      using mutex_Add_holds by blast
    then show ?thesis
      using assms(1) g'(2) that(1) l
      by (simp add: group_populateCache_def exec cache_add_def mutex_ops_def le64_def held_def)
  qed
  have limits: "m_maxBytes (mc (g_mainCache g')) = main_size mx" "m_maxBytes (mc (g_hotCache g')) = hot_size mx"
    by (simp_all add: g' newMutexCache_def)
  show ?thesis
  proof (intro conjI impI)
    show "sint (m_maxBytes (mc (g_mainCache g'))) = (if 0 \<le> sint mx then 7 * (sint mx div 8) else 0)"
      "sint (m_maxBytes (mc (g_hotCache g'))) = (if 0 \<le> sint mx then sint mx div 8 else 0)"
      unfolding limits by (rule size_ints)+
    assume "0 < sint mx \<and> sint mx < 8"
    then show "\<exists>g''. group_populateCache E key v Main (g', w) = Done () (g'', w) \<and>
        m_maxBytes (mc (g_mainCache g')) = 0 \<and> held g'' key = Some v"
      using small by blast
  qed (rule g'(1,2))+
qed

theorem group_ResetCacheSize_limits_witness:
  "\<exists>g' g''. group_ResetCacheSize demo_env 7 demo_group = (g', None) \<and>
     group_populateCache demo_env ''k'' (ByteViewWithExpire (Some ''longer than seven'') zero_time) Main
       (g', 0) = Done () (g'', 0) \<and>
     held g'' ''k'' = Some (ByteViewWithExpire (Some ''longer than seven'') zero_time)"
proof -
  obtain g' err where r: "group_ResetCacheSize demo_env 7 demo_group = (g', err)" by fastforce
  have "e_cache demo_env = mutex_ops" "\<forall>n. e_CacheFactory demo_env n = (newMutexCache n, None)"
    by (simp_all add: demo_env_def)
  note limits = group_ResetCacheSize_limits [OF this r, of "''k''"
      "ByteViewWithExpire (Some ''longer than seven'') zero_time" 0]
  have "0 < sint (7 :: int64)" "sint (7 :: int64) < 8" by simp_all
  with limits obtain g'' where "err = None"
    "group_populateCache demo_env ''k'' (ByteViewWithExpire (Some ''longer than seven'') zero_time) Main
       (g', 0) = Done () (g'', 0)"
    "held g'' ''k'' = Some (ByteViewWithExpire (Some ''longer than seven'') zero_time)" by blast
  with r show ?thesis by blast
qed

end
