(* ===== verification/Instance.thy ===== *)
theory Instance
  imports GroupLaws
begin

text \<open>
  An instance, src/instance.go: its groups by name, the picker over its peers and its options.  The
  methods take the mutex of the instance for the whole of what they do with it, so each is one step.
  The transport is a reference with the table of the methods of the interface; the runtime (the clock, the scheduler,
  the order of maps, the default hash, the sort, the protobuf library) is a record of parameters, and
  so is what the registration of metrics answers, which is the work of another module.
\<close>

section \<open>Clients of a ring\<close>

text \<open>The clients in a picker: the placeholder for this instance, or a client of the transport.\<close>

datatype 'c client = SelfClient NoOpClient | PeerClient 'c

definition client_ops :: "('c, 'w) Client \<Rightarrow> ('c client, 'w) Client" where
  "client_ops cl =
     \<lparr>Client_Get = (\<lambda>c. case c of SelfClient n \<Rightarrow> NoOpClient_Get n | PeerClient p \<Rightarrow> Client_Get cl p),
      Client_Remove = (\<lambda>c. case c of SelfClient n \<Rightarrow> NoOpClient_Remove n | PeerClient p \<Rightarrow> Client_Remove cl p),
      Client_Set = (\<lambda>c. case c of SelfClient n \<Rightarrow> NoOpClient_Set n | PeerClient p \<Rightarrow> Client_Set cl p),
      Client_RemoveKeys =
        (\<lambda>c. case c of SelfClient n \<Rightarrow> NoOpClient_RemoveKeys n | PeerClient p \<Rightarrow> Client_RemoveKeys cl p),
      Client_PeerInfo = (\<lambda>c. case c of SelfClient n \<Rightarrow> NoOpClient_PeerInfo n | PeerClient p \<Rightarrow> Client_PeerInfo cl p),
      Client_HashKey = (\<lambda>c. case c of SelfClient n \<Rightarrow> NoOpClient_HashKey n | PeerClient p \<Rightarrow> Client_HashKey cl p)\<rparr>"

section \<open>State\<close>

type_synonym ('w, 'p) getter = "string \<Rightarrow> 'p sink \<Rightarrow> 'w \<Rightarrow> goerr option \<times> 'p sink \<times> 'w"
type_synonym 'w logger = "string \<Rightarrow> string \<Rightarrow> goerr \<Rightarrow> 'w \<Rightarrow> 'w"

text \<open>The methods of a transport.  Transports are shared, so they are references into the world; the
  argument of \<open>Register\<close> is the address of the instance.\<close>

record ('t, 'c, 'w) Transport =
  T_New :: "'t \<Rightarrow> 'w \<Rightarrow> 't \<times> 'w"
  T_Register :: "'t \<Rightarrow> nat \<Rightarrow> 'w \<Rightarrow> 'w"
  T_NewClient :: "'t \<Rightarrow> Info \<Rightarrow> 'w \<Rightarrow> ('c \<times> goerr option) \<times> 'w"
  T_ListenAndServe :: "'t \<Rightarrow> string \<Rightarrow> ('w, goerr option) act"
  T_Shutdown :: "'t \<Rightarrow> ('w, goerr option) act"
  T_ListenAddress :: "'t \<Rightarrow> ('w, string) act"

record ('m, 't, 'w) InstanceOptions =
  io_HashFn :: "hash_fn option"
  io_Replicas :: int
  io_Logger :: "'w logger option"
  io_Transport :: "'t option"
  io_CacheFactory :: "(int64 \<Rightarrow> 'm \<times> goerr option) option"
  io_MetricProvider :: "(string \<Rightarrow> goerr option) option"

record ('m, 'c, 't, 'w, 'p) Instance =
  i_self :: nat
  i_groups :: "string \<Rightarrow> ('m group \<times> ('w, 'p) getter) option"
  i_picker :: "'c client Picker"
  i_HashFn :: "hash_fn option"
  i_Replicas :: int
  i_Logger :: "'w logger option"
  i_Transport :: 't
  i_CacheFactory :: "int64 \<Rightarrow> 'm \<times> goerr option"
  i_MetricProvider :: "(string \<Rightarrow> goerr option) option"

record ('m, 'c, 't, 'w, 'p) runtime =
  rt_cache :: "'m Cache"
  rt_nilCache :: 'm
  rt_mutexCache :: "mutexCache \<Rightarrow> 'm"
  rt_client :: "('c, 'w) Client"
  rt_transport :: "('t, 'c, 'w) Transport"
  rt_httpTransport :: "'w logger option \<Rightarrow> 'w \<Rightarrow> 't \<times> 'w"
  rt_fnv1 :: hash_fn
  rt_sort :: "'c client ring_entry list \<Rightarrow> 'c client ring_entry list"
  rt_order :: "'c client list \<Rightarrow> 'c client list"
  rt_sched :: schedule
  rt_proto :: "'p proto"
  rt_now :: "'w \<Rightarrow> gotime \<times> 'w"
  rt_ctxErr :: "'w \<Rightarrow> goerr option"

text \<open>What a group of the instance is given.\<close>

definition env_of ::
  "('m, 'c, 't, 'w, 'p) runtime \<Rightarrow> ('m, 'c, 't, 'w, 'p) Instance \<Rightarrow> ('w, 'p) getter \<Rightarrow>
   ('m, 'c client, 'w, 'p) env" where
  "env_of rt i getter =
     \<lparr>e_cache = rt_cache rt, e_CacheFactory = i_CacheFactory i, e_client = client_ops (rt_client rt),
      e_picker = i_picker i, e_order = rt_order rt, e_sched = rt_sched rt, e_getter = getter,
      e_proto = rt_proto rt, e_now = rt_now rt, e_ctxErr = rt_ctxErr rt, e_Logger = i_Logger i\<rparr>"

section \<open>Operations\<close>

text \<open>\<open>New\<close>; \<open>self\<close> is the address of the new instance.\<close>

definition instance_New ::
  "('m, 'c, 't, 'w, 'p) runtime \<Rightarrow> nat \<Rightarrow> ('m, 't, 'w) InstanceOptions \<Rightarrow> 'w \<Rightarrow>
   ('m, 'c, 't, 'w, 'p) Instance \<times> 'w" where
  "instance_New rt self opts w =
     (let factory = (case io_CacheFactory opts of
                       None \<Rightarrow> (\<lambda>maxBytes. (rt_mutexCache rt (newMutexCache maxBytes), None))
                     | Some f \<Rightarrow> f);
          (transport, w1) = (case io_Transport opts of
                               None \<Rightarrow> rt_httpTransport rt (io_Logger opts) w
                             | Some t \<Rightarrow> (t, w))
      in (\<lparr>i_self = self, i_groups = (\<lambda>_. None),
           i_picker = NewPicker (rt_fnv1 rt) \<lparr>HashFn = io_HashFn opts, Replicas = io_Replicas opts\<rparr>,
           i_HashFn = io_HashFn opts, i_Replicas = io_Replicas opts, i_Logger = io_Logger opts,
           i_Transport = transport, i_CacheFactory = factory,
           i_MetricProvider = io_MetricProvider opts\<rparr>,
          T_Register (rt_transport rt) transport self w1))"

text \<open>The loop of \<open>SetPeers\<close>: the picker filled so far and whether this instance was in the list.\<close>

fun set_peers_loop ::
  "('m, 'c, 't, 'w, 'p) runtime \<Rightarrow> 't \<Rightarrow> Info list \<Rightarrow> 'c client Picker \<Rightarrow> bool \<Rightarrow> 'w \<Rightarrow>
   (goerr + 'c client Picker \<times> bool) \<times> 'w" where
  "set_peers_loop rt t [] picker includesSelf w = (Inr (picker, includesSelf), w)"
| "set_peers_loop rt t (p # peers) picker includesSelf w =
     (let add = (\<lambda>c. picker_Add (rt_sort rt) (client_ops (rt_client rt)) c picker)
      in if IsSelf p
         then set_peers_loop rt t peers
                (add (SelfClient \<lparr>NoOpClient_Info = \<lparr>Address = Address p, IsSelf = True\<rparr>\<rparr>)) True w
         else case T_NewClient (rt_transport rt) t p w of
                ((client, Some err), w') \<Rightarrow> (Inl (ErrWrap ''during Transport.NewClient(): '' err), w')
              | ((client, None), w') \<Rightarrow> set_peers_loop rt t peers (add (PeerClient client)) includesSelf w')"

definition missing_self :: goerr where
  "missing_self = ErrString
     ''peer.Info{IsSelf: true} missing; peer list must contain the address for this instance''"

definition instance_SetPeers ::
  "('m, 'c, 't, 'w, 'p) runtime \<Rightarrow> Info list \<Rightarrow> ('m, 'c, 't, 'w, 'p) Instance \<times> 'w \<Rightarrow>
   goerr option \<times> ('m, 'c, 't, 'w, 'p) Instance \<times> 'w" where
  "instance_SetPeers rt peers s =
     (case s of (i, w) \<Rightarrow>
      case set_peers_loop rt (i_Transport i) peers
             (NewPicker (rt_fnv1 rt) \<lparr>HashFn = i_HashFn i, Replicas = i_Replicas i\<rparr>) False w of
        (Inl err, w') \<Rightarrow> (Some err, i, w')
      | (Inr (picker, includesSelf), w') \<Rightarrow>
          if \<not> includesSelf then (Some missing_self, i, w') else (None, i\<lparr>i_picker := picker\<rparr>, w'))"

definition instance_PickPeer ::
  "('m, 'c, 't, 'w, 'p) runtime \<Rightarrow> ('m, 'c, 't, 'w, 'p) Instance \<Rightarrow> string \<Rightarrow> 'c client option \<times> bool" where
  "instance_PickPeer rt i key = picker_PickPeer (client_ops (rt_client rt)) (i_picker i) key"

definition instance_getAllPeers ::
  "('m, 'c, 't, 'w, 'p) runtime \<Rightarrow> ('m, 'c, 't, 'w, 'p) Instance \<Rightarrow> 'c client list" where
  "instance_getAllPeers rt i = picker_GetAll (rt_order rt) (i_picker i)"

text \<open>\<open>NewGroup\<close>: the group is in the map before its metrics are registered.\<close>

definition instance_NewGroup ::
  "('m, 'c, 't, 'w, 'p) runtime \<Rightarrow> string \<Rightarrow> int64 \<Rightarrow> ('w, 'p) getter option \<Rightarrow>
   ('m, 'c, 't, 'w, 'p) Instance \<Rightarrow> (goerr + string) \<times> ('m, 'c, 't, 'w, 'p) Instance" where
  "instance_NewGroup rt name cacheBytes getter i =
     (case getter of
        None \<Rightarrow> (Inl (ErrString ''NewGroup(): provided Getter cannot be nil''), i)
      | Some get \<Rightarrow>
          if i_groups i name \<noteq> None
          then (Inl (ErrString (''duplicate registration of group '' @ [CHR 0x27] @ name @ [CHR 0x27])), i)
          else
            case group_ResetCacheSize (env_of rt i get) cacheBytes
                   \<lparr>g_name = name, g_maxCacheBytes = cacheBytes, g_mainCache = rt_nilCache rt,
                    g_hotCache = rt_nilCache rt, g_Stats = zero_stats\<rparr> of
              (g, Some err) \<Rightarrow> (Inl err, i)
            | (g, None) \<Rightarrow>
                let i' = i\<lparr>i_groups := (i_groups i)(name := Some (g, get))\<rparr>
                in case i_MetricProvider i of
                     None \<Rightarrow> (Inr name, i')
                   | Some register \<Rightarrow>
                       (case register name of
                          None \<Rightarrow> (Inr name, i')
                        | Some err \<Rightarrow>
                            (Inl (ErrWrap (''failed to register metrics for group '' @ [CHR 0x27] @ name @
                                    [CHR 0x27] @ '': '') err), i')))"

text \<open>A value of an interface type: the nil interface, or a pointer, nil or not, with its type.
  \<open>GetGroup\<close> returns the pointer it finds in the map, nil for an unknown name, as an interface.\<close>

datatype 'a iface = NilIface | Iface "'a option"

definition instance_GetGroup ::
  "('m, 'c, 't, 'w, 'p) Instance \<Rightarrow> string \<Rightarrow> ('m group \<times> ('w, 'p) getter) iface" where
  "instance_GetGroup i name = Iface (i_groups i name)"

definition instance_RemoveGroup ::
  "string \<Rightarrow> ('m, 'c, 't, 'w, 'p) Instance \<Rightarrow> ('m, 'c, 't, 'w, 'p) Instance" where
  "instance_RemoveGroup name i = i\<lparr>i_groups := (i_groups i)(name := None)\<rparr>"

section \<open>Peers\<close>

text \<open>What an instance relies on in a transport: a client it makes knows the peer it was made for, and
  hashes to its address.\<close>

definition makes_clients :: "('m, 'c, 't, 'w, 'p) runtime \<Rightarrow> bool" where
  "makes_clients rt \<longleftrightarrow>
     (\<forall>t p w c w'. T_NewClient (rt_transport rt) t p w = ((c, None), w') \<longrightarrow>
        Client_PeerInfo (rt_client rt) c = p \<and> Client_HashKey (rt_client rt) c = Address p)"

lemma client_ops_simps [simp]:
  "Client_PeerInfo (client_ops cl) (SelfClient n) = NoOpClient_Info n"
  "Client_PeerInfo (client_ops cl) (PeerClient c) = Client_PeerInfo cl c"
  "Client_HashKey (client_ops cl) (SelfClient n) = Address (NoOpClient_Info n)"
  "Client_HashKey (client_ops cl) (PeerClient c) = Client_HashKey cl c"
  by (simp_all add: client_ops_def NoOpClient_PeerInfo_def NoOpClient_HashKey_def)

lemma set_peers_loop_spec:
  assumes "makes_clients rt"
    and "set_peers_loop rt t peers picker self w = (Inr (picker', self'), w')"
  shows "self' = (self \<or> (\<exists>p\<in>set peers. IsSelf p)) \<and>
    (\<exists>cs. picker' = foldl (\<lambda>p c. picker_Add (rt_sort rt) (client_ops (rt_client rt)) c p) picker cs \<and>
       map (Client_PeerInfo (client_ops (rt_client rt))) cs = peers \<and>
       map (Client_HashKey (client_ops (rt_client rt))) cs = map Address peers)"
  using assms(2)
proof (induction peers arbitrary: picker self w)
  case Nil
  then show ?case by simp
next
  case (Cons p peers)
  let ?add = "\<lambda>c q. picker_Add (rt_sort rt) (client_ops (rt_client rt)) c q"
  have step: ?case
    if run: "set_peers_loop rt t peers (?add c picker) self1 w1 = (Inr (picker', self'), w')"
      and c: "Client_PeerInfo (client_ops (rt_client rt)) c = p"
        "Client_HashKey (client_ops (rt_client rt)) c = Address p"
      and self: "self1 = (self \<or> IsSelf p)"
    for c self1 w1
  proof -
    from Cons.IH [OF run] obtain cs where cs: "self' = (self1 \<or> (\<exists>p\<in>set peers. IsSelf p))"
      "picker' = foldl (\<lambda>p c. ?add c p) (?add c picker) cs"
      "map (Client_PeerInfo (client_ops (rt_client rt))) cs = peers"
      "map (Client_HashKey (client_ops (rt_client rt))) cs = map Address peers" by blast
    show ?thesis
      by (intro conjI exI [of _ "c # cs"]) (use cs c self in auto)
  qed
  show ?case
  proof (cases "IsSelf p")
    case True
    then show ?thesis
      using Cons.prems by (intro step [of "SelfClient \<lparr>NoOpClient_Info = \<lparr>Address = Address p, IsSelf = True\<rparr>\<rparr>" True w])
        (simp_all add: Let_def)
  next
    case False
    obtain c e w1 where n: "T_NewClient (rt_transport rt) t p w = ((c, e), w1)" by (metis prod.exhaust)
    with Cons.prems False have e: "e = None"
      "set_peers_loop rt t peers (?add (PeerClient c) picker) self w1 = (Inr (picker', self'), w')"
      by (auto simp: Let_def split: option.splits)
    have c: "Client_PeerInfo (rt_client rt) c = p \<and> Client_HashKey (rt_client rt) c = Address p"
      using assms(1) n unfolding e(1) makes_clients_def by blast
    show ?thesis by (rule step [OF e(2)]) (use c False in simp_all)
  qed
qed

lemma instance_SetPeers_spec:
  assumes "makes_clients rt" "instance_SetPeers rt peers (i, w) = (err, i', w')"
  shows "(err \<noteq> None \<longrightarrow> i' = i) \<and>
    (err = None \<longrightarrow> (\<exists>p\<in>set peers. IsSelf p) \<and>
       (\<exists>cs. i' = i\<lparr>i_picker := picker_of (rt_sort rt) (rt_fnv1 rt) \<lparr>HashFn = i_HashFn i, Replicas = i_Replicas i\<rparr>
                 (client_ops (rt_client rt)) cs\<rparr> \<and>
          map (Client_PeerInfo (client_ops (rt_client rt))) cs = peers \<and>
          map (Client_HashKey (client_ops (rt_client rt))) cs = map Address peers))"
proof -
  let ?opts = "\<lparr>HashFn = i_HashFn i, Replicas = i_Replicas i\<rparr>"
  let ?ops = "client_ops (rt_client rt)"
  obtain r w1 where loop: "set_peers_loop rt (i_Transport i) peers (NewPicker (rt_fnv1 rt) ?opts) False w = (r, w1)"
    by fastforce
  show ?thesis
  proof (cases r)
    case (Inl e)
    then show ?thesis using assms(2) loop by (auto simp: instance_SetPeers_def)
  next
    case (Inr x)
    obtain picker self where x: "x = (picker, self)" by fastforce
    from set_peers_loop_spec [OF assms(1), of "i_Transport i" peers _ False w picker self w1] loop Inr x
    obtain cs where cs: "self = (\<exists>p\<in>set peers. IsSelf p)"
      "picker = foldl (\<lambda>p c. picker_Add (rt_sort rt) ?ops c p) (NewPicker (rt_fnv1 rt) ?opts) cs"
      "map (Client_PeerInfo ?ops) cs = peers" "map (Client_HashKey ?ops) cs = map Address peers" by blast
    show ?thesis
      using assms(2) loop Inr x cs
      by (auto simp: instance_SetPeers_def picker_of_def split: if_splits)
  qed
qed

text \<open>C37.  \<open>SetPeers\<close> either fails, and the instance keeps the peers it had, or it succeeds, and then
  this instance was in the list and the groups of the instance work on a ring of exactly the peers
  listed, one client for each; the groups themselves stay as they are.  With peers of different
  addresses, this is the ring that the properties of \<open>Set\<close>, \<open>Remove\<close> and \<open>RemoveKeys\<close> ask for.\<close>

theorem instance_SetPeers_ring:
  assumes "makes_clients rt" "ring_sort (rt_sort rt)" "\<forall>xs. mset (rt_order rt xs) = mset xs"
    and "distinct (map Address peers)" "0 < ring_replicas \<lparr>HashFn = i_HashFn i, Replicas = i_Replicas i\<rparr>"
    and "instance_SetPeers rt peers (i, w) = (err, i', w')"
  shows "(err \<noteq> None \<longrightarrow> i' = i) \<and>
    (err = None \<longrightarrow> i_groups i' = i_groups i \<and> (\<exists>p\<in>set peers. IsSelf p) \<and>
       (\<exists>cs. map (Client_PeerInfo (client_ops (rt_client rt))) cs = peers \<and>
          ring_of (env_of rt i' getter) cs))"
proof -
  note spec = instance_SetPeers_spec [OF assms(1,6)]
  have "ring_of (env_of rt (i\<lparr>i_picker := picker_of (rt_sort rt) (rt_fnv1 rt) \<lparr>HashFn = i_HashFn i, Replicas = i_Replicas i\<rparr>
      (client_ops (rt_client rt)) cs\<rparr>) getter) cs"
    if "map (Client_HashKey (client_ops (rt_client rt))) cs = map Address peers" for cs
    using assms(2-5) that unfolding ring_of_def by (auto simp: env_of_def)
  then show ?thesis using spec by (cases err) auto
qed

definition demo_transport :: "(unit, Info, 'w) Transport" where
  "demo_transport =
     \<lparr>T_New = (\<lambda>t w. (t, w)), T_Register = (\<lambda>t i w. w), T_NewClient = (\<lambda>t p w. ((p, None), w)),
      T_ListenAndServe = (\<lambda>t a. ret None), T_Shutdown = (\<lambda>t. ret None), T_ListenAddress = (\<lambda>t. ret ''a'')\<rparr>"

definition demo_runtime :: "(mutexCache, Info, unit, (Info \<times> demo_request) list, unit) runtime" where
  "demo_runtime =
     \<lparr>rt_cache = mutex_ops, rt_nilCache = newMutexCache 0, rt_mutexCache = (\<lambda>m. m),
      rt_client = log_clients (\<lambda>_. None),
      rt_transport = demo_transport, rt_httpTransport = (\<lambda>_ w. ((), w)), rt_fnv1 = (\<lambda>_. 0), rt_sort = sort_ring, rt_order = (\<lambda>xs. xs),
      rt_sched = (\<lambda>n. [0..<n]), rt_proto = demo_proto, rt_now = (\<lambda>w. (zero_time, w)),
      rt_ctxErr = (\<lambda>w. None)\<rparr>"

definition demo_instance ::
  "(string \<Rightarrow> goerr option) option \<Rightarrow> (mutexCache, Info, unit, (Info \<times> demo_request) list, unit) Instance" where
  "demo_instance metrics = fst (instance_New demo_runtime 0
     \<lparr>io_HashFn = Some demo_hash, io_Replicas = 1, io_Logger = None, io_Transport = Some (),
      io_CacheFactory = None, io_MetricProvider = metrics\<rparr> [])"

theorem instance_SetPeers_ring_witness:
  "\<exists>i' w' cs. instance_SetPeers demo_runtime [demo_self, demo_peer ''b''] (demo_instance None, []) = (None, i', w') \<and>
     map (Client_PeerInfo (client_ops (rt_client demo_runtime))) cs = [demo_self, demo_peer ''b''] \<and>
     ring_of (env_of demo_runtime i' (\<lambda>k d w. (None, d, w))) cs"
proof -
  obtain err i' w' where r:
    "instance_SetPeers demo_runtime [demo_self, demo_peer ''b''] (demo_instance None, []) = (err, i', w')"
    by (metis prod.exhaust)
  then have err: "err = None" by (auto simp: instance_SetPeers_def demo_runtime_def demo_transport_def Let_def)
  have "makes_clients demo_runtime" "ring_sort (rt_sort demo_runtime)" "\<forall>xs. mset (rt_order demo_runtime xs) = mset xs"
    by (simp_all add: makes_clients_def demo_runtime_def demo_transport_def sort_ring.ring_sort_axioms)
  moreover have "0 < ring_replicas \<lparr>HashFn = i_HashFn (demo_instance None), Replicas = i_Replicas (demo_instance None)\<rparr>"
    by (simp add: demo_instance_def instance_New_def ring_replicas_def Let_def)
  ultimately show ?thesis
    using instance_SetPeers_ring [OF _ _ _ _ _ r, of "\<lambda>k d w. (None, d, w)"] r err by auto
qed

section \<open>Groups\<close>

lemma NewGroup_taken:
  "i_groups i name \<noteq> None \<Longrightarrow> \<exists>e. instance_NewGroup rt name n get i = (Inl e, i)"
  by (cases get) (simp_all add: instance_NewGroup_def)

text \<open>C38.  \<open>NewGroup\<close> without a getter, with a name that is taken, or with a cache factory that fails
  reports an error and leaves the instance as it was.  Otherwise it registers a group of that name, with
  the getter and the size given, the caches the factory makes for its parts and its counters at zero, which
  \<open>GetGroup\<close> then finds, and changes nothing else.  It returns the group unless the metrics of the group
  cannot be registered: then it reports an error although the group stays registered.  Either way no
  later \<open>NewGroup\<close> of that name can succeed, not even with a provider of metrics that works.\<close>

theorem instance_NewGroup_outcomes:
  assumes "instance_NewGroup rt name cacheBytes getter i = (r, i')"
  shows "if getter = None \<or> i_groups i name \<noteq> None \<or> snd (i_CacheFactory i (main_size cacheBytes)) \<noteq> None \<or>
        snd (i_CacheFactory i (hot_size cacheBytes)) \<noteq> None
    then (\<exists>e. r = Inl e) \<and> i' = i
    else (\<exists>g get. getter = Some get \<and> i' = i\<lparr>i_groups := (i_groups i)(name := Some (g, get))\<rparr> \<and>
        instance_GetGroup i' = (instance_GetGroup i)(name := Iface (Some (g, get))) \<and>
        g = \<lparr>g_name = name, g_maxCacheBytes = cacheBytes, g_mainCache = fst (i_CacheFactory i (main_size cacheBytes)),
             g_hotCache = fst (i_CacheFactory i (hot_size cacheBytes)), g_Stats = zero_stats\<rparr>) \<and>
      (case i_MetricProvider i of
         None \<Rightarrow> r = Inr name
       | Some register \<Rightarrow>
           (case register name of None \<Rightarrow> r = Inr name | Some err \<Rightarrow> \<exists>msg. r = Inl (ErrWrap msg err))) \<and>
      (\<forall>n get metrics. \<exists>e. instance_NewGroup rt name n get (i'\<lparr>i_MetricProvider := metrics\<rparr>) =
         (Inl e, i'\<lparr>i_MetricProvider := metrics\<rparr>))"
proof (cases "getter = None \<or> i_groups i name \<noteq> None \<or> snd (i_CacheFactory i (main_size cacheBytes)) \<noteq> None \<or>
    snd (i_CacheFactory i (hot_size cacheBytes)) \<noteq> None")
  case True
  then have "(\<exists>e. r = Inl e) \<and> i' = i"
    using assms
    by (cases getter; cases "i_CacheFactory i (main_size cacheBytes)"; cases "i_CacheFactory i (hot_size cacheBytes)")
      (auto simp: instance_NewGroup_def group_ResetCacheSize_def env_of_def Let_def split: option.splits if_splits)
  then show ?thesis using True by simp
next
  case False
  then obtain get main hot where get: "getter = Some get" "i_groups i name = None"
    "i_CacheFactory i (main_size cacheBytes) = (main, None)" "i_CacheFactory i (hot_size cacheBytes) = (hot, None)"
    by (metis option.exhaust prod.collapse)
  let ?g = "\<lparr>g_name = name, g_maxCacheBytes = cacheBytes, g_mainCache = main, g_hotCache = hot, g_Stats = zero_stats\<rparr>"
  let ?i = "i\<lparr>i_groups := (i_groups i)(name := Some (?g, get))\<rparr>"
  have run: "i' = ?i" "case i_MetricProvider i of None \<Rightarrow> r = Inr name | Some register \<Rightarrow>
      (case register name of None \<Rightarrow> r = Inr name | Some err \<Rightarrow> \<exists>msg. r = Inl (ErrWrap msg err))"
    using assms get
    by (auto simp: instance_NewGroup_def group_ResetCacheSize_def env_of_def Let_def split: option.splits)
  have found: "instance_GetGroup ?i = (instance_GetGroup i)(name := Iface (Some (?g, get)))"
    by (auto simp: instance_GetGroup_def fun_eq_iff)
  have "\<forall>n get metrics. \<exists>e. instance_NewGroup rt name n get (i'\<lparr>i_MetricProvider := metrics\<rparr>) =
      (Inl e, i'\<lparr>i_MetricProvider := metrics\<rparr>)"
    using run(1) by (intro allI NewGroup_taken) simp
  then show ?thesis using False get run found by simp
qed

theorem instance_NewGroup_outcomes_witness:
  "\<exists>e i' g. instance_NewGroup demo_runtime ''g'' 800 (Some (\<lambda>k d w. (None, d, w)))
       (demo_instance (Some (\<lambda>_. Some (ErrString ''no meter'')))) = (Inl e, i') \<and>
     instance_GetGroup i' ''g'' = Iface (Some g) \<and>
     (\<forall>n get. \<exists>e''. instance_NewGroup demo_runtime ''g'' n get (i'\<lparr>i_MetricProvider := None\<rparr>) =
        (Inl e'', i'\<lparr>i_MetricProvider := None\<rparr>))"
proof -
  let ?i = "demo_instance (Some (\<lambda>_. Some (ErrString ''no meter'')))"
  obtain r i' where r: "instance_NewGroup demo_runtime ''g'' 800 (Some (\<lambda>k d w. (None, d, w))) ?i = (r, i')"
    by fastforce
  have i: "i_groups ?i ''g'' = None" "\<And>n. snd (i_CacheFactory ?i n) = None"
    "i_MetricProvider ?i = Some (\<lambda>_. Some (ErrString ''no meter''))"
    by (simp_all add: demo_instance_def instance_New_def Let_def)
  then have "(\<exists>msg. r = Inl (ErrWrap msg (ErrString ''no meter''))) \<and> (\<exists>g. instance_GetGroup i' ''g'' = Iface (Some g)) \<and>
     (\<forall>n get. \<exists>e''. instance_NewGroup demo_runtime ''g'' n get (i'\<lparr>i_MetricProvider := None\<rparr>) =
        (Inl e'', i'\<lparr>i_MetricProvider := None\<rparr>))"
    using instance_NewGroup_outcomes [OF r] by auto
  then show ?thesis using r by blast
qed

end
