(* ===== verification/HttpTransport.thy ===== *)
theory HttpTransport
  imports Instance
begin

text \<open>
  The HTTP transport, src/transport/http_transport.go: the handler a server runs for a request, and
  the client a peer uses.  An HTTP request is its method, the host of its URL, the path decoded and
  as it was sent, and its body; a response is its status and its body, which may fail while it is read.  What the
  network does with a request is the argument \<open>Do\<close> of the client.  The encodings of the messages,
  protobuf for values and JSON for \<open>RemoveKeys\<close>, are a table of parameters.  The spans and labels of
  tracing, which leave results alone, are left out.
\<close>

section \<open>HTTP\<close>

record http_request =
  rq_Method :: string
  rq_Host :: string
  rq_Path :: string
  rq_EscapedPath :: string
  rq_Body :: bytes
  rq_readErr :: "goerr option"

record http_response =
  rs_StatusCode :: nat
  rs_Status :: string
  rs_Body :: bytes
  rs_readErr :: "goerr option"

text \<open>\<open>http.StatusText\<close> for the codes the handler uses.\<close>

definition StatusText :: "nat \<Rightarrow> string" where
  "StatusText code =
     (if code = 200 then ''OK'' else if code = 400 then ''Bad Request'' else if code = 404 then ''Not Found''
      else if code = 405 then ''Method Not Allowed'' else if code = 500 then ''Internal Server Error''
      else if code = 503 then ''Service Unavailable'' else [])"

definition http_reply :: "nat \<Rightarrow> bytes \<Rightarrow> http_response" where
  "http_reply code body =
     \<lparr>rs_StatusCode = code, rs_Status = itoa code @ '' '' @ StatusText code, rs_Body = body, rs_readErr = None\<rparr>"

text \<open>\<open>http.Error\<close>: the message and a newline.\<close>

definition http_Error :: "string \<Rightarrow> nat \<Rightarrow> http_response" where
  "http_Error msg code = http_reply code (msg @ [CHR 0x0A])"

text \<open>\<open>http.NewRequest\<close>: the URL is parsed into scheme, host and path, which is kept decoded and as it is
  written.  Control characters and bad escapes are errors, of whose text only the beginning is kept;
  the host is passed on as it is.\<close>

definition url_Parse :: "string \<Rightarrow> (string \<times> string \<times> string \<times> string) option" where
  "url_Parse u =
     (let scheme = takeWhile (\<lambda>c. c \<noteq> CHR '':'') u;
          rest = drop (length scheme) u
      in if (\<exists>c\<in>set u. (of_char c :: nat) < 32 \<or> c = CHR 0x7F) \<or> \<not> HasPrefix rest ''://'' then None
         else let r = takeWhile (\<lambda>c. c \<noteq> CHR ''?'' \<and> c \<noteq> CHR ''#'') (drop 3 rest);
                  host = takeWhile (\<lambda>c. c \<noteq> CHR ''/'') r;
                  escaped = drop (length host) r
              in map_option (\<lambda>path. (scheme, host, path, escaped)) (unescape escaped))"

definition http_NewRequest :: "string \<Rightarrow> string \<Rightarrow> bytes \<Rightarrow> goerr + http_request" where
  "http_NewRequest method u body =
     (case url_Parse u of
        None \<Rightarrow> Inl (ErrString (''parse '' @ u))
      | Some (scheme, host, path, escaped) \<Rightarrow>
          Inr \<lparr>rq_Method = method, rq_Host = host, rq_Path = path, rq_EscapedPath = escaped, rq_Body = body,
               rq_readErr = None\<rparr>)"

text \<open>The encodings.\<close>

record wire =
  wr_MarshalGet :: "GetResponse \<Rightarrow> bytes \<times> goerr option"
  wr_UnmarshalGet :: "bytes \<Rightarrow> GetResponse \<times> goerr option"
  wr_MarshalSet :: "SetRequest \<Rightarrow> bytes \<times> goerr option"
  wr_UnmarshalSet :: "bytes \<Rightarrow> SetRequest \<times> goerr option"
  wr_MarshalKeys :: "RemoveKeysRequest \<Rightarrow> bytes \<times> goerr option"
  wr_UnmarshalKeys :: "bytes \<Rightarrow> RemoveKeysRequest \<times> goerr option"

section \<open>The transport\<close>

definition DefaultBasePath :: string where
  "DefaultBasePath = ''/_groupcache/''"

definition defaultScheme :: string where
  "defaultScheme = ''http''"

text \<open>The HTTP client, the logger, the TLS configuration and the tracer are handles of the program
  around it.\<close>

record ('h, 'l, 'x, 'r) HttpTransportOptions =
  ho_Client :: "'h option"
  ho_Scheme :: string
  ho_BasePath :: string
  ho_Logger :: "'l option"
  ho_TLSConfig :: "'x option"
  ho_Tracer :: "'r option"

record ('h, 'l, 'x, 'r) HttpTransport =
  ht_opts :: "('h, 'l, 'x, 'r) HttpTransportOptions"
  ht_registered :: bool

text \<open>\<open>NewHttpTransport\<close>: \<open>traced\<close> wraps the transport of a client, or the default one, for
  tracing.\<close>

definition NewHttpTransport ::
  "'h \<Rightarrow> 'l \<Rightarrow> ('h option \<Rightarrow> 'h) \<Rightarrow> ('h, 'l, 'x, 'r) HttpTransportOptions \<Rightarrow> ('h, 'l, 'x, 'r) HttpTransport" where
  "NewHttpTransport DefaultClient DefaultLogger traced opts =
     (let o1 = (if ho_BasePath opts = [] then opts\<lparr>ho_BasePath := DefaultBasePath\<rparr> else opts);
          o2 = (if ho_Scheme o1 = [] then o1\<lparr>ho_Scheme := defaultScheme\<rparr> else o1);
          o3 = (case ho_Client o2 of
                  None \<Rightarrow> if ho_Tracer o2 \<noteq> None then o2\<lparr>ho_Client := Some (traced None)\<rparr>
                          else o2\<lparr>ho_Client := Some DefaultClient\<rparr>
                | Some c \<Rightarrow> if ho_Tracer o2 \<noteq> None then o2\<lparr>ho_Client := Some (traced (Some c))\<rparr> else o2);
          o4 = (if ho_Logger o3 = None then o3\<lparr>ho_Logger := Some DefaultLogger\<rparr> else o3);
          o5 = (if ho_TLSConfig o4 \<noteq> None then o4\<lparr>ho_Scheme := ''https''\<rparr> else o4)
      in \<lparr>ht_opts = o5, ht_registered = False\<rparr>)"

definition http_Register :: "('h, 'l, 'x, 'r) HttpTransport \<Rightarrow> ('h, 'l, 'x, 'r) HttpTransport" where
  "http_Register t = t\<lparr>ht_registered := True\<rparr>"

definition http_New ::
  "'h \<Rightarrow> 'l \<Rightarrow> ('h option \<Rightarrow> 'h) \<Rightarrow> ('h, 'l, 'x, 'r) HttpTransport \<Rightarrow> ('h, 'l, 'x, 'r) HttpTransport" where
  "http_New DefaultClient DefaultLogger traced t = NewHttpTransport DefaultClient DefaultLogger traced (ht_opts t)"

definition http_tls :: "('h, 'l, 'x, 'r) HttpTransport \<Rightarrow> bool" where
  "http_tls t \<longleftrightarrow> ho_TLSConfig (ht_opts t) \<noteq> None"

section \<open>The handler\<close>

type_synonym ('m, 'c, 't, 'w, 'p) istate = "('m, 'c, 't, 'w, 'p) Instance \<times> 'w"

text \<open>A method of the group behind the interface: the pointer may be nil.\<close>

definition on_group ::
  "('m, 'c, 't, 'w, 'p) runtime \<Rightarrow> string \<Rightarrow> (('m, 'c client, 'w, 'p) env \<Rightarrow> (('m, 'w) gstate, 'a) act) \<Rightarrow>
   (('m, 'c, 't, 'w, 'p) istate, 'a) act" where
  "on_group rt name f s =
     (case i_groups (fst s) name of
        None \<Rightarrow> Crash nil_deref
      | Some (g, getter) \<Rightarrow>
          (case f (env_of rt (fst s) getter) (g, snd s) of
             Done x (g', w') \<Rightarrow>
               Done x ((fst s)\<lparr>i_groups := (i_groups (fst s))(name := Some (g', getter))\<rparr>, w')
           | Crash m \<Rightarrow> Crash m
           | Hang \<Rightarrow> Hang))"

definition serve_put ::
  "('m, 'c, 't, 'w, 'p) runtime \<Rightarrow> wire \<Rightarrow> string \<Rightarrow> http_request \<Rightarrow>
   (('m, 'c, 't, 'w, 'p) istate, http_response) act" where
  "serve_put rt wire name r =
     (case rq_readErr r of
        Some e \<Rightarrow> ret (http_Error (Error e) 500)
      | None \<Rightarrow>
          (case wr_UnmarshalSet wire (rq_Body r) of
             (out, Some e) \<Rightarrow> ret (http_Error (Error e) 400)
           | (out, None) \<Rightarrow>
               (case sr_Key out of
                  None \<Rightarrow> crash nil_deref
                | Some key \<Rightarrow>
                    bnd (on_group rt name (\<lambda>E. group_RemoteSet E key (sr_Value out) (decode_expire (sr_Expire out))))
                      (\<lambda>_. ret (http_reply 200 [])))))"

definition handleRemoveKeysRequest ::
  "('m, 'c, 't, 'w, 'p) runtime \<Rightarrow> wire \<Rightarrow> string \<Rightarrow> http_request \<Rightarrow>
   (('m, 'c, 't, 'w, 'p) istate, http_response) act" where
  "handleRemoveKeysRequest rt wire name r =
     (case rq_readErr r of
        Some e \<Rightarrow> ret (http_Error (Error e) 500)
      | None \<Rightarrow>
          (case wr_UnmarshalKeys wire (rq_Body r) of
             (req, Some e) \<Rightarrow> ret (http_Error (''invalid request: '' @ Error e) 400)
           | (req, None) \<Rightarrow>
               bnd (each (\<lambda>key. on_group rt name (\<lambda>E. group_LocalRemove E key)) (rk_Keys req))
                 (\<lambda>_. ret (http_reply 200 []))))"

text \<open>The variable behind the sink of a GET.\<close>

fun alloc_dst :: "'p sink \<Rightarrow> slice" where
  "alloc_dst (allocBytesSink (Some b) v) = b"
| "alloc_dst _ = None"

definition serve_get ::
  "('m, 'c, 't, 'w, 'p) runtime \<Rightarrow> wire \<Rightarrow> byteview role \<Rightarrow> string \<Rightarrow> string \<Rightarrow>
   (('m, 'c, 't, 'w, 'p) istate, http_response) act" where
  "serve_get rt wire role name key =
     bnd (on_group rt name (\<lambda>E. group_Get E role key (Some (AllocatingByteSliceSink (Some None)))))
       (\<lambda>(err, dest).
          case err of
            Some e \<Rightarrow> ret (http_Error (Error e) (if Is_ErrNotFound e then 404 else 503))
          | None \<Rightarrow>
              let d = (case dest of Some d \<Rightarrow> d | None \<Rightarrow> AllocatingByteSliceSink (Some None));
                  expireNano = encode_expire (bv_Expire (Sink_View d))
              in case wr_MarshalGet wire
                        \<lparr>gp_Value = alloc_dst d, gp_MinuteQps = None, gp_Expire = Some expireNano\<rparr> of
                   (body, Some e) \<Rightarrow> ret (http_Error (Error e) 500)
                 | (body, None) \<Rightarrow> ret (http_reply 200 body))"

text \<open>The methods, in the order of the code.\<close>

definition serve_method ::
  "('m, 'c, 't, 'w, 'p) runtime \<Rightarrow> wire \<Rightarrow> byteview role \<Rightarrow> string \<Rightarrow> string \<Rightarrow> http_request \<Rightarrow>
   (('m, 'c, 't, 'w, 'p) istate, http_response) act" where
  "serve_method rt wire role name key r =
     (if rq_Method r = ''DELETE''
      then bnd (on_group rt name (\<lambda>E. group_LocalRemove E key)) (\<lambda>_. ret (http_reply 200 []))
      else if rq_Method r = ''PUT'' then serve_put rt wire name r
      else if rq_Method r = ''POST''
      then if HasPrefix key ''_remove-keys/'' then handleRemoveKeysRequest rt wire name r
           else ret (http_Error ''invalid path for POST method'' 404)
      else if rq_Method r \<noteq> ''GET''
      then ret (http_Error ''Only GET, DELETE, PUT, POST are supported'' 405)
      else serve_get rt wire role name key)"

text \<open>The type assertion on the group: it panics on a nil interface and keeps a nil pointer, so the
  comparison with nil that follows never holds.\<close>

definition as_transportMethods :: "'a iface \<Rightarrow> 'a iface go" where
  "as_transportMethods g =
     (case g of NilIface \<Rightarrow> Panic ''interface conversion: interface is nil'' | Iface p \<Rightarrow> Ret (Iface p))"

definition ServeHTTP ::
  "('m, 'c, 't, 'w, 'p) runtime \<Rightarrow> wire \<Rightarrow> byteview role \<Rightarrow> ('h, 'l, 'x, 'r) HttpTransport \<Rightarrow> http_request \<Rightarrow>
   (('m, 'c, 't, 'w, 'p) istate, http_response) act" where
  "ServeHTTP rt wire role t r =
     (let base = ho_BasePath (ht_opts t)
      in if \<not> ht_registered t
         then crash ''groupcache instance is nil; you must register an instance by calling HttpTransport.Register()''
         else if \<not> HasPrefix (rq_Path r) base
         then crash (''HTTPPool serving unexpected path: '' @ rq_Path r)
         else case split_slash (drop (length base) (rq_Path r)) of
                [groupName, key] \<Rightarrow>
                  bnd (reads (\<lambda>s. instance_GetGroup (fst s) groupName)) (\<lambda>found.
                  bnd (lift_go (as_transportMethods found)) (\<lambda>group.
                  case group of
                    NilIface \<Rightarrow> ret (http_Error (''no such group: '' @ groupName) 404)
                  | Iface _ \<Rightarrow> serve_method rt wire role groupName key r))
              | _ \<Rightarrow> ret (http_Error ''bad request'' 400))"

section \<open>The client\<close>

type_synonym 'w network = "http_request \<Rightarrow> 'w \<Rightarrow> (goerr + http_response) \<times> 'w"

text \<open>The client of a peer; its HTTP client is the network.\<close>

record HttpClient =
  hc_info :: Info
  hc_endpoint :: string

definition http_NewClient :: "('h, 'l, 'x, 'r) HttpTransport \<Rightarrow> Info \<Rightarrow> 'w \<Rightarrow> (HttpClient \<times> goerr option) \<times> 'w" where
  "http_NewClient t p w =
     ((\<lparr>hc_info = p,
        hc_endpoint = ho_Scheme (ht_opts t) @ ''://'' @ Address p @ ho_BasePath (ht_opts t)\<rparr>, None), w)"

definition send_request ::
  "'w network \<Rightarrow> string \<Rightarrow> string \<Rightarrow> bytes \<Rightarrow> 'w \<Rightarrow> (goerr + http_response) \<times> 'w" where
  "send_request Do method u body w =
     (case http_NewRequest method u body of Inl e \<Rightarrow> (Inl e, w) | Inr req \<Rightarrow> Do req w)"

definition makeRemoveKeysRequest ::
  "'w network \<Rightarrow> HttpClient \<Rightarrow> string \<Rightarrow> string \<Rightarrow> string \<Rightarrow> bytes \<Rightarrow> 'w \<Rightarrow> (goerr + http_response) \<times> 'w" where
  "makeRemoveKeysRequest Do h method groupName path body w =
     send_request Do method (hc_endpoint h @ PathEscape groupName @ ''/'' @ path) body w"

definition makeRequest ::
  "'w network \<Rightarrow> HttpClient \<Rightarrow> string \<Rightarrow> string \<Rightarrow> string \<Rightarrow> bytes \<Rightarrow> 'w \<Rightarrow> (goerr + http_response) \<times> 'w" where
  "makeRequest Do h method groupName key body w =
     send_request Do method (hc_endpoint h @ PathEscape groupName @ ''/'' @ PathEscape key) body w"

text \<open>A GET reads at most 1 MiB of the message of an error, and reads it as far as it gets.\<close>

definition get_response :: "wire \<Rightarrow> GetResponse \<Rightarrow> http_response \<Rightarrow> goerr option \<times> GetResponse" where
  "get_response wire out res =
     (if rs_StatusCode res \<noteq> 200
      then let msg = take 1048576 (rs_Body res)
           in if rs_StatusCode res = 404 then (Some (ErrNotFound (trim_newlines msg)), out)
              else if rs_StatusCode res = 503 then (Some (ErrRemoteCall (trim_newlines msg)), out)
              else (Some (ErrString (''server returned: '' @ rs_Status res @ '', '' @ msg)), out)
      else case rs_readErr res of
             Some e \<Rightarrow> (Some (ErrWrap ''reading response body: '' e), out)
           | None \<Rightarrow>
               (case wr_UnmarshalGet wire (rs_Body res) of
                  (out', Some e) \<Rightarrow> (Some (ErrWrap ''decoding response body: '' e), out')
                | (out', None) \<Rightarrow> (None, out')))"

definition HttpClient_Get ::
  "'w network \<Rightarrow> wire \<Rightarrow> HttpClient \<Rightarrow> GetRequest \<Rightarrow> GetResponse \<Rightarrow> 'w \<Rightarrow> goerr option \<times> GetResponse \<times> 'w" where
  "HttpClient_Get Do wire h req out w =
     (case makeRequest Do h ''GET'' (GetRequest_GetGroup (Some req)) (GetRequest_GetKey (Some req)) [] w of
        (Inl e, w') \<Rightarrow> (Some e, out, w')
      | (Inr res, w') \<Rightarrow> (case get_response wire out res of (err, out') \<Rightarrow> (err, out', w')))"

text \<open>The end of \<open>Set\<close> and \<open>Remove\<close>.\<close>

definition status_error :: "http_response \<Rightarrow> goerr option" where
  "status_error res =
     (if rs_StatusCode res \<noteq> 200
      then case rs_readErr res of
             Some e \<Rightarrow> Some (ErrString (''while reading body response: '' @ rs_Status res))
           | None \<Rightarrow>
               Some (ErrString (''server returned status '' @ itoa (rs_StatusCode res) @ '': '' @ rs_Body res))
      else None)"

definition HttpClient_Set ::
  "'w network \<Rightarrow> wire \<Rightarrow> HttpClient \<Rightarrow> SetRequest \<Rightarrow> 'w \<Rightarrow> goerr option \<times> 'w" where
  "HttpClient_Set Do wire h req w =
     (case wr_MarshalSet wire req of
        (body, Some e) \<Rightarrow> (Some (ErrWrap ''while marshaling SetRequest body: '' e), w)
      | (body, None) \<Rightarrow>
          (case makeRequest Do h ''PUT'' (SetRequest_GetGroup (Some req)) (SetRequest_GetKey (Some req)) body w of
             (Inl e, w') \<Rightarrow> (Some e, w')
           | (Inr res, w') \<Rightarrow> (status_error res, w')))"

definition HttpClient_Remove ::
  "'w network \<Rightarrow> HttpClient \<Rightarrow> GetRequest \<Rightarrow> 'w \<Rightarrow> goerr option \<times> 'w" where
  "HttpClient_Remove Do h req w =
     (case makeRequest Do h ''DELETE'' (GetRequest_GetGroup (Some req)) (GetRequest_GetKey (Some req)) [] w of
        (Inl e, w') \<Rightarrow> (Some e, w')
      | (Inr res, w') \<Rightarrow> (status_error res, w'))"

definition HttpClient_RemoveKeys ::
  "'w network \<Rightarrow> wire \<Rightarrow> HttpClient \<Rightarrow> RemoveKeysRequest \<Rightarrow> 'w \<Rightarrow> goerr option \<times> 'w" where
  "HttpClient_RemoveKeys Do wire h req w =
     (case wr_MarshalKeys wire req of
        (body, Some e) \<Rightarrow> (Some (ErrWrap ''while marshaling RemoveKeysRequest body: '' e), w)
      | (body, None) \<Rightarrow>
          (case makeRemoveKeysRequest Do h ''POST'' (RemoveKeysRequest_GetGroup (Some req)) ''_remove-keys/'' body w of
             (Inl e, w') \<Rightarrow> (Some e, w')
           | (Inr res, w') \<Rightarrow>
               (if rs_StatusCode res \<noteq> 200
                then Some (ErrString (''server returned status '' @ itoa (rs_StatusCode res) @ '': '' @ rs_Body res))
                else None, w')))"

definition HttpClient_PeerInfo :: "HttpClient \<Rightarrow> Info" where
  "HttpClient_PeerInfo h = hc_info h"

definition HttpClient_HashKey :: "HttpClient \<Rightarrow> string" where
  "HttpClient_HashKey h = Address (hc_info h)"

definition HttpClient_ops :: "'w network \<Rightarrow> wire \<Rightarrow> (HttpClient, 'w) Client" where
  "HttpClient_ops Do wire =
     \<lparr>Client_Get = HttpClient_Get Do wire, Client_Remove = HttpClient_Remove Do,
      Client_Set = HttpClient_Set Do wire, Client_RemoveKeys = HttpClient_RemoveKeys Do wire,
      Client_PeerInfo = HttpClient_PeerInfo, Client_HashKey = HttpClient_HashKey\<rparr>"

section \<open>Waiting for the server\<close>

text \<open>\<open>waitForConnect\<close>: dial until it succeeds or the context is over.  The errors go into the
  message.\<close>

partial_function (option) wait_loop ::
  "('w \<Rightarrow> goerr option \<times> 'w) \<Rightarrow> ('w \<Rightarrow> goerr option) \<Rightarrow> ('w \<Rightarrow> 'w) \<Rightarrow> string list \<Rightarrow> 'w \<Rightarrow>
   (goerr option \<times> 'w) option" where
  "wait_loop dial ctxErr sleep errs w =
     (case dial w of
        (None, w') \<Rightarrow> Some (None, w')
      | (Some e, w') \<Rightarrow>
          (case ctxErr w' of
             Some c \<Rightarrow> Some (Some (ErrString (strings_Join (errs @ [Error e, Error c]) [CHR 0x0A])), w')
           | None \<Rightarrow> wait_loop dial ctxErr sleep (errs @ [Error e]) (sleep w')))"

definition waitForConnect ::
  "('w \<Rightarrow> goerr option \<times> 'w) \<Rightarrow> ('w \<Rightarrow> goerr option) \<Rightarrow> ('w \<Rightarrow> 'w) \<Rightarrow> string \<Rightarrow> 'w \<Rightarrow>
   (goerr option \<times> 'w) option" where
  "waitForConnect dial ctxErr sleep address w =
     (if address = [] then Some (Some (ErrString ''waitForConnect() requires a valid address''), w)
      else wait_loop dial ctxErr sleep [] w)"

end
