(* ===== verification/ServeMux.thy ===== *)
theory ServeMux
  imports GoStrings
begin

text \<open>
  The path of a request at a server.  \<open>ListenAndServe\<close> of src/transport/http_transport.go puts the handler
  into an \<open>http.ServeMux\<close> under the base path; which requests get through to the handler depends on how
  the server cleans their paths.  The theory models that cleaning and shows which paths it leaves alone.
\<close>

section \<open>Cleaning\<close>

text \<open>\<open>http.ServeMux\<close>, in which \<open>ListenAndServe\<close> puts the handler under the base path, looks at the path
  as it was sent and cleans it first: empty segments and \<open>.\<close> are dropped, \<open>..\<close> takes back the segment
  before it, and a slash at the end stays.\<close>

fun segments :: "string \<Rightarrow> string list" where
  "segments [] = [[]]"
| "segments (c # s) =
     (if c = CHR ''/'' then [] # segments s
      else case segments s of x # xs \<Rightarrow> (c # x) # xs | [] \<Rightarrow> [[c]])"

fun clean_segments :: "string list \<Rightarrow> string list \<Rightarrow> string list" where
  "clean_segments out [] = rev out"
| "clean_segments out (x # xs) =
     (if x = [] \<or> x = ''.'' then clean_segments out xs
      else if x = ''..'' then clean_segments (tl out) xs
      else clean_segments (x # out) xs)"

definition cleanPath :: "string \<Rightarrow> string" where
  "cleanPath p =
     (if p = [] then ''/''
      else let q = (if hd p = CHR ''/'' then p else CHR ''/'' # p);
               c = concat (map (\<lambda>x. CHR ''/'' # x) (clean_segments [] (segments q)));
               np = (if c = [] then ''/'' else c)
           in if last q = CHR ''/'' \<and> np \<noteq> ''/'' then np @ ''/'' else np)"

section \<open>Paths that are clean\<close>

text \<open>Segments that cleaning leaves alone, and a base path that the server can be reached under: written
  with characters that need no escape, with such segments only, and with a slash at both ends.\<close>

definition kept_segment :: "string \<Rightarrow> bool" where
  "kept_segment x \<longleftrightarrow> x \<noteq> [] \<and> x \<noteq> ''.'' \<and> x \<noteq> ''..''"

definition served_base :: "string \<Rightarrow> bool" where
  "served_base base \<longleftrightarrow>
     list_all (\<lambda>c. unreserved c \<or> c = CHR ''/'') base \<and>
     (case segments base of
        x # xs \<Rightarrow> x = [] \<and> xs \<noteq> [] \<and> last xs = [] \<and> list_all kept_segment (butlast xs)
      | [] \<Rightarrow> False)"

lemma segments_not_Nil [simp]: "segments s \<noteq> []"
  by (induction s) (auto split: list.split)

lemma segments_append: "segments (a @ CHR ''/'' # b) = segments a @ segments b"
proof (induction a)
  case (Cons c a)
  then show ?case by (cases "segments a") (auto dest: sym [of "[]"])
qed simp

lemma segments_single: "CHR ''/'' \<notin> set s \<Longrightarrow> segments s = [s]"
  by (induction s) auto

lemma segments_concat: "concat (map (\<lambda>x. CHR ''/'' # x) (segments s)) = CHR ''/'' # s"
proof (induction s)
  case (Cons c s)
  then show ?case by (cases "segments s") auto
qed simp

lemma clean_kept: "list_all kept_segment xs \<Longrightarrow> clean_segments out (xs @ ys) = clean_segments (rev xs @ out) ys"
  by (induction xs arbitrary: out) (simp_all add: kept_segment_def)

lemma last_segment:
  assumes "s \<noteq> []"
  shows "last (segments s) = [] \<longleftrightarrow> last s = CHR ''/''"
proof
  assume "last (segments s) = []"
  then obtain ys where "segments s = ys @ [[]]" by (metis append_butlast_last_id segments_not_Nil)
  then have "CHR ''/'' # s = concat (map (\<lambda>x. CHR ''/'' # x) ys) @ ''/''" using segments_concat [of s] by simp
  then have "last (CHR ''/'' # s) = CHR ''/''" by (metis last_snoc)
  then show "last s = CHR ''/''" using assms by simp
next
  assume "last s = CHR ''/''"
  then have "s = butlast s @ [CHR ''/'']" using assms by (metis append_butlast_last_id)
  then show "last (segments s) = []" using segments_append [of "butlast s" "[]"] by simp
qed

lemma cleanPath_kept:
  assumes "segments p = [] # xs @ [x]" "list_all kept_segment xs" "kept_segment x \<or> x = [] \<and> xs \<noteq> []"
  shows "cleanPath p = p"
proof -
  obtain q where p: "p = CHR ''/'' # q" and q: "segments q = xs @ [x]"
    using assms(1) by (cases p) (auto split: if_splits list.splits)
  have slash: "last p = CHR ''/'' \<longleftrightarrow> x = []"
    using last_segment [of p] unfolding assms(1) by (simp add: p)
  have join: "concat (map (\<lambda>y. CHR ''/'' # y) (xs @ [x])) = p"
    using segments_concat [of q] p q by simp
  show ?thesis
  proof (cases "x = []")
    case False
    then have "clean_segments [] (segments p) = xs @ [x]"
      using assms(1,3) clean_kept [OF assms(2), of "[]" "[x]"] by (auto simp: kept_segment_def)
    then show ?thesis using join slash False p by (simp add: cleanPath_def Let_def)
  next
    case True
    then have "clean_segments [] (segments p) = xs"
      using assms(1) clean_kept [OF assms(2), of "[]" "[[]]"] by simp
    moreover have "concat (map (\<lambda>y. CHR ''/'' # y) xs) @ ''/'' = p" using join True by simp
    moreover have "concat (map (\<lambda>y. CHR ''/'' # y) xs) \<noteq> []" "concat (map (\<lambda>y. CHR ''/'' # y) xs) \<noteq> ''/''"
      using assms(2,3) True by (cases xs; auto simp: kept_segment_def)+
    ultimately show ?thesis using slash True p by (simp add: cleanPath_def Let_def)
  qed
qed

lemma PathEscape_kept: "x \<noteq> [] \<Longrightarrow> x \<noteq> ''.'' \<Longrightarrow> x \<noteq> ''..'' \<Longrightarrow> kept_segment (PathEscape x)"
proof -
  have un: "unescape (PathEscape x) = Some x" using unescape_PathEscape [of x "[]"] by simp
  have "unescape [] = Some []" "unescape ''.'' = Some ''.''" "unescape ''..'' = Some ''..''" by code_simp+
  then show "x \<noteq> [] \<Longrightarrow> x \<noteq> ''.'' \<Longrightarrow> x \<noteq> ''..'' \<Longrightarrow> ?thesis"
    using un by (auto simp: kept_segment_def)
qed

text \<open>What the handler can be asked for by a client: the escaped group name and the rest of the path are
  each left alone.\<close>

definition kept_rest :: "string \<Rightarrow> bool" where
  "kept_rest rest \<longleftrightarrow>
     (case rev (segments rest) of x # xs \<Rightarrow> (kept_segment x \<or> x = []) \<and> list_all kept_segment xs | [] \<Rightarrow> False)"

lemma base_segments:
  assumes "served_base base"
  obtains b bs where "base = b @ ''/''" "segments b = [] # bs" "list_all kept_segment bs"
proof -
  obtain bs where bs: "segments base = [] # bs @ [[]]" "list_all kept_segment bs"
    using assms unfolding served_base_def
    by (cases "segments base") (auto, metis append_butlast_last_id)
  have "base \<noteq> []" using bs(1) by auto
  moreover from this have "last base = CHR ''/''" using last_segment bs(1) by fastforce
  ultimately obtain b where b: "base = b @ [CHR ''/'']" by (metis append_butlast_last_id)
  then show ?thesis using that [of b bs] segments_append [of b "[]"] bs by simp
qed

lemma routed:
  assumes "served_base base" "kept_segment (PathEscape name)" "kept_rest rest"
  shows "cleanPath (base @ PathEscape name @ ''/'' @ rest) = base @ PathEscape name @ ''/'' @ rest"
proof -
  obtain b bs where b: "base = b @ ''/''" "segments b = [] # bs" "list_all kept_segment bs"
    using base_segments [OF assms(1)] .
  obtain xs x where rest: "segments rest = rev xs @ [x]" "kept_segment x \<or> x = []" "list_all kept_segment (rev xs)"
    using assms(3) unfolding kept_rest_def
    by (cases "rev (segments rest)") (auto simp: rev_eq_Cons_iff list_all_iff)
  have "segments (base @ PathEscape name @ ''/'' @ rest) = [] # (bs @ PathEscape name # rev xs) @ [x]"
    using segments_append [of b "PathEscape name @ ''/'' @ rest"] segments_append [of "PathEscape name" rest]
      segments_single [OF slash_escaped] b rest(1) by simp
  then show ?thesis
    by (rule cleanPath_kept) (use b(3) rest(2,3) assms(2) in auto)
qed

text \<open>A key that is a dot is not escaped, and the server takes it off the path.\<close>

lemma dot_key_dropped:
  assumes "served_base base" "kept_segment (PathEscape name)"
  shows "PathEscape ''.'' = ''.''"
    and "cleanPath (base @ PathEscape name @ ''/'' @ PathEscape ''.'') = base @ PathEscape name"
proof -
  show dot: "PathEscape ''.'' = ''.''" by code_simp
  obtain b bs where b: "base = b @ ''/''" "segments b = [] # bs" "list_all kept_segment bs"
    using base_segments [OF assms(1)] .
  let ?p = "base @ PathEscape name @ ''/.''"
  obtain q where p: "?p = CHR ''/'' # q"
    using b(1,2) by (cases b) (auto split: if_splits list.splits)
  have "segments ''.'' = [''.'']" by code_simp
  then have seg: "segments ?p = [] # (bs @ [PathEscape name]) @ [''.'']"
    using segments_append [of b "PathEscape name @ ''/.''"] segments_append [of "PathEscape name" "''.''"]
      segments_single [OF slash_escaped] b(1,2) by simp
  have "clean_segments [] (segments ?p) = bs @ [PathEscape name]"
    unfolding seg using clean_kept [of "bs @ [PathEscape name]" "[]" "[''.'']"] b(3) assms(2) by simp
  moreover have "concat (map (\<lambda>x. CHR ''/'' # x) (bs @ [PathEscape name])) = base @ PathEscape name"
  proof -
    have "segments q = bs @ [PathEscape name, ''.'']" using seg p by simp
    then have "concat (map (\<lambda>x. CHR ''/'' # x) (bs @ [PathEscape name])) @ ''/.'' = (base @ PathEscape name) @ ''/.''"
      using segments_concat [of q] unfolding p [symmetric] by simp
    then show ?thesis by (simp only: append_same_eq)
  qed
  moreover have "?p \<noteq> []" "hd ?p = CHR ''/''" unfolding p by simp_all
  moreover have "last ?p = CHR ''.''" by simp
  ultimately have "cleanPath ?p = base @ PathEscape name"
    using b(1) unfolding cleanPath_def Let_def by (simp only: if_True if_False simp_thms) simp
  then show "cleanPath (base @ PathEscape name @ ''/'' @ PathEscape ''.'') = base @ PathEscape name"
    unfolding dot by simp
qed

end
