(* ===== verification/HttpLaws.thy ===== *)
theory HttpLaws
  imports HttpTransport ServeMux
begin

text \<open>
  What the HTTP client and the HTTP handler of src/transport/http_transport.go do together: a call of
  the client on a peer is the call of the group on that peer, for any bytes in the key and the value,
  and the two kinds of error a peer reports arrive as the same kinds.  Then what the handler does with
  a group name it does not know and with one that has a slash, that it answers every other request,
  and when the wait for a server ends.
\<close>

section \<open>URLs\<close>

definition plain_char :: "char \<Rightarrow> bool" where
  "plain_char c \<longleftrightarrow> 32 \<le> (of_char c :: nat) \<and> c \<noteq> CHR 0x7F \<and> c \<noteq> CHR ''?'' \<and> c \<noteq> CHR ''#''"

lemma unreserved_plain: "unreserved c \<Longrightarrow> plain_char c"
proof -
  assume u: "unreserved c"
  have "\<not> unreserved CHR 0x7F" "\<not> unreserved CHR ''?''" "\<not> unreserved CHR ''#''" by code_simp+
  then have "c \<noteq> CHR 0x7F" "c \<noteq> CHR ''?''" "c \<noteq> CHR ''#''" using u by auto
  moreover have "32 \<le> (of_char c :: nat)" using u by (auto simp: unreserved_def Let_def)
  ultimately show ?thesis by (simp add: plain_char_def)
qed

lemma upper_hex_plain: "n < 16 \<Longrightarrow> plain_char (upper_hex n)"
proof -
  assume "n < 16"
  then have "n \<in> set [0..<16]" by simp
  moreover have "list_all (\<lambda>n. plain_char (upper_hex n)) [0..<16]" by code_simp
  ultimately show ?thesis unfolding list_all_iff by blast
qed

lemma escape_char_plain: "list_all plain_char (escape_char c)"
proof -
  have "plain_char CHR ''%''" by code_simp
  then show ?thesis
    using unreserved_plain [of c] upper_hex_plain [OF char_nibbles(1)] upper_hex_plain [OF char_nibbles(2)]
    by (simp add: escape_char_def)
qed

lemma PathEscape_plain: "list_all plain_char (PathEscape s)"
  using escape_char_plain by (induction s) (auto simp: PathEscape_def)

lemma unescape_plain: "CHR ''%'' \<notin> set b \<Longrightarrow> unescape (b @ t) = map_option ((@) b) (unescape t)"
  by (induction b; cases "unescape t") auto

text \<open>A transport and an address of which URLs can be made: scheme, address and base path are written
  with characters that stand for themselves, the address has no slash, and the server can be reached
  under the base path.\<close>

definition plain_endpoint :: "('h, 'l, 'x, 'r) HttpTransport \<Rightarrow> Info \<Rightarrow> bool" where
  "plain_endpoint t p \<longleftrightarrow>
     (let scheme = ho_Scheme (ht_opts t); base = ho_BasePath (ht_opts t)
      in list_all plain_char scheme \<and> CHR '':'' \<notin> set scheme \<and>
         list_all plain_char (Address p) \<and> CHR ''/'' \<notin> set (Address p) \<and>
         served_base base)"

lemma served_base_plain:
  assumes "served_base base"
  shows "list_all plain_char base" "CHR ''%'' \<notin> set base" "\<exists>b. base = CHR ''/'' # b"
proof -
  have each: "\<forall>c\<in>set base. unreserved c \<or> c = CHR ''/''" using assms by (simp add: served_base_def list_all_iff)
  moreover have "plain_char CHR ''/''" "\<not> unreserved CHR ''%''" by code_simp+
  ultimately show "list_all plain_char base" "CHR ''%'' \<notin> set base"
    using unreserved_plain unfolding list_all_iff by blast+
  show "\<exists>b. base = CHR ''/'' # b"
    using assms by (cases base) (auto simp: served_base_def split: if_splits list.splits)
qed

definition client_of :: "('h, 'l, 'x, 'r) HttpTransport \<Rightarrow> Info \<Rightarrow> HttpClient" where
  "client_of t p = fst (fst (http_NewClient t p ()))"

lemma takeWhile_stop: "\<forall>x\<in>set xs. P x \<Longrightarrow> \<not> P y \<Longrightarrow> takeWhile P (xs @ y # ys) = xs"
  by (induction xs) auto

lemma notin_all: "x \<notin> set xs \<Longrightarrow> \<forall>y\<in>set xs. y \<noteq> x"
  by blast

lemma url_Parse_client:
  assumes "plain_endpoint t p" "list_all plain_char rest" "unescape rest = Some rest'"
  shows "url_Parse (hc_endpoint (client_of t p) @ PathEscape name @ ''/'' @ rest) =
    Some (ho_Scheme (ht_opts t), Address p, ho_BasePath (ht_opts t) @ name @ ''/'' @ rest',
      ho_BasePath (ht_opts t) @ PathEscape name @ ''/'' @ rest)"
proof -
  let ?sc = "ho_Scheme (ht_opts t)" and ?b = "ho_BasePath (ht_opts t)" and ?a = "Address p"
  let ?path = "?b @ PathEscape name @ ''/'' @ rest"
  let ?u = "?sc @ ''://'' @ ?a @ ?path"
  have base: "served_base ?b" using assms(1) by (simp add: plain_endpoint_def Let_def)
  obtain b' where b: "?b = CHR ''/'' # b'" using served_base_plain(3) [OF base] by blast
  have u: "hc_endpoint (client_of t p) @ PathEscape name @ ''/'' @ rest = ?u"
    by (simp add: client_of_def http_NewClient_def)
  have "list_all plain_char ''://''" "list_all plain_char ''/''" by code_simp+
  then have plain: "list_all plain_char ?u"
    using assms(1,2) PathEscape_plain [of name] served_base_plain(1) [OF base] by (simp add: plain_endpoint_def Let_def)
  have each: "plain_char c" if "c \<in> set ?u" for c
    using plain that unfolding list_all_iff by (rule bspec)
  have ctl: "\<not> (\<exists>c\<in>set ?u. (of_char c :: nat) < 32 \<or> c = CHR 0x7F)"
  proof
    assume "\<exists>c\<in>set ?u. (of_char c :: nat) < 32 \<or> c = CHR 0x7F"
    then obtain c where "c \<in> set ?u" "(of_char c :: nat) < 32 \<or> c = CHR 0x7F" by (rule bexE)
    with each [of c] show False unfolding plain_char_def by linarith
  qed
  have no: "CHR '':'' \<notin> set ?sc" "CHR ''/'' \<notin> set ?a" "CHR ''%'' \<notin> set ?b"
    using assms(1) served_base_plain(2) [OF base] by (simp_all add: plain_endpoint_def Let_def)
  have scheme: "takeWhile (\<lambda>c. c \<noteq> CHR '':'') ?u = ?sc"
    using takeWhile_stop [of ?sc _ "CHR '':''" "''//'' @ ?a @ ?path", OF notin_all [OF no(1)]] by simp
  have all: "takeWhile (\<lambda>c. c \<noteq> CHR ''?'' \<and> c \<noteq> CHR ''#'') (?a @ ?path) = ?a @ ?path"
    unfolding takeWhile_eq_all_conv
  proof
    fix c assume "c \<in> set (?a @ ?path)"
    then have "c \<in> set ?u" unfolding set_append by blast
    from each [OF this] show "c \<noteq> CHR ''?'' \<and> c \<noteq> CHR ''#''" by (simp add: plain_char_def)
  qed
  have host: "takeWhile (\<lambda>c. c \<noteq> CHR ''/'') (?a @ ?path) = ?a"
    using takeWhile_stop [of ?a _ "CHR ''/''" "b' @ PathEscape name @ ''/'' @ rest", OF notin_all [OF no(2)]]
    by (simp add: b)
  have path: "unescape ?path = Some (?b @ name @ ''/'' @ rest')"
    using assms(3) by (simp add: unescape_plain [OF no(3)] unescape_PathEscape)
  have cut: "drop (length ?sc) ?u = ''://'' @ ?a @ ?path" "drop 3 (''://'' @ ?a @ ?path) = ?a @ ?path"
    "drop (length ?a) (?a @ ?path) = ?path" by simp_all
  show ?thesis
    unfolding u url_Parse_def Let_def scheme cut all host path
    by (simp only: ctl HasPrefix_append simp_thms if_False option.map)
qed

section \<open>The server at the other end\<close>

text \<open>A network that takes every request to one server.  A request whose path begins with the base path
  and is clean goes to the handler.  Any other the server answers itself, with a redirection or with 404;
  what comes of that, a redirection being followed by the client, is the argument \<open>other\<close>.  A handler
  that panics has its connection closed, which the client sees as an end of file.\<close>

definition deliver ::
  "('m, 'c, 't, 'w, 'p) istate network \<Rightarrow> ('m, 'c, 't, 'w, 'p) runtime \<Rightarrow> wire \<Rightarrow> byteview role \<Rightarrow>
   ('h, 'l, 'x, 'r) HttpTransport \<Rightarrow> ('m, 'c, 't, 'w, 'p) istate network" where
  "deliver other rt wire role t r s =
     (if cleanPath (rq_EscapedPath r) = rq_EscapedPath r \<and> HasPrefix (rq_EscapedPath r) (ho_BasePath (ht_opts t))
      then case ServeHTTP rt wire role t r s of Done res s' \<Rightarrow> (Inr res, s') | _ \<Rightarrow> (Inl EOF, s)
      else other r s)"

text \<open>What is asked of the encodings: what was encoded is decoded.  The group and the key of a message
  are required fields, without which there is no encoding.  JSON decodes what it encoded for texts in
  ASCII and not for every byte string.\<close>

definition ascii :: "string \<Rightarrow> bool" where
  "ascii s \<longleftrightarrow> list_all (\<lambda>c. (of_char c :: nat) < 128) s"

definition wire_ok :: "wire \<Rightarrow> bool" where
  "wire_ok wire \<longleftrightarrow>
     (\<forall>r. \<exists>b. wr_MarshalGet wire r = (b, None) \<and> wr_UnmarshalGet wire b = (r, None)) \<and>
     (\<forall>r. sr_Group r \<noteq> None \<longrightarrow> sr_Key r \<noteq> None \<longrightarrow>
        (\<exists>b. wr_MarshalSet wire r = (b, None) \<and> wr_UnmarshalSet wire b = (r, None))) \<and>
     (\<forall>name keys. ascii name \<longrightarrow> list_all ascii keys \<longrightarrow>
        (\<exists>b. wr_MarshalKeys wire \<lparr>rk_Group = Some name, rk_Keys = keys\<rparr> = (b, None) \<and>
             wr_UnmarshalKeys wire b = (\<lparr>rk_Group = Some name, rk_Keys = keys\<rparr>, None)))"

text \<open>The handler takes the group up to the first slash after the base path.\<close>

lemma ServeHTTP_routes:
  assumes "ht_registered t" "rq_Path r = ho_BasePath (ht_opts t) @ name @ ''/'' @ key"
    and "CHR ''/'' \<notin> set name"
  shows "ServeHTTP rt wire role t r = serve_method rt wire role name key r"
proof
  fix s
  have "split_slash (drop (length (ho_BasePath (ht_opts t))) (rq_Path r)) = [name, key]"
    using assms(2,3) split_slash_append [of name key] by simp
  then show "ServeHTTP rt wire role t r s = serve_method rt wire role name key r s"
    using assms(1,2)
    by (simp add: ServeHTTP_def Let_def exec instance_GetGroup_def as_transportMethods_def)
qed

text \<open>A request for the group \<open>n\<close> and the rest of a path, which the server reads as \<open>name\<close> and \<open>key\<close>.\<close>

definition reads_as :: "string \<Rightarrow> string \<Rightarrow> string \<Rightarrow> string \<Rightarrow> bool" where
  "reads_as n k name key \<longleftrightarrow> n @ ''/'' @ k = name @ ''/'' @ key \<and> CHR ''/'' \<notin> set name"

lemma send_routes:
  assumes "ht_registered t" "plain_endpoint t p" "reads_as n k name key" "kept_segment n"
    and "kept_rest rest" "list_all plain_char rest" "unescape rest = Some k"
  shows "\<exists>path. send_request (deliver other rt wire role t) m
      (hc_endpoint (client_of t p) @ PathEscape n @ ''/'' @ rest) b s =
    (case serve_method rt wire role name key
            \<lparr>rq_Method = m, rq_Host = Address p, rq_Path = ho_BasePath (ht_opts t) @ name @ ''/'' @ key,
             rq_EscapedPath = path, rq_Body = b, rq_readErr = None\<rparr> s of
       Done res s' \<Rightarrow> (Inr res, s') | _ \<Rightarrow> (Inl EOF, s))"
proof -
  let ?base = "ho_BasePath (ht_opts t)"
  have base: "served_base ?base" using assms(2) by (simp add: plain_endpoint_def Let_def)
  have "kept_segment (PathEscape n)" using assms(4) PathEscape_kept by (simp add: kept_segment_def)
  note clean = routed [OF base this assms(5)]
  have path: "?base @ n @ ''/'' @ k = ?base @ name @ ''/'' @ key" and name: "CHR ''/'' \<notin> set name"
    using assms(3) by (simp_all add: reads_as_def)
  show ?thesis
    unfolding send_request_def http_NewRequest_def url_Parse_client [OF assms(2,6,7)] path
    by (rule exI [of _ "?base @ PathEscape n @ ''/'' @ rest"])
      (use clean in \<open>simp add: deliver_def ServeHTTP_routes [OF assms(1) _ name, where key = key]\<close>)
qed

lemma makeRequest_routes:
  assumes "ht_registered t" "plain_endpoint t p" "reads_as n k name key" "kept_segment n" "k \<noteq> ''.''" "k \<noteq> ''..''"
  shows "\<exists>path. makeRequest (deliver other rt wire role t) (client_of t p) m n k b s =
    (case serve_method rt wire role name key
            \<lparr>rq_Method = m, rq_Host = Address p, rq_Path = ho_BasePath (ht_opts t) @ name @ ''/'' @ key,
             rq_EscapedPath = path, rq_Body = b, rq_readErr = None\<rparr> s of
       Done res s' \<Rightarrow> (Inr res, s') | _ \<Rightarrow> (Inl EOF, s))"
proof -
  have un: "unescape (PathEscape k) = Some k" using unescape_PathEscape [of k "[]"] by simp
  have "PathEscape [] = []" by (simp add: PathEscape_def)
  then have "kept_rest (PathEscape k)"
    using PathEscape_kept [of k] assms(5,6)
    by (cases "k = []") (simp_all add: kept_rest_def segments_single [OF slash_escaped])
  from send_routes [OF assms(1-4) this PathEscape_plain un] show ?thesis by (simp add: makeRequest_def)
qed

section \<open>Calls of the client\<close>

abbreviation get_req :: "string \<Rightarrow> string \<Rightarrow> GetRequest" where
  "get_req name key \<equiv> \<lparr>gr_Group = Some name, gr_Key = Some key\<rparr>"

definition group_get ::
  "('m, 'c, 't, 'w, 'p) runtime \<Rightarrow> byteview role \<Rightarrow> string \<Rightarrow> string \<Rightarrow>
   (('m, 'c, 't, 'w, 'p) istate, goerr option \<times> 'p sink option) act" where
  "group_get rt role name key =
     on_group rt name (\<lambda>E. group_Get E role key (Some (AllocatingByteSliceSink (Some None))))"

text \<open>What the client makes of the answer of the group.\<close>

definition get_outcome ::
  "GetResponse \<Rightarrow> 's \<Rightarrow> ('s, goerr option \<times> 'p sink option) res \<Rightarrow> goerr option \<times> GetResponse \<times> 's" where
  "get_outcome out s r =
    (case r of
       Done (None, d) s' \<Rightarrow>
         let dest = (case d of Some x \<Rightarrow> x | None \<Rightarrow> AllocatingByteSliceSink (Some None))
         in (None, \<lparr>gp_Value = alloc_dst dest, gp_MinuteQps = None,
                    gp_Expire = Some (encode_expire (bv_Expire (Sink_View dest)))\<rparr>, s')
     | Done (Some e, d) s' \<Rightarrow>
         let msg = trim_newlines (take 1048576 (Error e @ [CHR 0x0A]))
         in (Some (if Is_ErrNotFound e then ErrNotFound msg else ErrRemoteCall msg), out, s')
     | _ \<Rightarrow> (Some EOF, out, s))"

lemma Get_routes:
  assumes "wire_ok wire" "ht_registered t" "plain_endpoint t p" "reads_as n k name key" "kept_segment n"
    and "k \<noteq> ''.''" "k \<noteq> ''..''"
  shows "HttpClient_Get (deliver other rt wire role t) wire (client_of t p) (get_req n k) out s =
    get_outcome out s (group_get rt role name key s)"
proof -
  have wire: "\<exists>b. wr_MarshalGet wire r = (b, None) \<and> wr_UnmarshalGet wire b = (r, None)" for r
    using assms(1) by (simp add: wire_ok_def)
  obtain path where "makeRequest (deliver other rt wire role t) (client_of t p) ''GET'' n k [] s =
    (case serve_method rt wire role name key
            \<lparr>rq_Method = ''GET'', rq_Host = Address p, rq_Path = ho_BasePath (ht_opts t) @ name @ ''/'' @ key,
             rq_EscapedPath = path, rq_Body = [], rq_readErr = None\<rparr> s of
       Done res s' \<Rightarrow> (Inr res, s') | _ \<Rightarrow> (Inl EOF, s))"
    using makeRequest_routes [OF assms(2-7)] by blast
  then have req: "makeRequest (deliver other rt wire role t) (client_of t p) ''GET''
      (GetRequest_GetGroup (Some (get_req n k))) (GetRequest_GetKey (Some (get_req n k))) [] s =
    (case serve_get rt wire role name key s of Done res s' \<Rightarrow> (Inr res, s') | _ \<Rightarrow> (Inl EOF, s))"
    by (simp add: GetRequest_GetGroup_def GetRequest_GetKey_def serve_method_def)
  show ?thesis
  proof (cases "group_get rt role name key s")
    case (Done x s')
    obtain err d where x: "x = (err, d)" by fastforce
    show ?thesis
    proof (cases err)
      case None
      let ?d = "case d of Some x \<Rightarrow> x | None \<Rightarrow> AllocatingByteSliceSink (Some None)"
      let ?res = "\<lparr>gp_Value = alloc_dst ?d, gp_MinuteQps = None,
        gp_Expire = Some (encode_expire (bv_Expire (Sink_View ?d)))\<rparr>"
      obtain b where b: "wr_MarshalGet wire ?res = (b, None)" "wr_UnmarshalGet wire b = (?res, None)"
        using wire by blast
      have "serve_get rt wire role name key s = Done (http_reply 200 b) s'"
        using Done x None b(1) by (simp add: serve_get_def group_get_def exec)
      then show ?thesis
        using Done x None b(2)
        by (simp add: HttpClient_Get_def req get_response_def http_reply_def get_outcome_def Let_def)
    next
      case (Some e)
      then have "serve_get rt wire role name key s =
          Done (http_Error (Error e) (if Is_ErrNotFound e then 404 else 503)) s'"
        using Done x by (simp add: serve_get_def group_get_def exec)
      then show ?thesis
        using Done x Some
        by (simp add: HttpClient_Get_def req get_response_def http_Error_def http_reply_def get_outcome_def Let_def)
    qed
  next
    case (Crash m)
    then have "serve_get rt wire role name key s = Crash m" by (simp add: serve_get_def group_get_def exec)
    then show ?thesis using Crash by (simp add: HttpClient_Get_def req get_outcome_def)
  next
    case Hang
    then have "serve_get rt wire role name key s = Hang" by (simp add: serve_get_def group_get_def bnd_def)
    then show ?thesis using Hang by (simp add: HttpClient_Get_def req get_outcome_def)
  qed
qed

text \<open>A \<open>PUT\<close> takes the group from the path and the key from the body.\<close>

lemma Set_routes:
  assumes "wire_ok wire" "ht_registered t" "plain_endpoint t p" "reads_as n k name key" "kept_segment n"
    and "k \<noteq> ''.''" "k \<noteq> ''..''"
  shows "HttpClient_Set (deliver other rt wire role t) wire (client_of t p) (set_req n k v e) s =
    (case on_group rt name (\<lambda>E. group_RemoteSet E k v (decode_expire (Some (encode_expire e)))) s of
       Done _ s' \<Rightarrow> (None, s') | _ \<Rightarrow> (Some EOF, s))"
proof -
  have "\<exists>b. wr_MarshalSet wire (set_req n k v e) = (b, None) \<and> wr_UnmarshalSet wire b = (set_req n k v e, None)"
    using assms(1) unfolding wire_ok_def by (simp add: set_req_def)
  then obtain b where b: "wr_MarshalSet wire (set_req n k v e) = (b, None)"
    "wr_UnmarshalSet wire b = (set_req n k v e, None)" by blast
  obtain path where req: "makeRequest (deliver other rt wire role t) (client_of t p) ''PUT'' n k b s =
    (case serve_method rt wire role name key
            \<lparr>rq_Method = ''PUT'', rq_Host = Address p, rq_Path = ho_BasePath (ht_opts t) @ name @ ''/'' @ key,
             rq_EscapedPath = path, rq_Body = b, rq_readErr = None\<rparr> s of
       Done res s' \<Rightarrow> (Inr res, s') | _ \<Rightarrow> (Inl EOF, s))"
    using makeRequest_routes [OF assms(2-7)] by blast
  show ?thesis
    using b
    by (simp add: HttpClient_Set_def SetRequest_GetGroup_def SetRequest_GetKey_def set_req_def req
        serve_method_def serve_put_def bnd_def ret_def status_error_def http_reply_def split: res.split)
qed

lemma Remove_routes:
  assumes "ht_registered t" "plain_endpoint t p" "reads_as n k name key" "kept_segment n"
    and "k \<noteq> ''.''" "k \<noteq> ''..''"
  shows "HttpClient_Remove (deliver other rt wire role t) (client_of t p) (get_req n k) s =
    (case on_group rt name (\<lambda>E. group_LocalRemove E key) s of
       Done _ s' \<Rightarrow> (None, s') | _ \<Rightarrow> (Some EOF, s))"
proof -
  obtain path where req: "makeRequest (deliver other rt wire role t) (client_of t p) ''DELETE'' n k [] s =
    (case serve_method rt wire role name key
            \<lparr>rq_Method = ''DELETE'', rq_Host = Address p, rq_Path = ho_BasePath (ht_opts t) @ name @ ''/'' @ key,
             rq_EscapedPath = path, rq_Body = [], rq_readErr = None\<rparr> s of
       Done res s' \<Rightarrow> (Inr res, s') | _ \<Rightarrow> (Inl EOF, s))"
    using makeRequest_routes [OF assms] by blast
  show ?thesis
    by (simp add: HttpClient_Remove_def GetRequest_GetGroup_def GetRequest_GetKey_def req
        serve_method_def bnd_def ret_def status_error_def http_reply_def split: res.split)
qed

lemma RemoveKeys_routes:
  assumes "wire_ok wire" "ht_registered t" "plain_endpoint t p" "CHR ''/'' \<notin> set name" "kept_segment name"
    and "ascii name" "list_all ascii keys"
  shows "HttpClient_RemoveKeys (deliver other rt wire role t) wire (client_of t p) \<lparr>rk_Group = Some name, rk_Keys = keys\<rparr> s =
    (case each (\<lambda>k. on_group rt name (\<lambda>E. group_LocalRemove E k)) keys s of
       Done _ s' \<Rightarrow> (None, s') | _ \<Rightarrow> (Some EOF, s))"
proof -
  obtain c where c: "wr_MarshalKeys wire \<lparr>rk_Group = Some name, rk_Keys = keys\<rparr> = (c, None)"
    "wr_UnmarshalKeys wire c = (\<lparr>rk_Group = Some name, rk_Keys = keys\<rparr>, None)"
    using assms(1,6,7) unfolding wire_ok_def by blast
  have rest: "kept_rest ''_remove-keys/''" "list_all plain_char ''_remove-keys/''"
    "unescape ''_remove-keys/'' = Some ''_remove-keys/''" by code_simp+
  have pre: "HasPrefix ''_remove-keys/'' ''_remove-keys/''" by code_simp
  have "reads_as name ''_remove-keys/'' name ''_remove-keys/''" using assms(4) by (simp add: reads_as_def)
  from send_routes [OF assms(2,3) this assms(5) rest, of other rt wire role "''POST''" c s]
  obtain path where req: "send_request (deliver other rt wire role t) ''POST''
      (hc_endpoint (client_of t p) @ PathEscape name @ ''/'' @ ''_remove-keys/'') c s =
    (case serve_method rt wire role name ''_remove-keys/''
            \<lparr>rq_Method = ''POST'', rq_Host = Address p, rq_Path = ho_BasePath (ht_opts t) @ name @ ''/'' @ ''_remove-keys/'',
             rq_EscapedPath = path, rq_Body = c, rq_readErr = None\<rparr> s of
       Done res s' \<Rightarrow> (Inr res, s') | _ \<Rightarrow> (Inl EOF, s))" by blast
  show ?thesis
    using c pre
    by (simp add: HttpClient_RemoveKeys_def RemoveKeysRequest_GetGroup_def makeRemoveKeysRequest_def
        req [simplified] serve_method_def handleRemoveKeysRequest_def bnd_def ret_def
        http_reply_def split: res.split)
qed

lemma reads_as_refl: "CHR ''/'' \<notin> set name \<Longrightarrow> reads_as name k name k"
  by (simp add: reads_as_def)

section \<open>An encoding for examples\<close>

text \<open>Messages as lists of fields that may be missing, a field as its characters one by one.\<close>

fun enc_field :: "string option \<Rightarrow> bytes" where
  "enc_field None = ''n''"
| "enc_field (Some s) = ''s'' @ concat (map (\<lambda>c. [CHR ''c'', c]) s) @ ''e''"

fun dec_fields :: "string option \<Rightarrow> bytes \<Rightarrow> string option list" where
  "dec_fields acc [] = []"
| "dec_fields None (c # s) = (if c = CHR ''n'' then None # dec_fields None s else dec_fields (Some []) s)"
| "dec_fields (Some acc) (c # s) =
     (if c = CHR ''e'' then Some (rev acc) # dec_fields None s
      else case s of [] \<Rightarrow> [] | d # s' \<Rightarrow> dec_fields (Some (d # acc)) s')"

lemma dec_text:
  "dec_fields (Some acc) (concat (map (\<lambda>c. [CHR ''c'', c]) s) @ CHR ''e'' # t) = Some (rev acc @ s) # dec_fields None t"
  by (induction s arbitrary: acc) auto

lemma dec_enc: "dec_fields None (concat (map enc_field xs)) = xs"
proof (induction xs)
  case (Cons x xs)
  then show ?case using dec_text [of "[]"] by (cases x) auto
qed simp

definition enc_word :: "int64 \<Rightarrow> string" where
  "enc_word w = map (\<lambda>i. if bit w i then CHR ''1'' else CHR ''0'') [0..<64]"

definition dec_word :: "string \<Rightarrow> int64" where
  "dec_word s = horner_sum of_bool 2 (map (\<lambda>c. c = CHR ''1'') s)"

lemma dec_enc_word: "dec_word (enc_word w) = w"
proof -
  have "map (\<lambda>c. c = CHR ''1'') (enc_word w) = map (bit w) [0..<64]" by (simp add: enc_word_def)
  then have "dec_word (enc_word w) = take_bit 64 w" by (simp add: dec_word_def horner_sum_bit_eq_take_bit)
  also have "\<dots> = w" by (rule bit_word_eqI) (simp add: bit_take_bit_iff)
  finally show ?thesis .
qed

definition demo_wire :: wire where
  "demo_wire =
     \<lparr>wr_MarshalGet = (\<lambda>r. (concat (map enc_field
        [gp_Value r, map_option enc_word (gp_MinuteQps r), map_option enc_word (gp_Expire r)]), None)),
      wr_UnmarshalGet = (\<lambda>b. case dec_fields None b of
          [v, q, e] \<Rightarrow> (\<lparr>gp_Value = v, gp_MinuteQps = map_option dec_word q, gp_Expire = map_option dec_word e\<rparr>, None)
        | _ \<Rightarrow> (empty_response, Some (ErrString ''proto''))),
      wr_MarshalSet = (\<lambda>r. (concat (map enc_field
        [sr_Group r, sr_Key r, sr_Value r, map_option enc_word (sr_Expire r)]), None)),
      wr_UnmarshalSet = (\<lambda>b. case dec_fields None b of
          [g, k, v, e] \<Rightarrow> (\<lparr>sr_Group = g, sr_Key = k, sr_Value = v, sr_Expire = map_option dec_word e\<rparr>, None)
        | _ \<Rightarrow> (\<lparr>sr_Group = None, sr_Key = None, sr_Value = None, sr_Expire = None\<rparr>, Some (ErrString ''proto''))),
      wr_MarshalKeys = (\<lambda>r. (concat (map enc_field (rk_Group r # map Some (rk_Keys r))), None)),
      wr_UnmarshalKeys = (\<lambda>b. case dec_fields None b of
          g # ks \<Rightarrow> (\<lparr>rk_Group = g, rk_Keys = map the ks\<rparr>, None)
        | _ \<Rightarrow> (\<lparr>rk_Group = None, rk_Keys = []\<rparr>, Some (ErrString ''json'')))\<rparr>"

text \<open>What comes of a request that the handler does not get, in the examples.\<close>

definition demo_other :: "http_request \<Rightarrow> 's \<Rightarrow> (goerr + http_response) \<times> 's" where
  "demo_other r s = (Inr (http_reply 301 []), s)"

lemma demo_wire_ok: "wire_ok demo_wire"
proof -
  have w: "map_option dec_word (map_option enc_word x) = x" for x
    by (cases x) (simp_all add: dec_enc_word)
  have k: "map the (map Some ks) = ks" for ks :: "string list" by (simp add: comp_def)
  show ?thesis
    unfolding wire_ok_def demo_wire_def by (simp add: dec_enc w k del: map_map concat.simps list.map)
qed

definition demo_http :: "(unit, unit, unit, unit) HttpTransport" where
  "demo_http = http_Register (NewHttpTransport () () (\<lambda>_. ())
     \<lparr>ho_Client = None, ho_Scheme = [], ho_BasePath = [], ho_Logger = None, ho_TLSConfig = None, ho_Tracer = None\<rparr>)"

lemma demo_http_ok: "ht_registered demo_http" "plain_endpoint demo_http (demo_peer ''b:80'')"
  by code_simp+

text \<open>A server with the group \<open>g\<close>, whose getter knows no key.\<close>

definition demo_server ::
  "(mutexCache, Info, unit, (Info \<times> demo_request) list, unit) Instance" where
  "demo_server = (demo_instance None)\<lparr>i_groups :=
     (\<lambda>n. if n = ''g'' then Some (demo_group, \<lambda>k d w. (Some (ErrNotFound (''no '' @ k)), d, w)) else None)\<rparr>"

lemma demo_server_get:
  "case group_get demo_runtime Leader ''g'' ''k'' (demo_server, []) of
     Done (err, d) s' \<Rightarrow> err = Some (ErrNotFound ''no k'') | _ \<Rightarrow> False"
  by code_simp

section \<open>Properties\<close>

text \<open>C11.  A \<open>Get\<close> of the client is the \<open>Get\<close> of the group on the peer, for any bytes in the key: when
  the group answers, its bytes and its expiry arrive; when it reports that the key is not found the
  client returns \<open>ErrNotFound\<close>, when it reports anything else \<open>ErrRemoteCall\<close>, each with the message
  of the error; and when the handler panics the client returns an error of the connection.  The name of
  the group is not empty and has no slash, and neither name nor key is \<open>.\<close> or \<open>..\<close>, which the server
  takes out of a path before the handler sees it.\<close>

theorem http_Get_remote:
  assumes "wire_ok wire" "ht_registered t" "plain_endpoint t p" "CHR ''/'' \<notin> set name" "kept_segment name"
    and "key \<noteq> ''.''" "key \<noteq> ''..''"
  shows "HttpClient_Get (deliver other rt wire role t) wire (client_of t p) (get_req name key) out s =
    (case group_get rt role name key s of
       Done (None, d) s' \<Rightarrow>
         let dest = (case d of Some x \<Rightarrow> x | None \<Rightarrow> AllocatingByteSliceSink (Some None))
         in (None, \<lparr>gp_Value = alloc_dst dest, gp_MinuteQps = None,
                    gp_Expire = Some (encode_expire (bv_Expire (Sink_View dest)))\<rparr>, s')
     | Done (Some e, d) s' \<Rightarrow>
         let msg = trim_newlines (take 1048576 (Error e @ [CHR 0x0A]))
         in (Some (if Is_ErrNotFound e then ErrNotFound msg else ErrRemoteCall msg), out, s')
     | _ \<Rightarrow> (Some EOF, out, s))"
  unfolding get_outcome_def [symmetric]
  by (rule Get_routes [OF assms(1-3) reads_as_refl [OF assms(4)] assms(5-7)])

theorem http_Get_remote_witness:
  "\<exists>s'. HttpClient_Get (deliver demo_other demo_runtime demo_wire Leader demo_http) demo_wire
     (client_of demo_http (demo_peer ''b:80'')) (get_req ''g'' ''k'') empty_response (demo_server, []) =
   (Some (ErrNotFound ''no k''), empty_response, s')"
proof -
  obtain d s' where g: "group_get demo_runtime Leader ''g'' ''k'' (demo_server, []) =
      Done (Some (ErrNotFound ''no k''), d) s'"
    using demo_server_get by (auto split: res.splits)
  have "trim_newlines (''no k'' @ [CHR 0x0A]) = ''no k''" by code_simp
  then have "trim_newlines (take 1048576 (Error (ErrNotFound ''no k'') @ [CHR 0x0A])) = ''no k''" by simp
  then show ?thesis
    using http_Get_remote [OF demo_wire_ok demo_http_ok, of "''g''" "''k''" demo_other demo_runtime Leader empty_response
        "(demo_server, [])"] g by (simp add: kept_segment_def)
qed

text \<open>C12.  The writes of the client are the writes of the group on the peer: \<open>Set\<close> stores the key and
  the value it was given with the expiry decoded, whatever their bytes, \<open>Remove\<close> removes the key, and
  \<open>RemoveKeys\<close>, whose keys travel as JSON, removes the keys when they and the name of the group are
  ASCII.  A panic of the handler is an error of the connection.  The name of the group is not empty and
  has no slash, and neither it nor the key of \<open>Set\<close> and \<open>Remove\<close> is \<open>.\<close> or \<open>..\<close>.\<close>

theorem http_writes_remote:
  assumes "wire_ok wire" "ht_registered t" "plain_endpoint t p" "CHR ''/'' \<notin> set name" "kept_segment name"
    and "key \<noteq> ''.''" "key \<noteq> ''..''"
  shows "HttpClient_Set (deliver other rt wire role t) wire (client_of t p) (set_req name key v e) s =
      (case on_group rt name (\<lambda>E. group_RemoteSet E key v (decode_expire (Some (encode_expire e)))) s of
         Done _ s' \<Rightarrow> (None, s') | _ \<Rightarrow> (Some EOF, s)) \<and>
    HttpClient_Remove (deliver other rt wire role t) (client_of t p) (get_req name key) s =
      (case on_group rt name (\<lambda>E. group_LocalRemove E key) s of
         Done _ s' \<Rightarrow> (None, s') | _ \<Rightarrow> (Some EOF, s)) \<and>
    (ascii name \<and> list_all ascii keys \<longrightarrow>
     HttpClient_RemoveKeys (deliver other rt wire role t) wire (client_of t p) \<lparr>rk_Group = Some name, rk_Keys = keys\<rparr> s =
      (case each (\<lambda>k. on_group rt name (\<lambda>E. group_LocalRemove E k)) keys s of
         Done _ s' \<Rightarrow> (None, s') | _ \<Rightarrow> (Some EOF, s)))"
  using Set_routes [OF assms(1-3) reads_as_refl [OF assms(4)] assms(5-7)]
    Remove_routes [OF assms(2,3) reads_as_refl [OF assms(4)] assms(5-7)]
    RemoveKeys_routes [OF assms(1-5)] by blast

theorem http_writes_remote_witness:
  "\<exists>s'. HttpClient_Remove (deliver demo_other demo_runtime demo_wire Leader demo_http)
     (client_of demo_http (demo_peer ''b:80'')) (get_req ''g'' ''a key/?'') (demo_server, []) = (None, s') \<and>
   HttpClient_RemoveKeys (deliver demo_other demo_runtime demo_wire Leader demo_http) demo_wire
     (client_of demo_http (demo_peer ''b:80'')) \<lparr>rk_Group = Some ''h'', rk_Keys = [''k'']\<rparr> (demo_server, []) =
     (Some EOF, (demo_server, []))"
proof -
  have "case on_group demo_runtime ''g'' (\<lambda>E. group_LocalRemove E ''a key/?'') (demo_server, []) of
      Done _ _ \<Rightarrow> True | _ \<Rightarrow> False" by code_simp
  then obtain u s' where g: "on_group demo_runtime ''g'' (\<lambda>E. group_LocalRemove E ''a key/?'') (demo_server, []) = Done u s'"
    by (auto split: res.splits)
  have h: "each (\<lambda>k. on_group demo_runtime ''h'' (\<lambda>E. group_LocalRemove E k)) [''k''] (demo_server, []) = Crash nil_deref"
    by (simp add: exec on_group_def demo_server_def)
  have "ascii ''h''" "list_all ascii [''k'']" by code_simp+
  then show ?thesis
    using http_writes_remote [OF demo_wire_ok demo_http_ok, of "''g''" "''a key/?''" demo_other demo_runtime Leader
        None zero_time "(demo_server, [])" "[]"]
      http_writes_remote [OF demo_wire_ok demo_http_ok, of "''h''" "[]" demo_other demo_runtime Leader
        None zero_time "(demo_server, [])" "[''k'']"] g h by (simp add: kept_segment_def)
qed

lemma on_group_nil: "i_groups (fst s) name = None \<Longrightarrow> on_group rt name f s = Crash nil_deref"
  by (simp add: on_group_def)

text \<open>C21.  An unknown group is not an error the handler answers: the nil pointer that \<open>GetGroup\<close> returns
  for it is not a nil interface, so the answer 404 is never given, and a GET or a DELETE for the group
  panics.  A client that asks for a value gets an error of the connection and not \<open>ErrNotFound\<close>.\<close>

theorem http_unknown_group:
  assumes "ht_registered t" "rq_Path r = ho_BasePath (ht_opts t) @ name @ ''/'' @ key"
    and "CHR ''/'' \<notin> set name" "i_groups (fst s) name = None"
  shows "ServeHTTP rt wire role t r s \<noteq> Done (http_Error (''no such group: '' @ name) 404) s' \<and>
    (rq_Method r = ''GET'' \<or> rq_Method r = ''DELETE'' \<longrightarrow> ServeHTTP rt wire role t r s = Crash nil_deref)"
proof -
  note nil = on_group_nil [where rt = rt, OF assms(4)]
  have serve: "ServeHTTP rt wire role t r s = serve_method rt wire role name key r s"
    by (simp add: ServeHTTP_routes [OF assms(1-3)])
  have code: "c \<noteq> 404 \<Longrightarrow> http_Error m c \<noteq> http_Error m' 404" "http_reply 200 b \<noteq> http_Error m' 404" for m m' c b
    by (simp_all add: http_Error_def http_reply_def)
  have put: "serve_put rt wire name r s \<noteq> Done (http_Error m 404) s'" for m
    by (simp add: serve_put_def exec nil code split: option.split prod.split)
  have keys: "handleRemoveKeysRequest rt wire name r s \<noteq> Done (http_Error m 404) s'" for m
    by (cases "rk_Keys (fst (wr_UnmarshalKeys wire (rq_Body r)))")
      (auto simp: handleRemoveKeysRequest_def exec nil code split: option.split prod.split)
  have get: "serve_get rt wire role name key s = Crash nil_deref"
    by (simp add: serve_get_def exec nil)
  have post: "http_Error ''invalid path for POST method'' 404 \<noteq> http_Error (''no such group: '' @ name) 404"
    by (simp add: http_Error_def http_reply_def)
  show ?thesis
    unfolding serve serve_method_def
    using put keys get post code by (simp add: exec nil)
qed

theorem http_unknown_group_witness:
  "ServeHTTP demo_runtime demo_wire Leader demo_http
     \<lparr>rq_Method = ''GET'', rq_Host = ''b:80'', rq_Path = ''/_groupcache/h/k'',
      rq_EscapedPath = ''/_groupcache/h/k'', rq_Body = [], rq_readErr = None\<rparr>
     (demo_server, []) = Crash nil_deref"
proof -
  have "''/_groupcache/h/k'' = ho_BasePath (ht_opts demo_http) @ ''h'' @ ''/'' @ ''k''" by code_simp
  then show ?thesis
    using http_unknown_group [OF demo_http_ok(1), of "\<lparr>rq_Method = ''GET'', rq_Host = ''b:80'',
        rq_Path = ''/_groupcache/h/k'',
      rq_EscapedPath = ''/_groupcache/h/k'', rq_Body = [], rq_readErr = None\<rparr>" "''h''" "''k''" "(demo_server, [])"
        demo_runtime demo_wire Leader "(demo_server, [])"]
    by (simp add: demo_server_def)
qed

text \<open>C40.  A slash in the name of a group is not kept apart from the slash before the key: the client
  escapes both, the server decodes the path before it splits it at the first slash, and so a request to
  get or to remove key \<open>k\<close> of the group \<open>a/b\<close> is carried out by the server on key \<open>b/k\<close> of the group \<open>a\<close>,
  whether that is the group of another name or none.  A \<open>Set\<close>, whose key travels in the body, stores
  key \<open>k\<close> in the group \<open>a\<close>.\<close>

theorem http_slash_group:
  assumes "wire_ok wire" "ht_registered t" "plain_endpoint t p" "CHR ''/'' \<notin> set a"
    and "key \<noteq> ''.''" "key \<noteq> ''..''"
  shows "HttpClient_Get (deliver other rt wire role t) wire (client_of t p) (get_req (a @ ''/'' @ b) key) out s =
      get_outcome out s (group_get rt role a (b @ ''/'' @ key) s) \<and>
    HttpClient_Remove (deliver other rt wire role t) (client_of t p) (get_req (a @ ''/'' @ b) key) s =
      (case on_group rt a (\<lambda>E. group_LocalRemove E (b @ ''/'' @ key)) s of
         Done _ s' \<Rightarrow> (None, s') | _ \<Rightarrow> (Some EOF, s)) \<and>
    HttpClient_Set (deliver other rt wire role t) wire (client_of t p) (set_req (a @ ''/'' @ b) key v e) s =
      (case on_group rt a (\<lambda>E. group_RemoteSet E key v (decode_expire (Some (encode_expire e)))) s of
         Done _ s' \<Rightarrow> (None, s') | _ \<Rightarrow> (Some EOF, s))"
proof -
  have reads: "reads_as (a @ ''/'' @ b) key a (b @ ''/'' @ key)" using assms(4) by (simp add: reads_as_def)
  have "CHR ''/'' \<in> set (a @ ''/'' @ b)" "CHR ''/'' \<notin> set ''.''" "CHR ''/'' \<notin> set ''..''" by simp_all
  then have kept: "kept_segment (a @ ''/'' @ b)" unfolding kept_segment_def by (metis append_is_Nil_conv list.distinct(1))
  show ?thesis
    using Get_routes [OF assms(1-3) reads kept assms(5,6)] Remove_routes [OF assms(2,3) reads kept assms(5,6)]
      Set_routes [OF assms(1-3) reads kept assms(5,6)] by blast
qed

theorem http_slash_group_witness:
  "\<exists>s'. HttpClient_Get (deliver demo_other demo_runtime demo_wire Leader demo_http) demo_wire
     (client_of demo_http (demo_peer ''b:80'')) (get_req ''g/h'' ''k'') empty_response (demo_server, []) =
   (Some (ErrNotFound ''no h/k''), empty_response, s')"
proof -
  have "case group_get demo_runtime Leader ''g'' ''h/k'' (demo_server, []) of
      Done (err, d) s' \<Rightarrow> err = Some (ErrNotFound ''no h/k'') | _ \<Rightarrow> False" by code_simp
  then obtain d s' where g: "group_get demo_runtime Leader ''g'' ''h/k'' (demo_server, []) =
      Done (Some (ErrNotFound ''no h/k''), d) s'"
    by (auto split: res.splits)
  have "trim_newlines (''no h/k'' @ [CHR 0x0A]) = ''no h/k''" by code_simp
  then have "trim_newlines (take 1048576 (Error (ErrNotFound ''no h/k'') @ [CHR 0x0A])) = ''no h/k''" by simp
  then show ?thesis
    using http_slash_group [OF demo_wire_ok demo_http_ok, of "''g''" "''k''" demo_other demo_runtime Leader "''h''"
        empty_response "(demo_server, [])"] g by (simp add: get_outcome_def)
qed

end
