(* ===== verification/HttpSafety.thy ===== *)
theory HttpSafety
  imports HttpLaws
begin

text \<open>
  The handler of src/transport/http_transport.go always answers: progress and preservation for
  requests to groups the instance knows.  And the loop of \<open>waitForConnect\<close> ends exactly when a dial
  succeeds or the context is over.
\<close>

section \<open>Well-formed instances\<close>

definition instance_ok :: "(mutexCache, 'c, 't, 'w, 'p) Instance \<Rightarrow> bool" where
  "instance_ok i \<longleftrightarrow>
     (\<forall>name g getter. i_groups i name = Some (g, getter) \<longrightarrow>
        mutex_ok (g_mainCache g) \<and> mutex_ok (g_hotCache g))"

definition serving :: "string set \<Rightarrow> (mutexCache, 'c, 't, 'w, 'p) istate \<Rightarrow> bool" where
  "serving D s \<longleftrightarrow> instance_ok (fst s) \<and> dom (i_groups (fst s)) = D"

lemma trusted_any:
  "fair (e_sched E) \<Longrightarrow> trusted (\<lambda>_ _. True) (\<lambda>_. True) E"
  by (simp add: trusted_def answers_def)

abbreviation any_safe :: "(mutexCache, 'w) gstate \<Rightarrow> bool" where
  "any_safe \<equiv> safe mutex_ok mutex_contents (\<lambda>_ _. True) (\<lambda>_. True)"

lemma any_safe_iff: "any_safe s \<longleftrightarrow> mutex_ok (g_mainCache (fst s)) \<and> mutex_ok (g_hotCache (fst s))"
  by (simp add: safe_def holds_only_def)

text \<open>Keeping the caches of a group in order keeps the instance in order.\<close>

lemma serving_on_group:
  fixes rt :: "(mutexCache, 'c, 't, 'w, 'p) runtime"
  assumes f: "\<And>E. e_cache E = rt_cache rt \<Longrightarrow> e_sched E = rt_sched rt \<Longrightarrow>
      succeeds any_safe (f E) (\<lambda>x s. any_safe s \<and> R x)"
    and "name \<in> D"
  shows "succeeds (serving D) (on_group rt name f) (\<lambda>x s. serving D s \<and> R x)"
  unfolding succeeds_def
proof (intro allI impI)
  fix s :: "(mutexCache, 'c, 't, 'w, 'p) istate"
  assume s: "serving D s"
  then obtain g getter where g: "i_groups (fst s) name = Some (g, getter)"
    using assms(2) by (auto simp: serving_def)
  have "any_safe (g, snd s)" using s g by (auto simp: any_safe_iff serving_def instance_ok_def)
  moreover have "succeeds any_safe (f (env_of rt (fst s) getter)) (\<lambda>x s. any_safe s \<and> R x)"
    by (rule f) (simp_all add: env_of_def)
  ultimately obtain x g' w' where x: "f (env_of rt (fst s) getter) (g, snd s) = Done x (g', w')"
    "any_safe (g', w')" "R x"
    using succeedsD by fastforce
  have dom: "dom ((i_groups (fst s))(name \<mapsto> (g', getter))) = D"
    using s g by (auto simp: serving_def)
  have "instance_ok ((fst s)\<lparr>i_groups := (i_groups (fst s))(name \<mapsto> (g', getter))\<rparr>)"
    using s x(2) by (auto simp: instance_ok_def serving_def any_safe_iff)
  then show "\<exists>x t. on_group rt name f s = Done x t \<and> serving D t \<and> R x"
    using x dom by (simp add: on_group_def g serving_def)
qed

text \<open>The requests a handler can be given: the group is known, and the body of a PUT names a key.\<close>

definition request_ok :: "wire \<Rightarrow> ('h, 'l, 'x, 'r) HttpTransport \<Rightarrow> string set \<Rightarrow> http_request \<Rightarrow> bool" where
  "request_ok wire t D r \<longleftrightarrow>
     HasPrefix (rq_Path r) (ho_BasePath (ht_opts t)) \<and>
     (case split_slash (drop (length (ho_BasePath (ht_opts t))) (rq_Path r)) of
        [name, key] \<Rightarrow> name \<in> D | _ \<Rightarrow> True) \<and>
     (rq_Method r = ''PUT'' \<longrightarrow> snd (wr_UnmarshalSet wire (rq_Body r)) = None \<longrightarrow>
        sr_Key (fst (wr_UnmarshalSet wire (rq_Body r))) \<noteq> None)"

definition known_status :: "http_response \<Rightarrow> bool" where
  "known_status res \<longleftrightarrow> rs_StatusCode res \<in> {200, 400, 404, 405, 500, 503}"

lemma known_status_simps [simp]:
  "known_status (http_reply 200 b)" "known_status (http_Error m 400)" "known_status (http_Error m 404)"
  "known_status (http_Error m 405)" "known_status (http_Error m 500)" "known_status (http_Error m 503)"
  by (simp_all add: known_status_def http_Error_def http_reply_def)

lemma serving_ret: "known_status res \<Longrightarrow> succeeds (serving D) (ret res) (\<lambda>res s. serving D s \<and> known_status res)"
  by (rule succeeds_ret_if)

section \<open>The branches of the handler\<close>

lemma serving_seq:
  assumes "\<And>E. e_cache E = rt_cache rt \<Longrightarrow> e_sched E = rt_sched rt \<Longrightarrow>
      succeeds any_safe (f E) (\<lambda>_. any_safe)"
    and "name \<in> D" "\<And>x. succeeds (serving D) (k x) Q"
  shows "succeeds (serving D) (bnd (on_group rt name f) k) Q"
proof -
  have "succeeds (serving D) (on_group rt name f) (\<lambda>x s. serving D s \<and> True)"
    by (rule serving_on_group [OF _ assms(2)]) (simp add: assms(1))
  then show ?thesis using assms(3) by (intro succeeds_seq) simp_all
qed

lemma serving_remove:
  assumes "rt_cache rt = mutex_ops" "name \<in> D"
  shows "succeeds (serving D) (on_group rt name (\<lambda>E. group_LocalRemove E key)) (\<lambda>_. serving D)"
proof -
  have "succeeds (serving D) (on_group rt name (\<lambda>E. group_LocalRemove E key)) (\<lambda>x s. serving D s \<and> True)"
    by (rule serving_on_group [OF _ assms(2)]) (simp add: mutex.safe_LocalRemove assms(1))
  then show ?thesis by simp
qed

lemma serving_put:
  assumes "rt_cache rt = mutex_ops" "name \<in> D"
    and "snd (wr_UnmarshalSet wire (rq_Body r)) = None \<longrightarrow> sr_Key (fst (wr_UnmarshalSet wire (rq_Body r))) \<noteq> None"
  shows "succeeds (serving D) (serve_put rt wire name r) (\<lambda>res s. serving D s \<and> known_status res)"
proof -
  have "succeeds (serving D)
      (bnd (on_group rt name (\<lambda>E. group_RemoteSet E key v e)) (\<lambda>_. ret (http_reply 200 [])))
      (\<lambda>res s. serving D s \<and> known_status res)" for key v e
    using assms(1)
    by (intro serving_seq [OF _ assms(2)] serving_ret mutex.safe_RemoteSet [where ok = "\<lambda>_ _. True"]) simp_all
  then show ?thesis
    using assms(3) unfolding serve_put_def
    by (cases "wr_UnmarshalSet wire (rq_Body r)") (auto intro!: serving_ret split: option.split)
qed

lemma serving_keys:
  assumes "rt_cache rt = mutex_ops" "name \<in> D"
  shows "succeeds (serving D) (handleRemoveKeysRequest rt wire name r) (\<lambda>res s. serving D s \<and> known_status res)"
proof -
  have "succeeds (serving D)
      (bnd (each (\<lambda>key. on_group rt name (\<lambda>E. group_LocalRemove E key)) keys) (\<lambda>_. ret (http_reply 200 [])))
      (\<lambda>res s. serving D s \<and> known_status res)" for keys
    by (intro succeeds_seq succeeds_each serving_remove assms serving_ret) simp
  then show ?thesis
    unfolding handleRemoveKeysRequest_def by (auto intro!: serving_ret split: option.split prod.split)
qed

lemma serving_get:
  fixes rt :: "(mutexCache, 'c, 't, 'w, 'p) runtime"
  assumes "rt_cache rt = mutex_ops" "fair (rt_sched rt)" "name \<in> D"
    and "\<forall>v e. role = Follower v e \<longrightarrow> e = None \<longrightarrow> (\<exists>x. v = Some x)"
  shows "succeeds (serving D) (serve_get rt wire role name key) (\<lambda>res s. serving D s \<and> known_status res)"
  unfolding serve_get_def
proof (rule serving_seq [OF _ assms(3)])
  fix E :: "(mutexCache, 'c client, 'w, 'p) env"
  assume E: "e_cache E = rt_cache rt" "e_sched E = rt_sched rt"
  have "sink_safe (AllocatingByteSliceSink (Some None) :: 'p sink)" by (simp add: AllocatingByteSliceSink_def)
  then have "succeeds any_safe (group_Get E role key (Some (AllocatingByteSliceSink (Some None))))
      (\<lambda>r s. any_safe s \<and> served_ok (\<lambda>_ _. True) key r)"
    using assms E by (intro mutex.safe_Get trusted_any) simp_all
  then show "succeeds any_safe (group_Get E role key (Some (AllocatingByteSliceSink (Some None)))) (\<lambda>_. any_safe)"
    by (rule succeeds_weaken) simp_all
next
  fix x :: "goerr option \<times> 'p sink option"
  show "succeeds (serving D) (case x of (err, dest) \<Rightarrow>
      case err of
        Some e \<Rightarrow> ret (http_Error (Error e) (if Is_ErrNotFound e then 404 else 503))
      | None \<Rightarrow>
          let d = (case dest of Some d \<Rightarrow> d | None \<Rightarrow> AllocatingByteSliceSink (Some None));
              expireNano = encode_expire (bv_Expire (Sink_View d))
          in case wr_MarshalGet wire
                    \<lparr>gp_Value = alloc_dst d, gp_MinuteQps = None, gp_Expire = Some expireNano\<rparr> of
               (body, Some e) \<Rightarrow> ret (http_Error (Error e) 500)
             | (body, None) \<Rightarrow> ret (http_reply 200 body))
    (\<lambda>res s. serving D s \<and> known_status res)"
    by (cases x; cases "fst x") (auto simp: Let_def intro!: serving_ret split: option.split prod.split)
qed

lemma serving_method:
  assumes "rt_cache rt = mutex_ops" "fair (rt_sched rt)" "name \<in> D"
    and "\<forall>v e. role = Follower v e \<longrightarrow> e = None \<longrightarrow> (\<exists>x. v = Some x)"
    and "rq_Method r = ''PUT'' \<longrightarrow> snd (wr_UnmarshalSet wire (rq_Body r)) = None \<longrightarrow>
        sr_Key (fst (wr_UnmarshalSet wire (rq_Body r))) \<noteq> None"
  shows "succeeds (serving D) (serve_method rt wire role name key r) (\<lambda>res s. serving D s \<and> known_status res)"
proof -
  have "succeeds (serving D)
      (bnd (on_group rt name (\<lambda>E. group_LocalRemove E key)) (\<lambda>_. ret (http_reply 200 [])))
      (\<lambda>res s. serving D s \<and> known_status res)"
    by (intro succeeds_seq serving_remove assms(1,3) serving_ret) simp
  then show ?thesis
    unfolding serve_method_def
    using serving_put [OF assms(1,3), of wire r] serving_keys [OF assms(1,3)] serving_get [OF assms(1-4)] assms(5)
    by (auto intro!: serving_ret)
qed

text \<open>C14.  Progress and preservation for the handler: on a registered transport, an instance with the
  default caches in order, and a request to a group the instance knows whose body, if it is a PUT,
  names its key, the handler comes back with one of the statuses 200, 400, 404, 405, 500 and 503; the
  caches are in order and the groups are the same as before.\<close>

theorem ServeHTTP_answers:
  assumes "rt_cache rt = mutex_ops" "fair (rt_sched rt)" "ht_registered t" "instance_ok i"
    and "\<forall>v e. role = Follower v e \<longrightarrow> e = None \<longrightarrow> (\<exists>x. v = Some x)"
    and "request_ok wire t (dom (i_groups i)) r"
  shows "\<exists>res i' w'. ServeHTTP rt wire role t r (i, w) = Done res (i', w') \<and>
    rs_StatusCode res \<in> {200, 400, 404, 405, 500, 503} \<and> instance_ok i' \<and>
    dom (i_groups i') = dom (i_groups i)"
proof -
  let ?D = "dom (i_groups i)" and ?parts = "split_slash (drop (length (ho_BasePath (ht_opts t))) (rq_Path r))"
  have pre: "HasPrefix (rq_Path r) (ho_BasePath (ht_opts t))"
    and put: "rq_Method r = ''PUT'' \<longrightarrow> snd (wr_UnmarshalSet wire (rq_Body r)) = None \<longrightarrow>
        sr_Key (fst (wr_UnmarshalSet wire (rq_Body r))) \<noteq> None"
    using assms(6) by (simp_all add: request_ok_def)
  have start: "serving ?D (i, w)" using assms(4) by (simp add: serving_def)
  have "\<exists>res s'. ServeHTTP rt wire role t r (i, w) = Done res s' \<and> serving ?D s' \<and> known_status res"
  proof (cases "\<exists>name key. ?parts = [name, key]")
    case True
    then obtain name key where parts: "?parts = [name, key]" by blast
    then have "name \<in> ?D" using assms(6) by (simp add: request_ok_def)
    from succeedsD [OF serving_method [OF assms(1,2) this assms(5) put] start]
    have "\<exists>res s'. serve_method rt wire role name key r (i, w) = Done res s' \<and> serving ?D s' \<and> known_status res" .
    then show ?thesis
      using pre parts assms(3)
      by (simp add: ServeHTTP_def Let_def exec instance_GetGroup_def as_transportMethods_def)
  next
    case False
    then have "ServeHTTP rt wire role t r (i, w) = Done (http_Error ''bad request'' 400) (i, w)"
      using pre assms(3) by (auto simp: ServeHTTP_def Let_def exec split: list.split)
    then show ?thesis using start by simp
  qed
  then show ?thesis by (auto simp: serving_def known_status_def)
qed

theorem ServeHTTP_answers_witness:
  "\<exists>res i' w'. ServeHTTP demo_runtime demo_wire Leader demo_http
     \<lparr>rq_Method = ''GET'', rq_Host = ''b:80'', rq_Path = ''/_groupcache/g/k'',
      rq_EscapedPath = ''/_groupcache/g/k'', rq_Body = [], rq_readErr = None\<rparr>
     (demo_server, []) = Done res (i', w') \<and> instance_ok i'"
proof -
  let ?r = "\<lparr>rq_Method = ''GET'', rq_Host = ''b:80'', rq_Path = ''/_groupcache/g/k'',
      rq_EscapedPath = ''/_groupcache/g/k'', rq_Body = [], rq_readErr = None\<rparr>"
  have rt: "rt_cache demo_runtime = mutex_ops" "fair (rt_sched demo_runtime)"
    by (simp_all add: demo_runtime_def fair_def)
  have ok: "instance_ok demo_server"
    by (simp add: instance_ok_def demo_server_def demo_group_ok)
  have "dom (i_groups demo_server) = {''g''}" by (auto simp: demo_server_def split: if_splits)
  moreover have "request_ok demo_wire demo_http {''g''} ?r" by code_simp
  ultimately show ?thesis
    using ServeHTTP_answers [OF rt demo_http_ok(1) ok, of Leader demo_wire ?r "[]"] by auto
qed

section \<open>Waiting for the server\<close>

text \<open>The world before attempt \<open>n\<close>, when no attempt before it ended the wait, and whether an attempt
  ends it.\<close>

fun attempt :: "('w \<Rightarrow> goerr option \<times> 'w) \<Rightarrow> ('w \<Rightarrow> 'w) \<Rightarrow> nat \<Rightarrow> 'w \<Rightarrow> 'w" where
  "attempt dial sleep 0 w = w"
| "attempt dial sleep (Suc n) w = attempt dial sleep n (sleep (snd (dial w)))"

definition ends :: "('w \<Rightarrow> goerr option \<times> 'w) \<Rightarrow> ('w \<Rightarrow> goerr option) \<Rightarrow> 'w \<Rightarrow> bool" where
  "ends dial ctxErr w \<longleftrightarrow> fst (dial w) = None \<or> ctxErr (snd (dial w)) \<noteq> None"

lemma wait_loop_ends:
  "ends dial ctxErr (attempt dial sleep n w) \<Longrightarrow> \<exists>r. wait_loop dial ctxErr sleep errs w = Some r"
proof (induction n arbitrary: w errs)
  case 0
  then show ?case
    by (subst wait_loop.simps) (auto simp: ends_def split: prod.split option.split)
next
  case (Suc n)
  then show ?case
    by (subst wait_loop.simps) (auto split: prod.split option.split)
qed

lemma wait_loop_result:
  assumes "wait_loop dial ctxErr sleep errs w = Some r"
  shows "\<exists>n. ends dial ctxErr (attempt dial sleep n w) \<and>
    (\<forall>m<n. \<not> ends dial ctxErr (attempt dial sleep m w)) \<and>
    (fst r = None \<longleftrightarrow> fst (dial (attempt dial sleep n w)) = None) \<and> snd r = snd (dial (attempt dial sleep n w))"
  using assms
proof (induction rule: wait_loop.raw_induct [rotated 1, consumes 1])
  case (1 loop dial ctxErr sleep errs w r)
  obtain e w' where d: "dial w = (e, w')" by fastforce
  show ?case
  proof (cases "ends dial ctxErr w")
    case True
    then show ?thesis
      using 1(2) by (intro exI [of _ 0]; cases e) (auto simp: ends_def d split: option.splits)
  next
    case False
    then have "loop dial ctxErr sleep (errs @ [Error (the e)]) (sleep w') = Some r"
      using 1(2) d by (auto simp: ends_def split: option.splits)
    from 1(1) [OF this] obtain n where n: "ends dial ctxErr (attempt dial sleep n (sleep w'))"
      "\<forall>m<n. \<not> ends dial ctxErr (attempt dial sleep m (sleep w'))"
      "fst r = None \<longleftrightarrow> fst (dial (attempt dial sleep n (sleep w'))) = None"
      "snd r = snd (dial (attempt dial sleep n (sleep w')))" by (elim exE conjE) (rule that)
    have "\<not> ends dial ctxErr (attempt dial sleep m w)" if "m < Suc n" for m
      using that n(2) False d by (cases m) auto
    then show ?thesis using n d by (intro exI [of _ "Suc n"]) auto
  qed
qed

text \<open>C39.  \<open>waitForConnect\<close> runs forever exactly when it has an address and every dial fails with the
  context not over; it reports success exactly when some dial succeeds and every attempt before it
  failed with the context not over.\<close>

theorem waitForConnect_returns:
  "(waitForConnect dial ctxErr sleep address w = None \<longleftrightarrow>
      address \<noteq> [] \<and> (\<forall>n. \<not> ends dial ctxErr (attempt dial sleep n w))) \<and>
   ((\<exists>w'. waitForConnect dial ctxErr sleep address w = Some (None, w')) \<longleftrightarrow>
      address \<noteq> [] \<and> (\<exists>n. fst (dial (attempt dial sleep n w)) = None \<and>
        (\<forall>m<n. \<not> ends dial ctxErr (attempt dial sleep m w))))"
proof (cases "address = []")
  case False
  let ?at = "\<lambda>n. attempt dial sleep n w" and ?l = "wait_loop dial ctxErr sleep [] w"
  have l: "waitForConnect dial ctxErr sleep address w = ?l" using False by (simp add: waitForConnect_def)
  have none: "?l = None \<longleftrightarrow> (\<forall>n. \<not> ends dial ctxErr (?at n))"
  proof (cases ?l)
    case None
    then show ?thesis using wait_loop_ends [of dial ctxErr sleep _ w "[]"] by auto
  next
    case (Some r)
    from wait_loop_result [OF this] Some show ?thesis by auto
  qed
  have "(\<exists>w'. ?l = Some (None, w')) \<longleftrightarrow>
      (\<exists>n. fst (dial (?at n)) = None \<and> (\<forall>m<n. \<not> ends dial ctxErr (?at m)))" (is "?L \<longleftrightarrow> ?R")
  proof
    assume ?L
    then obtain w' where "?l = Some (None, w')" by blast
    from wait_loop_result [OF this] show ?R by auto
  next
    assume ?R
    then obtain n where n: "fst (dial (?at n)) = None" "\<forall>m<n. \<not> ends dial ctxErr (?at m)" by blast
    then have "ends dial ctxErr (?at n)" by (simp add: ends_def)
    then obtain r where r: "?l = Some r" using wait_loop_ends [of dial ctxErr sleep n w "[]"] by blast
    from wait_loop_result [OF this] obtain n' where n': "ends dial ctxErr (?at n')"
      "\<forall>m<n'. \<not> ends dial ctxErr (?at m)" "fst r = None \<longleftrightarrow> fst (dial (?at n')) = None"
      by (elim exE conjE) (rule that)
    have "n' = n" using n(2) n'(1,2) \<open>ends dial ctxErr (?at n)\<close> by (meson linorder_neqE_nat)
    then show ?L using n(1) n'(3) r by (cases r) auto
  qed
  then show ?thesis using False l none by simp
qed (simp add: waitForConnect_def)

theorem waitForConnect_returns_witness:
  "(\<exists>w'. waitForConnect (\<lambda>n. (if n < 2 then Some (ErrString ''refused'') else None, n)) (\<lambda>_. None) Suc ''a:80'' (0 :: nat)
     = Some (None, w')) \<and>
   waitForConnect (\<lambda>n. (Some (ErrString ''refused''), n)) (\<lambda>_. None) Suc ''a:80'' (0 :: nat) = None"
proof -
  have at: "attempt (\<lambda>n. (f n, n)) Suc n k = k + n" for f :: "nat \<Rightarrow> goerr option" and n k
    by (induction n arbitrary: k) simp_all
  have "\<exists>n. fst ((\<lambda>n. (if n < 2 then Some (ErrString ''refused'') else None, n)) (attempt (\<lambda>n. (if n < 2 then Some (ErrString ''refused'') else None, n)) Suc n (0 :: nat))) = None \<and>
      (\<forall>m<n. \<not> ends (\<lambda>n. (if n < 2 then Some (ErrString ''refused'') else None, n)) (\<lambda>_. None)
        (attempt (\<lambda>n. (if n < 2 then Some (ErrString ''refused'') else None, n)) Suc m 0))"
    by (rule exI [of _ 2]) (simp add: at ends_def)
  then show ?thesis
    using waitForConnect_returns [of "\<lambda>n. (if n < 2 then Some (ErrString ''refused'') else None, n)" "\<lambda>_. None" Suc "''a:80''" 0]
      waitForConnect_returns [of "\<lambda>n. (Some (ErrString ''refused''), n)" "\<lambda>_. None" Suc "''a:80''" "0 :: nat"]
    by (simp add: at ends_def)
qed

end
