(* ===== verification/Daemon.thy ===== *)
theory Daemon
  imports Instance
begin

text \<open>
  Daemons, src/daemon.go: an instance together with the transport that listens for it, and what a daemon
  relies on in a transport, as a locale.  A daemon is a value that its methods return updated; the
  transport is a reference into the world.
\<close>

section \<open>Operations\<close>

text \<open>A call that changes the world and comes back.\<close>

definition effect :: "('w \<Rightarrow> 'a \<times> 'w) \<Rightarrow> ('w, 'a) act" where
  "effect f w = (case f w of (x, w') \<Rightarrow> Done x w')"

lemma effect_exec [exec]: "f w = (x, w') \<Longrightarrow> effect f w = Done x w'"
  by (simp add: effect_def)

record ('m, 'c, 't, 'w, 'p) Daemon =
  d_instance :: "('m, 'c, 't, 'w, 'p) Instance option"
  d_opts :: "('m, 't, 'w) InstanceOptions"
  d_address :: string

text \<open>Calls through an interface or a pointer that may be nil.\<close>

definition on_transport :: "('m, 'c, 't, 'w, 'p) Daemon \<Rightarrow> ('t \<Rightarrow> ('w, 'a) act) \<Rightarrow> ('w, 'a) act" where
  "on_transport d f = (case io_Transport (d_opts d) of None \<Rightarrow> crash nil_deref | Some t \<Rightarrow> f t)"

definition on_instance ::
  "('m, 'c, 't, 'w, 'p) Daemon \<Rightarrow> (('m, 'c, 't, 'w, 'p) Instance \<Rightarrow> ('w, 'a) act) \<Rightarrow> ('w, 'a) act" where
  "on_instance d f = (case d_instance d of None \<Rightarrow> crash nil_deref | Some i \<Rightarrow> f i)"

text \<open>\<open>Start\<close> makes a new instance, at the address \<open>self\<close>, and listens.\<close>

definition daemon_Start ::
  "('m, 'c, 't, 'w, 'p) runtime \<Rightarrow> nat \<Rightarrow> ('m, 'c, 't, 'w, 'p) Daemon \<Rightarrow>
   ('w, ('m, 'c, 't, 'w, 'p) Daemon \<times> goerr option) act" where
  "daemon_Start rt self d =
     bnd (effect (instance_New rt self (d_opts d))) (\<lambda>i.
     let d' = d\<lparr>d_instance := Some i\<rparr>
     in bnd (on_transport d' (\<lambda>t. T_ListenAndServe (rt_transport rt) t (d_address d'))) (\<lambda>err.
        ret (d', err)))"

definition daemon_ListenAndServe ::
  "('m, 'c, 't, 'w, 'p) runtime \<Rightarrow> 'w logger \<Rightarrow> nat \<Rightarrow> string \<Rightarrow> ('m, 't, 'w) InstanceOptions \<Rightarrow>
   ('w, ('m, 'c, 't, 'w, 'p) Daemon \<times> goerr option) act" where
  "daemon_ListenAndServe rt slogDefault self address opts =
     (let opts1 = (if io_Logger opts = None then opts\<lparr>io_Logger := Some slogDefault\<rparr> else opts)
      in bnd (case io_Transport opts1 of
                None \<Rightarrow> bnd (effect (rt_httpTransport rt (io_Logger opts1)))
                          (\<lambda>t. ret (opts1\<lparr>io_Transport := Some t\<rparr>))
              | Some t \<Rightarrow> ret opts1) (\<lambda>opts2.
         daemon_Start rt self \<lparr>d_instance = None, d_opts = opts2, d_address = address\<rparr>))"

definition daemon_NewGroup ::
  "('m, 'c, 't, 'w, 'p) runtime \<Rightarrow> string \<Rightarrow> int64 \<Rightarrow> ('w, 'p) getter option \<Rightarrow> ('m, 'c, 't, 'w, 'p) Daemon \<Rightarrow>
   ('w, (goerr + string) \<times> ('m, 'c, 't, 'w, 'p) Daemon) act" where
  "daemon_NewGroup rt name cacheBytes getter d =
     on_instance d (\<lambda>i. case instance_NewGroup rt name cacheBytes getter i of
       (r, i') \<Rightarrow> ret (r, d\<lparr>d_instance := Some i'\<rparr>))"

definition daemon_GetGroup ::
  "string \<Rightarrow> ('m, 'c, 't, 'w, 'p) Daemon \<Rightarrow> ('w, ('m group \<times> ('w, 'p) getter) iface) act" where
  "daemon_GetGroup name d = on_instance d (\<lambda>i. ret (instance_GetGroup i name))"

definition daemon_RemoveGroup ::
  "string \<Rightarrow> ('m, 'c, 't, 'w, 'p) Daemon \<Rightarrow> ('w, ('m, 'c, 't, 'w, 'p) Daemon) act" where
  "daemon_RemoveGroup name d =
     on_instance d (\<lambda>i. ret (d\<lparr>d_instance := Some (instance_RemoveGroup name i)\<rparr>))"

definition daemon_GetInstance ::
  "('m, 'c, 't, 'w, 'p) Daemon \<Rightarrow> ('m, 'c, 't, 'w, 'p) Instance option" where
  "daemon_GetInstance d = d_instance d"

definition daemon_ListenAddress ::
  "('m, 'c, 't, 'w, 'p) runtime \<Rightarrow> ('m, 'c, 't, 'w, 'p) Daemon \<Rightarrow> ('w, string) act" where
  "daemon_ListenAddress rt d = on_transport d (T_ListenAddress (rt_transport rt))"

text \<open>\<open>SetPeers\<close> of the instance, as a method that updates the daemon.\<close>

definition set_instance_peers ::
  "('m, 'c, 't, 'w, 'p) runtime \<Rightarrow> Info list \<Rightarrow> ('m, 'c, 't, 'w, 'p) Daemon \<Rightarrow>
   ('w, goerr option \<times> ('m, 'c, 't, 'w, 'p) Daemon) act" where
  "set_instance_peers rt peers d =
     on_instance d (\<lambda>i. effect (\<lambda>w. case instance_SetPeers rt peers (i, w) of
       (err, i', w') \<Rightarrow> ((err, d\<lparr>d_instance := Some i'\<rparr>), w')))"

definition daemon_SetPeers ::
  "('m, 'c, 't, 'w, 'p) runtime \<Rightarrow> Info list \<Rightarrow> ('m, 'c, 't, 'w, 'p) Daemon \<Rightarrow>
   ('w, goerr option \<times> ('m, 'c, 't, 'w, 'p) Daemon) act" where
  "daemon_SetPeers rt src d =
     bnd (each (\<lambda>p. bnd (daemon_ListenAddress rt d) (\<lambda>a.
                ret (if Address p = a then p\<lparr>IsSelf := True\<rparr> else p))) src) (\<lambda>dest.
     set_instance_peers rt dest d)"

definition daemon_MustClient ::
  "('m, 'c, 't, 'w, 'p) runtime \<Rightarrow> ('m, 'c, 't, 'w, 'p) Daemon \<Rightarrow> ('w, 'c) act" where
  "daemon_MustClient rt d =
     bnd (daemon_ListenAddress rt d) (\<lambda>a.
     on_transport d (\<lambda>t. bnd (effect (T_NewClient (rt_transport rt) t \<lparr>Address = a, IsSelf = False\<rparr>))
       (\<lambda>(c, err). case err of Some e \<Rightarrow> crash (Error e) | None \<Rightarrow> ret c)))"

definition daemon_Shutdown ::
  "('m, 'c, 't, 'w, 'p) runtime \<Rightarrow> ('m, 'c, 't, 'w, 'p) Daemon \<Rightarrow> ('w, goerr option) act" where
  "daemon_Shutdown rt d = on_transport d (T_Shutdown (rt_transport rt))"

section \<open>The contract of transports\<close>

text \<open>\<open>made\<close> are the transports there are and \<open>addr\<close> the addresses they listen on, or last listened on.
  A transport that was just made is none of those there were; listening changes the address of one
  transport only, and the other calls change none.\<close>

locale transport_api =
  fixes T :: "('t, 'c, 'w) Transport"
    and okw :: "'w \<Rightarrow> bool"
    and made :: "'w \<Rightarrow> 't set"
    and addr :: "'w \<Rightarrow> 't \<Rightarrow> string option"
  assumes New:
      "okw w \<Longrightarrow> t \<in> made w \<Longrightarrow> T_New T t w = (t', w') \<Longrightarrow>
       okw w' \<and> t' \<notin> made w \<and> made w' = insert t' (made w) \<and> (\<forall>u\<in>made w. addr w' u = addr w u)"
    and Register:
      "okw w \<Longrightarrow> t \<in> made w \<Longrightarrow>
       okw (T_Register T t i w) \<and> made (T_Register T t i w) = made w \<and> addr (T_Register T t i w) = addr w"
    and NewClient:
      "okw w \<Longrightarrow> t \<in> made w \<Longrightarrow> T_NewClient T t p w = (ce, w') \<Longrightarrow>
       okw w' \<and> made w' = made w \<and> addr w' = addr w"
    and Listen:
      "okw w \<Longrightarrow> t \<in> made w \<Longrightarrow> T_ListenAndServe T t a w = Done e w' \<Longrightarrow>
       okw w' \<and> made w' = made w \<and> (\<forall>u. u \<noteq> t \<longrightarrow> addr w' u = addr w u) \<and> (e = None \<longrightarrow> addr w' t \<noteq> None)"
    and Listening:
      "okw w \<Longrightarrow> t \<in> made w \<Longrightarrow> addr w t = Some a \<Longrightarrow> T_ListenAddress T t w = Done a w"
    and Shutting:
      "okw w \<Longrightarrow> t \<in> made w \<Longrightarrow> T_Shutdown T t w = Done e w' \<Longrightarrow>
       okw w' \<and> made w' = made w \<and> addr w' = addr w"

text \<open>A transport that makes clients and listens, on the addresses that are \<open>good\<close>, without an error; and
  one that also shuts down without an error.\<close>

locale listening_transport = transport_api +
  fixes good :: "string \<Rightarrow> bool"
  assumes NewClient_ok:
      "okw w \<Longrightarrow> t \<in> made w \<Longrightarrow> \<exists>c w'. T_NewClient T t p w = ((c, None), w')"
    and Listen_ok:
      "okw w \<Longrightarrow> t \<in> made w \<Longrightarrow> good a \<Longrightarrow>
       \<exists>w'. T_ListenAndServe T t a w = Done None w' \<and> addr w' t = Some a"

locale reliable_transport = listening_transport +
  assumes Shutdown_ok:
      "okw w \<Longrightarrow> t \<in> made w \<Longrightarrow> \<exists>w'. T_Shutdown T t w = Done None w'"

text \<open>A daemon that listens, for the peer \<open>p\<close>, with an instance that has the options given.\<close>

definition listens ::
  "'t set \<Rightarrow> ('t \<Rightarrow> string option) \<Rightarrow> Options \<Rightarrow> ('m, 'c, 't, 'w, 'p) Daemon \<Rightarrow> string \<Rightarrow> bool" where
  "listens M A opts d a \<longleftrightarrow>
     (\<exists>t i. io_Transport (d_opts d) = Some t \<and> t \<in> M \<and> A t = Some a \<and> d_instance d = Some i \<and>
        i_Transport i = t \<and> \<lparr>HashFn = i_HashFn i, Replicas = i_Replicas i\<rparr> = opts)"

definition ring_options :: "('m, 't, 'w) InstanceOptions \<Rightarrow> Options" where
  "ring_options opts = \<lparr>HashFn = io_HashFn opts, Replicas = io_Replicas opts\<rparr>"

context transport_api
begin

lemma New_instance:
  assumes "rt_transport rt = T" "okw w" "io_Transport opts = Some t" "t \<in> made w"
    and "instance_New rt self opts w = (i, w')"
  shows "okw w' \<and> made w' = made w \<and> addr w' = addr w \<and> i_Transport i = t \<and>
    i_picker i = NewPicker (rt_fnv1 rt) (ring_options opts) \<and>
    \<lparr>HashFn = i_HashFn i, Replicas = i_Replicas i\<rparr> = ring_options opts"
  using assms(5) Register [OF assms(2,4)] assms(1,3)
  by (auto simp: instance_New_def Let_def ring_options_def)

lemma Start_listens:
  assumes "rt_transport rt = T" "okw w" "io_Transport (d_opts d) = Some t" "t \<in> made w"
    and "daemon_Start rt self d w = Done (d', err) w'"
  shows "okw w' \<and> made w' = made w \<and> (\<forall>u. u \<noteq> t \<longrightarrow> addr w' u = addr w u) \<and> d_opts d' = d_opts d \<and>
    (\<exists>i. d_instance d' = Some i \<and> i_Transport i = t \<and>
       i_picker i = NewPicker (rt_fnv1 rt) (ring_options (d_opts d)) \<and>
       \<lparr>HashFn = i_HashFn i, Replicas = i_Replicas i\<rparr> = ring_options (d_opts d)) \<and>
    (err = None \<longrightarrow> (\<exists>a. addr w' t = Some a \<and> listens (made w') (addr w') (ring_options (d_opts d)) d' a))"
proof -
  obtain i w1 where i: "instance_New rt self (d_opts d) w = (i, w1)" by fastforce
  note new = New_instance [OF assms(1-4) i]
  let ?d = "d\<lparr>d_instance := Some i\<rparr>"
  have "bnd (T_ListenAndServe T t (d_address d)) (\<lambda>err. ret (?d, err)) w1 = Done (d', err) w'"
    using assms(1,3,5) i by (simp add: daemon_Start_def on_transport_def effect_exec exec Let_def)
  then have l: "T_ListenAndServe T t (d_address d) w1 = Done err w'" and d': "d' = ?d"
    by (auto elim!: bnd_DoneE simp: exec)
  from Listen [OF _ _ l] new assms(4)
  have "okw w' \<and> made w' = made w \<and> (\<forall>u. u \<noteq> t \<longrightarrow> addr w' u = addr w u) \<and> (err = None \<longrightarrow> addr w' t \<noteq> None)"
    by simp
  then show ?thesis using new d' assms(3,4) by (auto simp: listens_def)
qed

lemma ListenAddress_listens:
  assumes "rt_transport rt = T" "okw w" "listens (made w) (addr w) opts d a"
  shows "daemon_ListenAddress rt d w = Done a w"
  using assms Listening by (auto simp: listens_def daemon_ListenAddress_def on_transport_def)

end

section \<open>Peers of a daemon\<close>

text \<open>A list of peers with one of them marked as this instance, and a daemon that was told of it.\<close>

definition mark :: "string \<Rightarrow> Info \<Rightarrow> Info" where
  "mark a p = (if Address p = a then p\<lparr>IsSelf := True\<rparr> else p)"

lemma Address_mark [simp]: "Address (mark a p) = Address p"
  by (simp add: mark_def)

definition knows ::
  "('m, 'c, 't, 'w, 'p) runtime \<Rightarrow> Options \<Rightarrow> string \<Rightarrow> Info list \<Rightarrow> ('m, 'c, 't, 'w, 'p) Daemon \<Rightarrow> bool" where
  "knows rt opts a peers d \<longleftrightarrow>
     (\<exists>i cs. d_instance d = Some i \<and>
        i_picker i = picker_of (rt_sort rt) (rt_fnv1 rt) opts (client_ops (rt_client rt)) cs \<and>
        map (Client_PeerInfo (client_ops (rt_client rt))) cs = map (mark a) peers \<and>
        map (Client_HashKey (client_ops (rt_client rt))) cs = map Address peers)"

context transport_api
begin

lemma set_peers_loop_world:
  assumes "rt_transport rt = T" "t \<in> made w" "okw w"
    and "set_peers_loop rt t peers picker self w = (r, w')"
  shows "okw w' \<and> made w' = made w \<and> addr w' = addr w"
  using assms(2-4)
proof (induction peers arbitrary: picker self w)
  case Nil
  then show ?case by simp
next
  case (Cons p peers)
  show ?case
  proof (cases "IsSelf p")
    case True
    then show ?thesis using Cons.IH [OF Cons.prems(1,2)] Cons.prems(3) by (simp add: Let_def)
  next
    case False
    obtain c e w1 where n: "T_NewClient T t p w = ((c, e), w1)" by (metis prod.exhaust)
    note c = NewClient [OF Cons.prems(2,1) n]
    show ?thesis
    proof (cases e)
      case None
      then show ?thesis
        using Cons.prems(3) False n assms(1) c Cons.IH [of w1 _ self] Cons.prems(1) by (simp add: Let_def)
    next
      case (Some e')
      then show ?thesis using Cons.prems(3) False n assms(1) c by (simp add: Let_def)
    qed
  qed
qed

lemma set_instance_peers_world:
  assumes "rt_transport rt = T" "okw w" "listens (made w) (addr w) opts d a"
    and "set_instance_peers rt peers d w = Done (err, d') w'"
  shows "okw w' \<and> made w' = made w \<and> addr w' = addr w \<and>
    (\<exists>i i'. d_instance d = Some i \<and> instance_SetPeers rt peers (i, w) = (err, i', w') \<and>
       \<lparr>HashFn = i_HashFn i, Replicas = i_Replicas i\<rparr> = opts \<and> d' = d\<lparr>d_instance := Some i'\<rparr>)"
proof -
  from assms(3) obtain t i where d: "t \<in> made w" "d_instance d = Some i" "i_Transport i = t"
    "\<lparr>HashFn = i_HashFn i, Replicas = i_Replicas i\<rparr> = opts" by (auto simp: listens_def)
  obtain e i' w1 where set: "instance_SetPeers rt peers (i, w) = (e, i', w1)" by (metis prod.exhaust)
  have run: "e = err" "d' = d\<lparr>d_instance := Some i'\<rparr>" "w1 = w'"
    using assms(4) set d(2) by (simp_all add: set_instance_peers_def on_instance_def effect_def)
  obtain r w2 where loop: "set_peers_loop rt t peers (NewPicker (rt_fnv1 rt) opts) False w = (r, w2)" by fastforce
  with set d(3,4) have "w2 = w1"
    by (auto simp: instance_SetPeers_def split: sum.splits if_splits)
  with set_peers_loop_world [OF assms(1) d(1) assms(2) loop] run d(2,4) set show ?thesis by simp
qed

lemma mark_peers:
  assumes "rt_transport rt = T" "okw w" "listens (made w) (addr w) opts d a"
  shows "each (\<lambda>p. bnd (daemon_ListenAddress rt d) (\<lambda>a. ret (if Address p = a then p\<lparr>IsSelf := True\<rparr> else p)))
    peers w = Done (map (mark a) peers) w"
  by (induction peers) (simp_all add: exec ListenAddress_listens [OF assms] mark_def)

lemma SetPeers_knows:
  assumes "rt_transport rt = T" "makes_clients rt" "okw w" "listens (made w) (addr w) opts d a"
    and "daemon_SetPeers rt peers d w = Done (err, d') w'"
  shows "okw w' \<and> made w' = made w \<and> addr w' = addr w \<and> listens (made w') (addr w') opts d' a \<and>
    (err = None \<longrightarrow> knows rt opts a peers d')"
proof -
  have "set_instance_peers rt (map (mark a) peers) d w = Done (err, d') w'"
    using assms(5) mark_peers [OF assms(1,3,4)] by (simp add: daemon_SetPeers_def exec)
  from set_instance_peers_world [OF assms(1,3,4) this] obtain i i' where
    w: "okw w' \<and> made w' = made w \<and> addr w' = addr w" and i: "d_instance d = Some i"
    "instance_SetPeers rt (map (mark a) peers) (i, w) = (err, i', w')"
    "\<lparr>HashFn = i_HashFn i, Replicas = i_Replicas i\<rparr> = opts" "d' = d\<lparr>d_instance := Some i'\<rparr>" by blast
  note spec = instance_SetPeers_spec [OF assms(2) i(2)]
  have same: "i_Transport i' = i_Transport i" "i_HashFn i' = i_HashFn i" "i_Replicas i' = i_Replicas i"
    using spec by (cases err; auto)+
  have "listens (made w') (addr w') opts d' a"
    using assms(4) w i(1,3,4) same by (auto simp: listens_def)
  moreover have "knows rt opts a peers d'" if "err = None"
    using spec that i(3,4) by (auto simp: knows_def comp_def)
  ultimately show ?thesis using w by blast
qed

end

end
