(* ===== verification/Cluster.thy ===== *)
theory Cluster
  imports Daemon GoStrings
begin

text \<open>
  Local clusters, src/cluster/cluster.go: the daemons and peers of the package variables, started,
  restarted and stopped together.  The loops over the daemons return the daemons updated.  An error in
  the middle of a loop keeps what was done before it; a crash ends the process.
\<close>

section \<open>Operations\<close>

text \<open>The package variables, and the next address for an instance.\<close>

record ('m, 'c, 't, 'w, 'p) cluster =
  cl_daemons :: "('m, 'c, 't, 'w, 'p) Daemon list"
  cl_peers :: "Info list"
  cl_next :: nat

type_synonym ('m, 'c, 't, 'w, 'p) cstate = "('m, 'c, 't, 'w, 'p) cluster \<times> 'w"

definition in_world :: "('w, 'a) act \<Rightarrow> ('x \<times> 'w, 'a) act" where
  "in_world m s = (case m (snd s) of Done x w \<Rightarrow> Done x (fst s, w) | Crash e \<Rightarrow> Crash e | Hang \<Rightarrow> Hang)"

lemma in_world_exec [exec]: "m w = Done x w' \<Longrightarrow> in_world m (cl, w) = Done x (cl, w')"
  by (simp add: in_world_def)

definition ListPeers :: "('m, 'c, 't, 'w, 'p) cluster \<Rightarrow> Info list" where
  "ListPeers cl = cl_peers cl"

definition ListDaemons :: "('m, 'c, 't, 'w, 'p) cluster \<Rightarrow> ('m, 'c, 't, 'w, 'p) Daemon list" where
  "ListDaemons cl = cl_daemons cl"

definition DaemonAt :: "int \<Rightarrow> ('m, 'c, 't, 'w, 'p) cluster \<Rightarrow> ('m, 'c, 't, 'w, 'p) Daemon go" where
  "DaemonAt idx cl =
     (if 0 \<le> idx \<and> idx < int (length (cl_daemons cl)) then Ret (cl_daemons cl ! nat idx)
      else Panic ''index out of range'')"

definition PeerAt :: "int \<Rightarrow> ('m, 'c, 't, 'w, 'p) cluster \<Rightarrow> Info go" where
  "PeerAt idx cl =
     (if 0 \<le> idx \<and> idx < int (length (cl_peers cl)) then Ret (cl_peers cl ! nat idx)
      else Panic ''index out of range'')"

text \<open>The position of the daemon that owns a key.\<close>

fun find_daemon ::
  "('m, 'c, 't, 'w, 'p) runtime \<Rightarrow> string \<Rightarrow> string \<Rightarrow> nat \<Rightarrow> ('m, 'c, 't, 'w, 'p) Daemon list \<Rightarrow> ('w, nat) act" where
  "find_daemon rt key address i [] =
     crash (''failed to find daemon which owns '' @ [CHR 0x27] @ key @ [CHR 0x27])"
| "find_daemon rt key address i (d # ds) =
     bnd (daemon_ListenAddress rt d) (\<lambda>a.
     if a = address then ret i else find_daemon rt key address (Suc i) ds)"

definition FindOwningDaemon ::
  "('m, 'c, 't, 'w, 'p) runtime \<Rightarrow> string \<Rightarrow> (('m, 'c, 't, 'w, 'p) cstate, nat) act" where
  "FindOwningDaemon rt key s =
     (case cl_daemons (fst s) of
        [] \<Rightarrow> Crash ([CHR 0x27] @ ''_daemon'' @ [CHR 0x27] @ '' is empty; start a cluster with Start() or StartWith()'')
      | d # ds \<Rightarrow>
          in_world (on_instance d (\<lambda>i.
            case instance_PickPeer rt i key of
              (c, isRemote) \<Rightarrow>
                if \<not> isRemote then ret 0
                else case c of
                       None \<Rightarrow> crash nil_deref
                     | Some p \<Rightarrow>
                         find_daemon rt key (Address (Client_PeerInfo (client_ops (rt_client rt)) p)) 0 (d # ds))) s)"

text \<open>The first loop of \<open>StartWith\<close>: every daemon after the first has a transport made by the parent.\<close>

fun start_daemons ::
  "('m, 'c, 't, 'w, 'p) runtime \<Rightarrow> 'w logger \<Rightarrow> 't \<Rightarrow> ('m, 't, 'w) InstanceOptions \<Rightarrow> nat \<Rightarrow> Info list \<Rightarrow>
   ('w, goerr option \<times> (('m, 'c, 't, 'w, 'p) Daemon \<times> Info) list) act" where
  "start_daemons rt slogDefault parent opts self [] = ret (None, [])"
| "start_daemons rt slogDefault parent opts self (p # peers) =
     bnd (daemon_ListenAndServe rt slogDefault self (Address p) opts) (\<lambda>(d, err).
     case err of
       Some e \<Rightarrow>
         ret (Some (ErrWrap (''StartWith: while starting daemon for '' @ [CHR 0x27] @ Address p @ [CHR 0x27] @ '': '') e), [])
     | None \<Rightarrow>
         bnd (effect (T_New (rt_transport rt) parent)) (\<lambda>t.
         bnd (daemon_ListenAddress rt d) (\<lambda>a.
         bnd (start_daemons rt slogDefault parent (opts\<lparr>io_Transport := Some t\<rparr>) (Suc self) peers) (\<lambda>(err, xs).
         ret (err, (d, \<lparr>Address = a, IsSelf = IsSelf p\<rparr>) # xs)))))"

text \<open>The second loop.\<close>

fun tell_daemons ::
  "('m, 'c, 't, 'w, 'p) runtime \<Rightarrow> Info list \<Rightarrow> ('m, 'c, 't, 'w, 'p) Daemon list \<Rightarrow>
   ('w, goerr option \<times> ('m, 'c, 't, 'w, 'p) Daemon list) act" where
  "tell_daemons rt peers [] = ret (None, [])"
| "tell_daemons rt peers (d # ds) =
     bnd (daemon_SetPeers rt peers d) (\<lambda>(err, d').
     case err of
       Some e \<Rightarrow> ret (Some (ErrWrap ''StartWith: during SetPeers(): '' e), d' # ds)
     | None \<Rightarrow> bnd (tell_daemons rt peers ds) (\<lambda>(err, ds'). ret (err, d' # ds')))"

definition cluster_StartWith ::
  "('m, 'c, 't, 'w, 'p) runtime \<Rightarrow> 'w logger \<Rightarrow> Info list \<Rightarrow> ('m, 't, 'w) InstanceOptions \<Rightarrow>
   (('m, 'c, 't, 'w, 'p) cstate, goerr option) act" where
  "cluster_StartWith rt slogDefault peers opts =
     bnd (reads fst) (\<lambda>cl.
     if cl_daemons cl \<noteq> [] \<or> cl_peers cl \<noteq> []
     then ret (Some (ErrString ''StartWith: cluster already running; shutdown the previous cluster''))
     else
       bnd (case io_Transport opts of
              None \<Rightarrow> in_world (effect (rt_httpTransport rt (io_Logger opts)))
            | Some t \<Rightarrow> ret t) (\<lambda>parent.
       bnd (in_world (start_daemons rt slogDefault parent opts (cl_next cl) peers)) (\<lambda>(err, xs).
       bnd (modifies (\<lambda>(cl, w). (cl\<lparr>cl_daemons := map fst xs, cl_peers := map snd xs,
                                   cl_next := cl_next cl + length peers\<rparr>, w))) (\<lambda>_.
       case err of
         Some e \<Rightarrow> ret (Some e)
       | None \<Rightarrow>
           bnd (in_world (tell_daemons rt (map snd xs) (map fst xs))) (\<lambda>(err, ds).
           bnd (modifies (\<lambda>(cl, w). (cl\<lparr>cl_daemons := ds\<rparr>, w))) (\<lambda>_. ret err))))))"

definition cluster_Start ::
  "('m, 'c, 't, 'w, 'p) runtime \<Rightarrow> 'w logger \<Rightarrow> int \<Rightarrow> ('m, 't, 'w) InstanceOptions \<Rightarrow>
   (('m, 'c, 't, 'w, 'p) cstate, goerr option) act" where
  "cluster_Start rt slogDefault numInstances opts =
     cluster_StartWith rt slogDefault
       (map (\<lambda>i. \<lparr>Address = ''localhost:'' @ itoa (1111 + i), IsSelf = False\<rparr>) [0..<nat numInstances]) opts"

text \<open>\<open>Restart\<close>; the error of \<open>SetPeers\<close> is dropped.\<close>

fun restart_daemons ::
  "('m, 'c, 't, 'w, 'p) runtime \<Rightarrow> Info list \<Rightarrow> nat \<Rightarrow> ('m, 'c, 't, 'w, 'p) Daemon list \<Rightarrow>
   ('w, goerr option \<times> ('m, 'c, 't, 'w, 'p) Daemon list) act" where
  "restart_daemons rt peers self [] = ret (None, [])"
| "restart_daemons rt peers self (d # ds) =
     bnd (daemon_Shutdown rt d) (\<lambda>err.
     case err of
       Some e \<Rightarrow> ret (Some e, d # ds)
     | None \<Rightarrow>
         bnd (daemon_Start rt self d) (\<lambda>(d', err).
         case err of
           Some e \<Rightarrow> ret (Some e, d' # ds)
         | None \<Rightarrow>
             bnd (set_instance_peers rt peers d') (\<lambda>(_, d'').
             bnd (restart_daemons rt peers (Suc self) ds) (\<lambda>(err, ds').
             ret (err, d'' # ds')))))"

definition cluster_Restart ::
  "('m, 'c, 't, 'w, 'p) runtime \<Rightarrow> (('m, 'c, 't, 'w, 'p) cstate, goerr option) act" where
  "cluster_Restart rt =
     bnd (reads fst) (\<lambda>cl.
     bnd (in_world (restart_daemons rt (cl_peers cl) (cl_next cl) (cl_daemons cl))) (\<lambda>(err, ds).
     bnd (modifies (\<lambda>(cl, w). (cl\<lparr>cl_daemons := ds, cl_next := cl_next cl + length (cl_daemons cl)\<rparr>, w)))
       (\<lambda>_. ret err)))"

fun shutdown_daemons ::
  "('m, 'c, 't, 'w, 'p) runtime \<Rightarrow> ('m, 'c, 't, 'w, 'p) Daemon list \<Rightarrow> ('w, goerr option) act" where
  "shutdown_daemons rt [] = ret None"
| "shutdown_daemons rt (d # ds) =
     bnd (daemon_Shutdown rt d) (\<lambda>err.
     case err of Some e \<Rightarrow> ret (Some e) | None \<Rightarrow> shutdown_daemons rt ds)"

definition cluster_Shutdown ::
  "('m, 'c, 't, 'w, 'p) runtime \<Rightarrow> (('m, 'c, 't, 'w, 'p) cstate, goerr option) act" where
  "cluster_Shutdown rt =
     bnd (reads fst) (\<lambda>cl.
     bnd (in_world (shutdown_daemons rt (cl_daemons cl))) (\<lambda>err.
     case err of
       Some e \<Rightarrow> ret (Some e)
     | None \<Rightarrow>
         bnd (modifies (\<lambda>(cl, w). (cl\<lparr>cl_peers := [], cl_daemons := []\<rparr>, w))) (\<lambda>_. ret None)))"

section \<open>Starting\<close>

text \<open>The daemons of a cluster, each listening on the address of its peer.\<close>

definition all_listen ::
  "'t set \<Rightarrow> ('t \<Rightarrow> string option) \<Rightarrow> Options \<Rightarrow> ('m, 'c, 't, 'w, 'p) Daemon list \<Rightarrow> Info list \<Rightarrow> bool" where
  "all_listen M A opts ds ps \<longleftrightarrow> list_all2 (\<lambda>d p. listens M A opts d (Address p)) ds ps"

lemma listens_mono:
  assumes "listens M A opts d a" "M \<subseteq> M'" "\<And>u. u \<in> M \<Longrightarrow> io_Transport (d_opts d) = Some u \<Longrightarrow> A' u = A u"
  shows "listens M' A' opts d a"
  using assms unfolding listens_def by fastforce

context transport_api
begin

lemma ListenAndServe_listens:
  assumes "rt_transport rt = T" "okw w" "io_Transport opts = Some t" "t \<in> made w"
    and "daemon_ListenAndServe rt slog self a opts w = Done (d, err) w'"
  shows "okw w' \<and> made w' = made w \<and> (\<forall>u. u \<noteq> t \<longrightarrow> addr w' u = addr w u) \<and> io_Transport (d_opts d) = Some t \<and>
    (err = None \<longrightarrow> (\<exists>b. listens (made w') (addr w') (ring_options opts) d b))"
proof -
  let ?opts = "if io_Logger opts = None then opts\<lparr>io_Logger := Some slog\<rparr> else opts"
  have o: "io_Transport ?opts = Some t" "ring_options ?opts = ring_options opts"
    using assms(3) by (simp_all add: ring_options_def)
  then have "daemon_Start rt self \<lparr>d_instance = None, d_opts = ?opts, d_address = a\<rparr> w = Done (d, err) w'"
    using assms(5) by (simp add: daemon_ListenAndServe_def Let_def exec)
  from Start_listens [OF assms(1,2) _ assms(4) this] o show ?thesis by auto
qed

lemma start_daemons_listen:
  assumes "rt_transport rt = T" "start_daemons rt slog parent opts self peers w = Done (None, xs) w'"
    and "okw w" "parent \<in> made w" "io_Transport opts = Some t" "t \<in> made w"
  shows "okw w' \<and> made w \<subseteq> made w' \<and> (\<forall>u\<in>made w. u \<noteq> t \<longrightarrow> addr w' u = addr w u) \<and>
    all_listen (made w') (addr w') (ring_options opts) (map fst xs) (map snd xs) \<and>
    map (\<lambda>x. IsSelf (snd x)) xs = map IsSelf peers"
  using assms(2-6)
proof (induction peers arbitrary: opts self w xs t)
  case Nil
  then show ?case by (simp add: exec all_listen_def)
next
  case (Cons p peers)
  from Cons.prems(1) obtain d err w1 where d: "daemon_ListenAndServe rt slog self (Address p) opts w = Done (d, err) w1"
    by (auto elim: bnd_DoneE)
  note l = ListenAndServe_listens [OF assms(1) Cons.prems(2,4,5) d]
  have err: "err = None" using Cons.prems(1) d by (cases err) (simp_all add: exec)
  with l obtain b where b: "listens (made w1) (addr w1) (ring_options opts) d b" by blast
  obtain t' w2 where t': "T_New T parent w1 = (t', w2)" by fastforce
  have "okw w1" "parent \<in> made w1" using l Cons.prems(3) by auto
  note new = New [OF this t']
  have b2: "listens (made w2) (addr w2) (ring_options opts) d b"
    by (rule listens_mono [OF b]) (use new in auto)
  have a: "daemon_ListenAddress rt d w2 = Done b w2"
    using ListenAddress_listens [OF assms(1) _ b2] new by blast
  let ?opts = "opts\<lparr>io_Transport := Some t'\<rparr>"
  from Cons.prems(1) d err t' a assms(1) obtain ys where
    rest: "start_daemons rt slog parent ?opts (Suc self) peers w2 = Done (None, ys) w'"
    and xs: "xs = (d, \<lparr>Address = b, IsSelf = IsSelf p\<rparr>) # ys"
    by (auto simp: exec effect_exec elim!: bnd_DoneE)
  have ro: "ring_options ?opts = ring_options opts" by (simp add: ring_options_def)
  have ih: "okw w' \<and> made w2 \<subseteq> made w' \<and> (\<forall>u\<in>made w2. u \<noteq> t' \<longrightarrow> addr w' u = addr w2 u) \<and>
      all_listen (made w') (addr w') (ring_options opts) (map fst ys) (map snd ys) \<and>
      map (\<lambda>x. IsSelf (snd x)) ys = map IsSelf peers"
    unfolding ro [symmetric] by (rule Cons.IH [OF rest]) (use new l Cons.prems(3) in auto)
  have old: "addr w' u = addr w1 u" if "u \<in> made w1" for u
    using that ih new by (metis insertI2)
  have "listens (made w') (addr w') (ring_options opts) d b"
    by (rule listens_mono [OF b]) (use old ih new in auto)
  then show ?case using ih xs old l new by (auto simp: all_listen_def)
qed

lemma tell_daemons_know:
  assumes "rt_transport rt = T" "makes_clients rt"
    and "tell_daemons rt peers ds w = Done (None, ds') w'" "okw w"
    and "all_listen (made w) (addr w) opts ds ps"
  shows "okw w' \<and> all_listen (made w') (addr w') opts ds' ps \<and> made w' = made w \<and> addr w' = addr w \<and>
    list_all2 (\<lambda>d p. knows rt opts (Address p) peers d) ds' ps"
  using assms(3-5)
proof (induction ds arbitrary: w ds' ps)
  case Nil
  then show ?case by (simp add: exec all_listen_def)
next
  case (Cons d ds)
  from Cons.prems(3) obtain p qs where ps: "ps = p # qs" "listens (made w) (addr w) opts d (Address p)"
    "all_listen (made w) (addr w) opts ds qs" by (auto simp: all_listen_def list_all2_Cons1)
  from Cons.prems(1) obtain err d' w1 where d: "daemon_SetPeers rt peers d w = Done (err, d') w1"
    by (auto elim: bnd_DoneE)
  have err: "err = None" using Cons.prems(1) d by (cases err) (simp_all add: exec)
  note k = SetPeers_knows [OF assms(1,2) Cons.prems(2) ps(2) d]
  from Cons.prems(1) d err obtain es where rest: "tell_daemons rt peers ds w1 = Done (None, es) w'" "ds' = d' # es"
    by (auto simp: exec elim!: bnd_DoneE)
  have "all_listen (made w1) (addr w1) opts ds qs" using ps(3) k by simp
  from Cons.IH [OF rest(1) _ this] k show ?case
    using rest(2) ps(1) err by (auto simp: all_listen_def)
qed

lemma StartWith_knows:
  assumes "rt_transport rt = T" "makes_clients rt" "okw w" "io_Transport opts = Some t" "t \<in> made w"
    and "cluster_StartWith rt slog peers opts (cl, w) = Done None (cl', w')"
  shows "okw w' \<and> all_listen (made w') (addr w') (ring_options opts) (cl_daemons cl') (cl_peers cl') \<and>
    list_all2 (\<lambda>d p. knows rt (ring_options opts) (Address p) (cl_peers cl') d) (cl_daemons cl') (cl_peers cl') \<and>
    map IsSelf (cl_peers cl') = map IsSelf peers"
proof -
  have idle: "cl_daemons cl = []" "cl_peers cl = []"
    using assms(6) by (auto simp: cluster_StartWith_def exec split: if_splits)
  from assms(6) idle assms(4) obtain err xs w1 where
    s: "start_daemons rt slog t opts (cl_next cl) peers w = Done (err, xs) w1"
    by (auto simp: cluster_StartWith_def exec in_world_def split: res.splits elim!: bnd_DoneE)
  have err: "err = None"
    using assms(6) idle assms(4) s by (cases err) (simp_all add: cluster_StartWith_def exec)
  from start_daemons_listen [OF assms(1) s [unfolded err] assms(3,5,4,5)]
  have l: "okw w1" "all_listen (made w1) (addr w1) (ring_options opts) (map fst xs) (map snd xs)"
    "map (\<lambda>x. IsSelf (snd x)) xs = map IsSelf peers" by blast+
  from assms(6) idle assms(4) s err obtain ds where
    tell: "tell_daemons rt (map snd xs) (map fst xs) w1 = Done (None, ds) w'"
    and cl': "cl_daemons cl' = ds" "cl_peers cl' = map snd xs"
    by (auto simp: cluster_StartWith_def exec in_world_def split: res.splits elim!: bnd_DoneE)
  from tell_daemons_know [OF assms(1,2) tell l(1,2)] l(3) show ?thesis unfolding cl' by (auto simp: comp_def)
qed

end

section \<open>Owners\<close>

definition no_collision :: "hash_fn \<Rightarrow> Options \<Rightarrow> string set \<Rightarrow> bool" where
  "no_collision fnv1 opts S \<longleftrightarrow>
     (\<forall>a\<in>S. \<forall>b\<in>S. \<forall>i<ring_replicas opts. \<forall>j<ring_replicas opts.
        replica_hash (ring_hash fnv1 opts) a i = replica_hash (ring_hash fnv1 opts) b j \<longrightarrow> a = b)"

text \<open>A daemon at the address \<open>a\<close> takes the peer at position \<open>k\<close> for the owner of a key.\<close>

definition picks ::
  "('m, 'c, 't, 'w, 'p) runtime \<Rightarrow> string \<Rightarrow> string \<Rightarrow> Info list \<Rightarrow> nat \<Rightarrow> ('m, 'c, 't, 'w, 'p) Daemon \<Rightarrow> bool" where
  "picks rt key a ps k d \<longleftrightarrow>
     (\<exists>i c. d_instance d = Some i \<and> instance_PickPeer rt i key = (Some c, Address (ps ! k) \<noteq> a) \<and>
        Address (Client_PeerInfo (client_ops (rt_client rt)) c) = Address (ps ! k))"

lemma knows_picks:
  fixes rt :: "('m, 'c, 't, 'w, 'p) runtime"
  assumes "ring_sort (rt_sort rt)" "0 < ring_replicas opts" "\<forall>p\<in>set ps. \<not> IsSelf p" "ps \<noteq> []"
    and "knows rt opts a ps d"
  shows "\<exists>k<length ps. picks rt key a ps k d \<and>
    (\<forall>cs. map (Client_HashKey (client_ops (rt_client rt))) cs = map Address ps \<longrightarrow>
       no_collision (rt_fnv1 rt) opts (Address ` set ps) \<longrightarrow>
       map_option (Client_HashKey (client_ops (rt_client rt)))
         (picker_Get (picker_of (rt_sort rt) (rt_fnv1 rt) opts (client_ops (rt_client rt)) cs) key) =
       Some (Address (ps ! k)))"
proof -
  let ?ops = "client_ops (rt_client rt)" and ?pk = "picker_of (rt_sort rt) (rt_fnv1 rt) opts (client_ops (rt_client rt))"
  from assms(5) obtain i cs where i: "d_instance d = Some i" "i_picker i = ?pk cs"
    "map (Client_PeerInfo ?ops) cs = map (mark a) ps" "map (Client_HashKey ?ops) cs = map Address ps"
    unfolding knows_def by blast
  have len: "length cs = length ps" using i(4) by (metis length_map)
  then have "set cs \<noteq> {}" using assms(4) by auto
  from ring_sort.picker_of_Get [OF assms(1) this assms(2)] obtain e where
    e: "picker_Get (?pk cs) key = Some (r_client e)"
    "succ_entry (ring_hash (rt_fnv1 rt) opts key)
       (ring_set (ring_hash (rt_fnv1 rt) opts) (ring_replicas opts) (Client_HashKey ?ops) (set cs)) e" by blast
  then have "r_client e \<in> set cs" by (auto simp: succ_entry_def ring_set_def)
  then obtain k where k: "k < length ps" "r_client e = cs ! k" using len by (metis in_set_conv_nth)
  have info: "Client_PeerInfo ?ops (cs ! k) = mark a (ps ! k)" "Client_HashKey ?ops (cs ! k) = Address (ps ! k)"
    using i(3,4) k(1) len by (metis nth_map)+
  have "\<not> picker_IsEmpty (?pk cs)" using e(1) by (auto simp: picker_Get_def split: if_splits)
  moreover have "IsSelf (mark a (ps ! k)) \<longleftrightarrow> Address (ps ! k) = a" using assms(3) k(1) by (simp add: mark_def)
  ultimately have "picks rt key a ps k d"
    using i(1,2) e(1) k info by (simp add: picks_def instance_PickPeer_def picker_PickPeer_def)
  moreover have "map_option (Client_HashKey ?ops) (picker_Get (?pk cs') key) = Some (Address (ps ! k))"
    if cs': "map (Client_HashKey ?ops) cs' = map Address ps" and nc: "no_collision (rt_fnv1 rt) opts (Address ` set ps)" for cs'
  proof -
    have img: "Client_HashKey ?ops ` set cs = Address ` set ps" "Client_HashKey ?ops ` set cs' = Address ` set ps"
      using i(4) cs' by (metis set_map)+
    have "map_option (Client_HashKey ?ops) (picker_Get (?pk cs') key) = map_option (Client_HashKey ?ops) (picker_Get (?pk cs) key)"
      by (rule same_owner [OF assms(1,1)]) (use img nc in \<open>simp_all add: no_collision_def\<close>)
    then show ?thesis using e(1) k(2) info(2) by simp
  qed
  ultimately show ?thesis using k(1) by blast
qed

lemma picks_iff:
  assumes "distinct (map Address ps)" "j < length ps" "k < length ps"
  shows "picks rt key (Address (ps ! j)) ps k d \<longleftrightarrow>
    (\<exists>i c. d_instance d = Some i \<and> instance_PickPeer rt i key = (Some c, j \<noteq> k) \<and>
       Address (Client_PeerInfo (client_ops (rt_client rt)) c) = Address (ps ! k))"
proof -
  have "Address (ps ! k) \<noteq> Address (ps ! j) \<longleftrightarrow> j \<noteq> k"
    using nth_eq_iff_index_eq [OF assms(1), of k j] assms(2,3) by auto
  then show ?thesis by (simp add: picks_def)
qed

text \<open>All daemons that were told of the same peers pick the same one.\<close>

lemma knows_agree:
  fixes rt :: "('m, 'c, 't, 'w, 'p) runtime"
  assumes "ring_sort (rt_sort rt)" "0 < ring_replicas opts" "\<forall>p\<in>set ps. \<not> IsSelf p" "ps \<noteq> []"
    and "distinct (map Address ps)" "no_collision (rt_fnv1 rt) opts (Address ` set ps)"
    and "list_all2 (\<lambda>d p. knows rt opts (Address p) ps d) ds ps"
  shows "\<exists>k<length ps. \<forall>j<length ps. picks rt key (Address (ps ! j)) ps k (ds ! j)"
proof -
  let ?ops = "client_ops (rt_client rt)" and ?pk = "picker_of (rt_sort rt) (rt_fnv1 rt) opts (client_ops (rt_client rt))"
  have know: "knows rt opts (Address (ps ! j)) ps (ds ! j)" if "j < length ps" for j
    using assms(7) that by (simp add: list_all2_conv_all_nth)
  have first: "0 < length ps" using assms(4) by simp
  from know [OF first] obtain cs where cs: "map (Client_HashKey ?ops) cs = map Address ps"
    unfolding knows_def by blast
  obtain k where k: "k < length ps" "map_option (Client_HashKey ?ops) (picker_Get (?pk cs) key) = Some (Address (ps ! k))"
    using knows_picks [OF assms(1-4) know [OF first]] cs assms(6) by blast
  have "picks rt key (Address (ps ! j)) ps k (ds ! j)" if j: "j < length ps" for j
  proof -
    obtain m where m: "m < length ps" "picks rt key (Address (ps ! j)) ps m (ds ! j)"
      "map_option (Client_HashKey ?ops) (picker_Get (?pk cs) key) = Some (Address (ps ! m))"
      using knows_picks [OF assms(1-4) know [OF j]] cs assms(6) by blast
    then have "m = k" using k assms(5) by (simp add: distinct_conv_nth) (metis nth_map length_map)
    then show ?thesis using m(2) by simp
  qed
  then show ?thesis using k(1) by blast
qed

context transport_api
begin

lemma find_daemon_at:
  assumes "rt_transport rt = T" "okw w"
    and "all_listen (made w) (addr w) opts ds ps" "distinct (map Address ps)" "k < length ps"
  shows "find_daemon rt key (Address (ps ! k)) i ds w = Done (i + k) w"
  using assms(3-5)
proof (induction ds arbitrary: ps k i)
  case Nil
  then show ?case by (simp add: all_listen_def)
next
  case (Cons d ds)
  from Cons.prems(1) obtain p qs where ps: "ps = p # qs" "listens (made w) (addr w) opts d (Address p)"
    "all_listen (made w) (addr w) opts ds qs" by (auto simp: all_listen_def list_all2_Cons1)
  note a = ListenAddress_listens [OF assms(1,2) ps(2)]
  show ?case
  proof (cases k)
    case 0
    then show ?thesis using ps(1) a by (simp add: exec)
  next
    case (Suc m)
    then have "Address p \<noteq> Address (ps ! k)" "m < length qs" "distinct (map Address qs)"
      using Cons.prems(2,3) ps(1) by auto
    with Cons.IH [OF ps(3), of m "Suc i"] show ?thesis using Suc ps(1) a by (simp add: exec)
  qed
qed

lemma FindOwningDaemon_at:
  assumes "rt_transport rt = T" "okw w"
    and "all_listen (made w) (addr w) opts (cl_daemons cl) ps" "distinct (map Address ps)" "k < length ps"
    and "picks rt key (Address (ps ! 0)) ps k (cl_daemons cl ! 0)"
  shows "FindOwningDaemon rt key (cl, w) = Done k (cl, w)"
proof -
  have len: "length (cl_daemons cl) = length ps" using assms(3) by (simp add: all_listen_def list_all2_lengthD)
  then obtain d ds where ds: "cl_daemons cl = d # ds" using assms(5) by (cases "cl_daemons cl") auto
  from assms(6) ds obtain i c where i: "d_instance d = Some i"
    "instance_PickPeer rt i key = (Some c, Address (ps ! k) \<noteq> Address (ps ! 0))"
    "Address (Client_PeerInfo (client_ops (rt_client rt)) c) = Address (ps ! k)" by (auto simp: picks_def)
  have k: "Address (ps ! k) = Address (ps ! 0) \<longleftrightarrow> k = 0"
    using assms(4,5) nth_eq_iff_index_eq [OF assms(4), of k 0] by (cases ps) auto
  show ?thesis
  proof (cases "k = 0")
    case True
    then show ?thesis using ds i k by (simp add: FindOwningDaemon_def on_instance_def in_world_def exec)
  next
    case False
    have "find_daemon rt key (Address (ps ! k)) 0 (d # ds) w = Done k w"
      using find_daemon_at [OF assms(1-5), of key 0] ds by simp
    then show ?thesis using False ds i k by (simp add: FindOwningDaemon_def on_instance_def in_world_def)
  qed
qed

text \<open>A cluster that was started: every key has one owner, every daemon knows it, and
  \<open>FindOwningDaemon\<close> finds it.\<close>

lemma StartWith_owner:
  assumes "rt_transport rt = T" "makes_clients rt" "okw w" "io_Transport opts = Some t" "t \<in> made w"
    and "cluster_StartWith rt slog peers opts (cl, w) = Done None (cl', w')"
    and "ring_sort (rt_sort rt)" "0 < ring_replicas (ring_options opts)" "\<forall>p\<in>set peers. \<not> IsSelf p"
    and "cl_peers cl' \<noteq> []" "distinct (map Address (cl_peers cl'))"
    and "no_collision (rt_fnv1 rt) (ring_options opts) (Address ` set (cl_peers cl'))"
  shows "\<exists>k<length (cl_peers cl'). FindOwningDaemon rt key (cl', w') = Done k (cl', w') \<and>
    (\<forall>j<length (cl_peers cl'). \<exists>i c. d_instance (cl_daemons cl' ! j) = Some i \<and>
       instance_PickPeer rt i key = (Some c, j \<noteq> k) \<and>
       Address (Client_PeerInfo (client_ops (rt_client rt)) c) = Address (cl_peers cl' ! k))"
proof -
  note s = StartWith_knows [OF assms(1-6)]
  have "IsSelf ` set (cl_peers cl') = IsSelf ` set peers"
    using s by (metis set_map)
  then have self: "\<forall>p\<in>set (cl_peers cl'). \<not> IsSelf p" using assms(9) by (metis (full_types) imageE imageI)
  from s have "list_all2 (\<lambda>d p. knows rt (ring_options opts) (Address p) (cl_peers cl') d) (cl_daemons cl') (cl_peers cl')"
    by blast
  from knows_agree [OF assms(7,8) self assms(10-12) this, of key] obtain k where
    k: "k < length (cl_peers cl')"
    "\<forall>j<length (cl_peers cl'). picks rt key (Address (cl_peers cl' ! j)) (cl_peers cl') k (cl_daemons cl' ! j)" by blast
  have "0 < length (cl_peers cl')" using assms(10) by simp
  with k(2) have "picks rt key (Address (cl_peers cl' ! 0)) (cl_peers cl') k (cl_daemons cl' ! 0)" by blast
  from FindOwningDaemon_at [OF assms(1) _ _ assms(11) k(1) this] s have "FindOwningDaemon rt key (cl', w') = Done k (cl', w')"
    by blast
  with k show ?thesis by (intro exI [of _ k]) (simp add: picks_iff [OF assms(11) _ k(1), where rt = rt and key = key])
qed

end

section \<open>Transports that do not fail\<close>

context listening_transport
begin

lemma Start_ok:
  assumes "rt_transport rt = T" "okw w" "io_Transport (d_opts d) = Some t" "t \<in> made w" "good (d_address d)"
  shows "\<exists>d' w'. daemon_Start rt self d w = Done (d', None) w' \<and> addr w' t = Some (d_address d)"
proof -
  obtain i w1 where i: "instance_New rt self (d_opts d) w = (i, w1)" by fastforce
  have "okw w1" "t \<in> made w1" using New_instance [OF assms(1-4) i] assms(4) by simp_all
  from Listen_ok [OF this assms(5)] show ?thesis
    using assms(1,3) i by (auto simp: daemon_Start_def on_transport_def exec effect_exec Let_def)
qed

lemma ListenAndServe_ok:
  assumes "rt_transport rt = T" "okw w" "io_Transport opts = Some t" "t \<in> made w" "good a"
  shows "\<exists>d w'. daemon_ListenAndServe rt slog self a opts w = Done (d, None) w' \<and> addr w' t = Some a"
proof -
  let ?opts = "if io_Logger opts = None then opts\<lparr>io_Logger := Some slog\<rparr> else opts"
  have t: "io_Transport ?opts = Some t" using assms(3) by simp
  from Start_ok [OF assms(1,2) _ assms(4), of "\<lparr>d_instance = None, d_opts = ?opts, d_address = a\<rparr>" self] t assms(5)
  show ?thesis by (auto simp: daemon_ListenAndServe_def Let_def exec)
qed

lemma start_daemons_ok:
  assumes "rt_transport rt = T" "okw w" "parent \<in> made w" "io_Transport opts = Some t" "t \<in> made w"
    and "\<forall>p\<in>set peers. good (Address p)"
  shows "\<exists>xs w'. start_daemons rt slog parent opts self peers w = Done (None, xs) w' \<and>
    map (\<lambda>x. Address (snd x)) xs = map Address peers"
  using assms(2-6)
proof (induction peers arbitrary: opts self w t)
  case Nil
  then show ?case by (simp add: exec)
next
  case (Cons p peers)
  have good: "good (Address p)" "\<forall>p\<in>set peers. good (Address p)" using Cons.prems(5) by simp_all
  from ListenAndServe_ok [OF assms(1) Cons.prems(1,3,4) good(1)] obtain d w1 where
    d: "daemon_ListenAndServe rt slog self (Address p) opts w = Done (d, None) w1" "addr w1 t = Some (Address p)"
    by blast
  note l = ListenAndServe_listens [OF assms(1) Cons.prems(1,3,4) d(1)]
  then have at: "listens (made w1) (addr w1) (ring_options opts) d (Address p)"
    using d(2) by (auto simp: listens_def)
  obtain t' w2 where t': "T_New T parent w1 = (t', w2)" by fastforce
  have "okw w1" "parent \<in> made w1" using l Cons.prems(2) by auto
  note new = New [OF this t']
  have "listens (made w2) (addr w2) (ring_options opts) d (Address p)"
    by (rule listens_mono [OF at]) (use new in auto)
  then have a: "daemon_ListenAddress rt d w2 = Done (Address p) w2"
    using ListenAddress_listens [OF assms(1)] new by blast
  let ?opts = "opts\<lparr>io_Transport := Some t'\<rparr>"
  have "\<exists>ys w'. start_daemons rt slog parent ?opts (Suc self) peers w2 = Done (None, ys) w' \<and>
      map (\<lambda>x. Address (snd x)) ys = map Address peers"
    by (rule Cons.IH) (use new l Cons.prems(2) good(2) in auto)
  then show ?case using d(1) t' a assms(1) by (auto simp: exec effect_exec)
qed

lemma set_peers_loop_ok:
  assumes "rt_transport rt = T" "okw w" "t \<in> made w"
  shows "\<exists>x w'. set_peers_loop rt t peers picker self w = (Inr x, w')"
  using assms(2,3)
proof (induction peers arbitrary: picker self w)
  case Nil
  then show ?case by simp
next
  case (Cons p peers)
  from NewClient_ok [OF Cons.prems] obtain c w1 where c: "T_NewClient T t p w = ((c, None), w1)" by blast
  from NewClient [OF Cons.prems c] Cons.prems(2) have "okw w1" "t \<in> made w1" by simp_all
  then show ?case using Cons.IH c assms(1) Cons.prems by (simp add: Let_def)
qed

lemma SetPeers_ok:
  assumes "rt_transport rt = T" "makes_clients rt" "okw w" "listens (made w) (addr w) opts d a"
    and "a \<in> Address ` set peers"
  shows "\<exists>d' w'. daemon_SetPeers rt peers d w = Done (None, d') w'"
proof -
  from assms(4) obtain t i where i: "t \<in> made w" "d_instance d = Some i" "i_Transport i = t"
    "\<lparr>HashFn = i_HashFn i, Replicas = i_Replicas i\<rparr> = opts" by (auto simp: listens_def)
  from set_peers_loop_ok [OF assms(1,3) i(1)] obtain picker self w' where
    loop: "set_peers_loop rt t (map (mark a) peers) (NewPicker (rt_fnv1 rt) opts) False w = (Inr (picker, self), w')"
    by (metis prod.exhaust)
  from assms(5) obtain p where "p \<in> set peers" "IsSelf (mark a p)" by (auto simp: mark_def)
  then have "\<exists>p\<in>set (map (mark a) peers). IsSelf p" by auto
  then have "self" using set_peers_loop_spec [OF assms(2) loop] by simp
  then have "\<exists>d' w'. set_instance_peers rt (map (mark a) peers) d w = Done (None, d') w'"
    using loop i by (simp add: set_instance_peers_def on_instance_def effect_def instance_SetPeers_def)
  then show ?thesis using mark_peers [OF assms(1,3,4)] by (simp add: daemon_SetPeers_def exec)
qed

lemma tell_daemons_ok:
  assumes "rt_transport rt = T" "makes_clients rt" "okw w" "all_listen (made w) (addr w) opts ds ps"
    and "Address ` set ps \<subseteq> Address ` set peers"
  shows "\<exists>ds' w'. tell_daemons rt peers ds w = Done (None, ds') w'"
  using assms(3-5)
proof (induction ds arbitrary: w ps)
  case Nil
  then show ?case by (simp add: exec)
next
  case (Cons d ds)
  from Cons.prems(2) obtain p qs where ps: "ps = p # qs" "listens (made w) (addr w) opts d (Address p)"
    "all_listen (made w) (addr w) opts ds qs" by (auto simp: all_listen_def list_all2_Cons1)
  have a: "Address p \<in> Address ` set peers" "Address ` set qs \<subseteq> Address ` set peers" using Cons.prems(3) ps(1) by auto
  from SetPeers_ok [OF assms(1,2) Cons.prems(1) ps(2) a(1)] obtain d' w1 where
    d: "daemon_SetPeers rt peers d w = Done (None, d') w1" by blast
  note k = SetPeers_knows [OF assms(1,2) Cons.prems(1) ps(2) d]
  have "\<exists>ds' w'. tell_daemons rt peers ds w1 = Done (None, ds') w'"
    by (rule Cons.IH [of _ qs]) (use k ps(3) a(2) in auto)
  then show ?case using d by (auto simp: exec)
qed

lemma StartWith_ok:
  assumes "rt_transport rt = T" "makes_clients rt" "okw w" "io_Transport opts = Some t" "t \<in> made w"
    and "cl_daemons cl = []" "cl_peers cl = []" "\<forall>p\<in>set peers. good (Address p)"
  shows "\<exists>cl' w'. cluster_StartWith rt slog peers opts (cl, w) = Done None (cl', w') \<and>
    map Address (cl_peers cl') = map Address peers"
proof -
  from start_daemons_ok [OF assms(1,3,5,4,5,8)] obtain xs w1 where
    s: "start_daemons rt slog t opts (cl_next cl) peers w = Done (None, xs) w1"
    "map (\<lambda>x. Address (snd x)) xs = map Address peers" by blast
  from start_daemons_listen [OF assms(1) s(1) assms(3,5,4,5)]
  have l: "okw w1" "all_listen (made w1) (addr w1) (ring_options opts) (map fst xs) (map snd xs)" by blast+
  from tell_daemons_ok [OF assms(1,2) l] obtain ds w' where
    "tell_daemons rt (map snd xs) (map fst xs) w1 = Done (None, ds) w'" by blast
  then show ?thesis using assms(4,6,7) s by (simp add: cluster_StartWith_def exec comp_def)
qed

end

section \<open>Restarting\<close>

text \<open>A daemon whose instance knows of no peers.\<close>

definition alone :: "('m, 'c, 't, 'w, 'p) runtime \<Rightarrow> ('m, 'c, 't, 'w, 'p) Daemon \<Rightarrow> bool" where
  "alone rt d \<longleftrightarrow> (\<exists>i opts. d_instance d = Some i \<and> i_picker i = NewPicker (rt_fnv1 rt) opts)"

lemma alone_PickPeer:
  assumes "alone rt d"
  shows "\<exists>i. d_instance d = Some i \<and> instance_PickPeer rt i key = (None, False) \<and>
    instance_getAllPeers rt i = rt_order rt []"
  using assms
  by (auto simp: alone_def instance_PickPeer_def picker_PickPeer_def picker_IsEmpty_def NewPicker_def
      instance_getAllPeers_def picker_GetAll_def)

lemma Start_alone:
  assumes "daemon_Start rt self d w = Done (d', err) w'"
  shows "alone rt d'"
proof -
  obtain i w1 where i: "instance_New rt self (d_opts d) w = (i, w1)" by fastforce
  then have "i_picker i = NewPicker (rt_fnv1 rt) (ring_options (d_opts d))"
    by (auto simp: instance_New_def Let_def ring_options_def split: prod.splits)
  moreover have "d' = d\<lparr>d_instance := Some i\<rparr>"
    using assms i by (auto simp: daemon_Start_def effect_exec exec Let_def elim!: bnd_DoneE)
  ultimately show ?thesis by (auto simp: alone_def)
qed

lemma set_instance_peers_alone:
  assumes "makes_clients rt" "\<forall>p\<in>set peers. \<not> IsSelf p" "alone rt d"
    and "set_instance_peers rt peers d w = Done (err, d') w'"
  shows "alone rt d'"
proof -
  from assms(3) obtain i opts where i: "d_instance d = Some i" "i_picker i = NewPicker (rt_fnv1 rt) opts"
    by (auto simp: alone_def)
  obtain e i' w1 where set: "instance_SetPeers rt peers (i, w) = (e, i', w1)" by (metis prod.exhaust)
  then have "i' = i" using instance_SetPeers_spec [OF assms(1) set] assms(2) by blast
  then show ?thesis
    using assms(4) set i by (auto simp: set_instance_peers_def on_instance_def effect_def alone_def)
qed

lemma restart_daemons_alone:
  assumes "makes_clients rt" "\<forall>p\<in>set peers. \<not> IsSelf p"
    and "restart_daemons rt peers self ds w = Done (None, ds') w'"
  shows "length ds' = length ds \<and> (\<forall>d\<in>set ds'. alone rt d)"
  using assms(3)
proof (induction ds arbitrary: self w ds')
  case Nil
  then show ?case by (simp add: exec)
next
  case (Cons d ds)
  from Cons.prems obtain e1 w1 where d: "daemon_Shutdown rt d w = Done e1 w1" by (auto elim: bnd_DoneE)
  have e1: "e1 = None" using Cons.prems d by (cases e1) (simp_all add: exec)
  from Cons.prems d e1 obtain d1 e2 w2 where s: "daemon_Start rt self d w1 = Done (d1, e2) w2"
    by (auto simp: exec elim: bnd_DoneE)
  have e2: "e2 = None" using Cons.prems d e1 s by (cases e2) (simp_all add: exec)
  from Cons.prems d e1 s e2 obtain e3 d2 w3 es where
    p: "set_instance_peers rt peers d1 w2 = Done (e3, d2) w3"
    and rest: "restart_daemons rt peers (Suc self) ds w3 = Done (None, es) w'" "ds' = d2 # es"
    by (auto simp: exec elim!: bnd_DoneE)
  from set_instance_peers_alone [OF assms(1,2) Start_alone [OF s] p] Cons.IH [OF rest(1)] rest(2)
  show ?case by simp
qed

lemma Restart_alone:
  assumes "makes_clients rt" "\<forall>p\<in>set (cl_peers cl). \<not> IsSelf p" "cl_daemons cl \<noteq> []"
    and "cluster_Restart rt (cl, w) = Done None (cl', w')"
  shows "cl_peers cl' = cl_peers cl \<and> length (cl_daemons cl') = length (cl_daemons cl) \<and>
    (\<forall>d\<in>set (cl_daemons cl'). alone rt d) \<and> FindOwningDaemon rt key (cl', w') = Done 0 (cl', w')"
proof -
  from assms(4) obtain ds where ds:
    "restart_daemons rt (cl_peers cl) (cl_next cl) (cl_daemons cl) w = Done (None, ds) w'"
    "cl_daemons cl' = ds" "cl_peers cl' = cl_peers cl"
    by (auto simp: cluster_Restart_def exec in_world_def split: res.splits elim!: bnd_DoneE)
  note r = restart_daemons_alone [OF assms(1,2) ds(1)]
  obtain d es where c: "cl_daemons cl' = d # es" using r ds(2) assms(3) by (cases ds) auto
  then have "alone rt d" using r ds(2) by simp
  from alone_PickPeer [OF this, of key] c have "FindOwningDaemon rt key (cl', w') = Done 0 (cl', w')"
    by (auto simp: FindOwningDaemon_def on_instance_def in_world_def exec)
  then show ?thesis using r ds by simp
qed

context reliable_transport
begin

lemma restart_daemons_ok:
  assumes "rt_transport rt = T" "okw w" "\<forall>d\<in>set ds. good (d_address d) \<and> (\<exists>t\<in>made w. io_Transport (d_opts d) = Some t)"
  shows "\<exists>ds' w'. restart_daemons rt peers self ds w = Done (None, ds') w'"
  using assms(2,3)
proof (induction ds arbitrary: self w)
  case Nil
  then show ?case by (simp add: exec)
next
  case (Cons d ds)
  then obtain t where t: "io_Transport (d_opts d) = Some t" "t \<in> made w" "good (d_address d)" by auto
  from Shutdown_ok [OF Cons.prems(1) t(2)] obtain w1 where s: "T_Shutdown T t w = Done None w1" by blast
  note w1 = Shutting [OF Cons.prems(1) t(2) s]
  from w1 t(2) have t1: "okw w1" "t \<in> made w1" by simp_all
  from Start_ok [OF assms(1) t1(1) t(1) t1(2) t(3)] obtain d1 w2 where d1: "daemon_Start rt self d w1 = Done (d1, None) w2"
    by blast
  note w2 = Start_listens [OF assms(1) t1(1) t(1) t1(2) d1]
  then obtain a where l: "listens (made w2) (addr w2) (ring_options (d_opts d)) d1 a" by blast
  then obtain i where i: "d_instance d1 = Some i" by (auto simp: listens_def)
  obtain e i' w3 where "instance_SetPeers rt peers (i, w2) = (e, i', w3)" by (metis prod.exhaust)
  then obtain d2 where p: "set_instance_peers rt peers d1 w2 = Done (e, d2) w3"
    using i by (simp add: set_instance_peers_def on_instance_def effect_def)
  note w3 = set_instance_peers_world [OF assms(1) _ l p]
  have "\<exists>ds' w'. restart_daemons rt peers (Suc self) ds w3 = Done (None, ds') w'"
    by (rule Cons.IH) (use w1 w2 w3 Cons.prems(2) in auto)
  then show ?case using t(1) s d1 p assms(1) by (auto simp: daemon_Shutdown_def on_transport_def exec)
qed

lemma Restart_ok:
  assumes "rt_transport rt = T" "okw w" "all_listen (made w) (addr w) opts (cl_daemons cl) ps"
    and "\<forall>d\<in>set (cl_daemons cl). good (d_address d)"
  shows "\<exists>cl' w'. cluster_Restart rt (cl, w) = Done None (cl', w')"
proof -
  have "\<exists>t\<in>made w. io_Transport (d_opts d) = Some t" if "d \<in> set (cl_daemons cl)" for d
    using assms(3) that by (auto simp: all_listen_def list_all2_conv_all_nth in_set_conv_nth listens_def)
  with assms(4) restart_daemons_ok [OF assms(1,2), of "cl_daemons cl" "cl_peers cl" "cl_next cl"] obtain ds w' where
    "restart_daemons rt (cl_peers cl) (cl_next cl) (cl_daemons cl) w = Done (None, ds) w'" by blast
  then show ?thesis by (simp add: cluster_Restart_def exec)
qed

end

end
