(* ===== verification/HttpServer.thy ===== *)
theory HttpServer
  imports Cluster HttpLaws
begin

text \<open>
  Listening and shutting down of the HTTP transport, src/transport/http_transport.go.  Transports are
  references into a memory; beside its options a transport has a listener, a server and the count of
  goroutines it waits for.  The network, the loggers, the dialer and the context of a call are a table
  of parameters over the state of the outside.  A goroutine that serves ends when its server is shut
  down; how the server routes requests to the handler, and a server that stops by itself, are left out.  The transport keeps the contract of transports, so that what was proved of clusters holds over
  HTTP.
\<close>

section \<open>State\<close>

text \<open>The outside: listening on an address answers with the address that is listened on.\<close>

record ('l, 'x, 'n) net =
  nn_Listen :: "string \<Rightarrow> 'n \<Rightarrow> (goerr + string) \<times> 'n"
  nn_Info :: "'l option \<Rightarrow> string \<Rightarrow> 'n \<Rightarrow> 'n"
  nn_Dial :: "'x option \<Rightarrow> string \<Rightarrow> 'n \<Rightarrow> goerr option \<times> 'n"
  nn_ctxErr :: "'n \<Rightarrow> goerr option"
  nn_sleep :: "'n \<Rightarrow> 'n"
  nn_Shutdown :: "'n \<Rightarrow> goerr option \<times> 'n"

datatype server = Serving | Closed

record ('h, 'l, 'x, 'r) HttpServer =
  hs_transport :: "('h, 'l, 'x, 'r) HttpTransport"
  hs_instance :: "nat option"
  hs_listener :: "string option"
  hs_server :: "server option"
  hs_wg :: nat

record ('h, 'l, 'x, 'r, 'n) http_world =
  hw_heap :: "nat \<Rightarrow> ('h, 'l, 'x, 'r) HttpServer"
  hw_next :: nat
  hw_net :: 'n

definition hw_update ::
  "nat \<Rightarrow> (('h, 'l, 'x, 'r) HttpServer \<Rightarrow> ('h, 'l, 'x, 'r) HttpServer) \<Rightarrow> ('h, 'l, 'x, 'r, 'n) http_world \<Rightarrow>
   ('h, 'l, 'x, 'r, 'n) http_world" where
  "hw_update t f w = w\<lparr>hw_heap := (hw_heap w)(t := f (hw_heap w t))\<rparr>"

definition alloc_transport ::
  "('h, 'l, 'x, 'r) HttpTransport \<Rightarrow> ('h, 'l, 'x, 'r, 'n) http_world \<Rightarrow> nat \<times> ('h, 'l, 'x, 'r, 'n) http_world" where
  "alloc_transport v w =
     (hw_next w,
      w\<lparr>hw_heap := (hw_heap w)(hw_next w :=
          \<lparr>hs_transport = v, hs_instance = None, hs_listener = None, hs_server = None, hs_wg = 0\<rparr>),
        hw_next := Suc (hw_next w)\<rparr>)"

section \<open>Methods\<close>

text \<open>\<open>New\<close>, \<open>Register\<close> and \<open>NewClient\<close> on references; \<open>mk\<close> stands for the constructor with its defaults.\<close>

definition server_New ::
  "(('h, 'l, 'x, 'r) HttpTransport \<Rightarrow> ('h, 'l, 'x, 'r) HttpTransport) \<Rightarrow> nat \<Rightarrow>
   ('h, 'l, 'x, 'r, 'n) http_world \<Rightarrow> nat \<times> ('h, 'l, 'x, 'r, 'n) http_world" where
  "server_New mk t w = alloc_transport (mk (hs_transport (hw_heap w t))) w"

definition server_Register ::
  "nat \<Rightarrow> nat \<Rightarrow> ('h, 'l, 'x, 'r, 'n) http_world \<Rightarrow> ('h, 'l, 'x, 'r, 'n) http_world" where
  "server_Register t i = hw_update t (\<lambda>s. s\<lparr>hs_transport := http_Register (hs_transport s), hs_instance := Some i\<rparr>)"

definition server_NewClient ::
  "nat \<Rightarrow> Info \<Rightarrow> ('h, 'l, 'x, 'r, 'n) http_world \<Rightarrow> (HttpClient \<times> goerr option) \<times> ('h, 'l, 'x, 'r, 'n) http_world" where
  "server_NewClient t p w = http_NewClient (hs_transport (hw_heap w t)) p w"

text \<open>\<open>ListenAndServe\<close>.  The listener is stored before the error is looked at, so a failure leaves none.\<close>

definition server_ListenAndServe ::
  "('l, 'x, 'n) net \<Rightarrow> nat \<Rightarrow> string \<Rightarrow> (('h, 'l, 'x, 'r, 'n) http_world, goerr option) act" where
  "server_ListenAndServe net t address w =
     (let opts = ht_opts (hs_transport (hw_heap w t))
      in case nn_Listen net address (hw_net w) of
           (Inl e, n1) \<Rightarrow>
             Done (Some (ErrWrap ''while starting HTTP listener: '' e))
               (hw_update t (\<lambda>s. s\<lparr>hs_listener := None\<rparr>) (w\<lparr>hw_net := n1\<rparr>))
         | (Inr addr, n1) \<Rightarrow>
             let w1 = hw_update t (\<lambda>s. s\<lparr>hs_listener := Some addr, hs_server := Some Serving, hs_wg := Suc (hs_wg s)\<rparr>)
                        (w\<lparr>hw_net := nn_Info net (ho_Logger opts) (''Listening on '' @ address @ '' ....'') n1\<rparr>)
             in case waitForConnect (nn_Dial net (ho_TLSConfig opts) addr) (nn_ctxErr net) (nn_sleep net) addr (hw_net w1) of
                  None \<Rightarrow> Hang
                | Some (err, n2) \<Rightarrow> Done err (w1\<lparr>hw_net := n2\<rparr>))"

text \<open>\<open>Shutdown\<close>: the goroutine of the server that was running ends, and then those that were started are
  waited for.\<close>

definition server_Shutdown ::
  "('l, 'x, 'n) net \<Rightarrow> nat \<Rightarrow> (('h, 'l, 'x, 'r, 'n) http_world, goerr option) act" where
  "server_Shutdown net t w =
     (case hs_server (hw_heap w t) of
        None \<Rightarrow> Crash nil_deref
      | Some srv \<Rightarrow>
          (case nn_Shutdown net (hw_net w) of
             (err, n1) \<Rightarrow>
               let w1 = hw_update t (\<lambda>s. s\<lparr>hs_server := Some Closed,
                           hs_wg := (if srv = Serving then hs_wg s - 1 else hs_wg s)\<rparr>) (w\<lparr>hw_net := n1\<rparr>)
               in case err of
                    Some e \<Rightarrow> Done (Some e) w1
                  | None \<Rightarrow> if hs_wg (hw_heap w1 t) = 0 then Done None w1 else Hang))"

definition server_ListenAddress :: "nat \<Rightarrow> (('h, 'l, 'x, 'r, 'n) http_world, string) act" where
  "server_ListenAddress t w =
     (case hs_listener (hw_heap w t) of None \<Rightarrow> Crash nil_deref | Some a \<Rightarrow> Done a w)"

definition server_transport ::
  "(('h, 'l, 'x, 'r) HttpTransport \<Rightarrow> ('h, 'l, 'x, 'r) HttpTransport) \<Rightarrow> ('l, 'x, 'n) net \<Rightarrow>
   (nat, HttpClient, ('h, 'l, 'x, 'r, 'n) http_world) Transport" where
  "server_transport mk net =
     \<lparr>T_New = server_New mk, T_Register = server_Register, T_NewClient = server_NewClient,
      T_ListenAndServe = server_ListenAndServe net, T_Shutdown = server_Shutdown net,
      T_ListenAddress = server_ListenAddress\<rparr>"

section \<open>The contract\<close>

text \<open>A server that serves has a goroutine, and a transport with a goroutine has a server.\<close>

definition server_ok :: "('h, 'l, 'x, 'r) HttpServer \<Rightarrow> bool" where
  "server_ok s \<longleftrightarrow> (hs_server s = Some Serving \<longrightarrow> 0 < hs_wg s) \<and> (hs_server s = None \<longrightarrow> hs_wg s = 0)"

definition hw_ok :: "('h, 'l, 'x, 'r, 'n) http_world \<Rightarrow> bool" where
  "hw_ok w \<longleftrightarrow> (\<forall>t<hw_next w. server_ok (hw_heap w t))"

definition hw_made :: "('h, 'l, 'x, 'r, 'n) http_world \<Rightarrow> nat set" where
  "hw_made w = {..<hw_next w}"

definition hw_addr :: "('h, 'l, 'x, 'r, 'n) http_world \<Rightarrow> nat \<Rightarrow> string option" where
  "hw_addr w t = hs_listener (hw_heap w t)"

lemmas server_defs = server_transport_def server_New_def alloc_transport_def server_Register_def server_NewClient_def
  http_NewClient_def server_ListenAndServe_def server_Shutdown_def server_ListenAddress_def hw_update_def

interpretation server: transport_api "server_transport mk net" hw_ok hw_made hw_addr for mk net
  by unfold_locales
    (auto simp: server_defs hw_ok_def server_ok_def hw_made_def hw_addr_def Let_def fun_eq_iff less_Suc_eq
      split: sum.splits option.splits if_splits prod.splits)

text \<open>A network on which listening on any address succeeds at once.\<close>

definition net_up :: "('l, 'x, 'n) net \<Rightarrow> bool" where
  "net_up net \<longleftrightarrow>
     (\<forall>a n. \<exists>n'. nn_Listen net a n = (Inr a, n')) \<and> (\<forall>x a n. \<exists>n'. nn_Dial net x a n = (None, n'))"

lemma server_listening:
  fixes mk :: "('h, 'l, 'x, 'r) HttpTransport \<Rightarrow> ('h, 'l, 'x, 'r) HttpTransport" and net :: "('l, 'x, 'n) net"
  assumes "net_up net"
  shows "listening_transport (server_transport mk net) hw_ok hw_made hw_addr (\<lambda>a. a \<noteq> [])"
proof (intro listening_transport.intro server.transport_api_axioms listening_transport_axioms.intro)
  fix w :: "('h, 'l, 'x, 'r, 'n) http_world" and t p
  show "\<exists>c w'. T_NewClient (server_transport mk net) t p w = ((c, None), w')"
    by (simp add: server_transport_def server_NewClient_def http_NewClient_def)
next
  fix w :: "('h, 'l, 'x, 'r, 'n) http_world" and t and a :: string
  assume a: "a \<noteq> []"
  obtain n1 where l: "nn_Listen net a (hw_net w) = (Inr a, n1)" using assms unfolding net_up_def by blast
  let ?opts = "ht_opts (hs_transport (hw_heap w t))"
  let ?n = "nn_Info net (ho_Logger ?opts) (''Listening on '' @ a @ '' ....'') n1"
  obtain n2 where "nn_Dial net (ho_TLSConfig ?opts) a ?n = (None, n2)" using assms unfolding net_up_def by blast
  then have "waitForConnect (nn_Dial net (ho_TLSConfig ?opts) a) (nn_ctxErr net) (nn_sleep net) a ?n = Some (None, n2)"
    using a by (simp add: waitForConnect_def wait_loop.simps)
  with l show "\<exists>w'. T_ListenAndServe (server_transport mk net) t a w = Done None w' \<and> hw_addr w' t = Some a"
    by (simp add: server_transport_def server_ListenAndServe_def hw_update_def hw_addr_def Let_def)
qed

text \<open>\<open>New\<close> on a transport that was made without a tracer makes an equal one; with a tracer the client of the
  new one is wrapped for tracing once more.\<close>

lemma http_New_same:
  assumes "ho_Tracer opts = None"
  shows "http_New dc dl tr (NewHttpTransport dc dl tr opts) = NewHttpTransport dc dl tr opts"
  using assms
  by (cases opts rule: HttpTransportOptions.cases; cases "ho_Client opts"; cases "ho_Logger opts"; cases "ho_TLSConfig opts";
      cases "ho_BasePath opts"; cases "ho_Scheme opts")
    (simp_all add: http_New_def NewHttpTransport_def Let_def DefaultBasePath_def defaultScheme_def)

lemma http_New_wraps_again:
  assumes "ho_Tracer opts \<noteq> None"
  shows "ho_Client (ht_opts (http_New dc dl tr (NewHttpTransport dc dl tr opts))) = Some (tr (Some (tr (ho_Client opts))))"
  using assms
  by (cases opts rule: HttpTransportOptions.cases; cases "ho_Client opts"; cases "ho_Logger opts"; cases "ho_TLSConfig opts";
      cases "ho_BasePath opts"; cases "ho_Scheme opts")
    (simp_all add: http_New_def NewHttpTransport_def Let_def DefaultBasePath_def defaultScheme_def)

section \<open>Shutting down\<close>

text \<open>C19.  \<open>Shutdown\<close> undoes \<open>ListenAndServe\<close>: after a transport without goroutines has started to listen, it
  returns when the server stops in time, leaves no goroutine behind, and the transport can listen again.
  Called before any \<open>ListenAndServe\<close> it crashes; and after two calls of \<open>ListenAndServe\<close> it never returns,
  since it shuts down one server and waits for both.\<close>

theorem http_server_lifecycle:
  assumes "hs_wg (hw_heap w t) = 0" "server_ListenAndServe net t a w = Done None w1"
  shows "(fst (nn_Shutdown net (hw_net w1)) = None \<longrightarrow>
      (\<exists>w2. server_Shutdown net t w1 = Done None w2 \<and> hs_wg (hw_heap w2 t) = 0 \<and> hs_server (hw_heap w2 t) = Some Closed)) \<and>
    (\<forall>b w2. server_ListenAndServe net t b w1 = Done None w2 \<longrightarrow> fst (nn_Shutdown net (hw_net w2)) = None \<longrightarrow>
      server_Shutdown net t w2 = Hang) \<and>
    (hs_server (hw_heap w t) = None \<longrightarrow> server_Shutdown net t w = Crash nil_deref)"
proof -
  have listen: "hs_server (hw_heap v' t) = Some Serving \<and> hs_wg (hw_heap v' t) = Suc (hs_wg (hw_heap v t))"
    if "server_ListenAndServe net t b v = Done None v'" for v v' b
    using that by (auto simp: server_ListenAndServe_def hw_update_def Let_def split: prod.splits sum.splits option.splits)
  have shut: "server_Shutdown net t v =
      (let v' = hw_update t (\<lambda>s. s\<lparr>hs_server := Some Closed, hs_wg := hs_wg s - 1\<rparr>) (v\<lparr>hw_net := snd (nn_Shutdown net (hw_net v))\<rparr>)
       in if hs_wg (hw_heap v t) = 1 then Done None v' else Hang)"
    if "hs_server (hw_heap v t) = Some Serving" "0 < hs_wg (hw_heap v t)" "fst (nn_Shutdown net (hw_net v)) = None" for v
    using that by (cases "nn_Shutdown net (hw_net v)") (auto simp: server_Shutdown_def hw_update_def Let_def)
  show ?thesis
    using listen [OF assms(2)] assms(1)
    by (auto simp: shut dest!: listen) (auto simp: hw_update_def server_Shutdown_def)
qed

definition demo_net :: "(unit, unit, unit) net" where
  "demo_net =
     \<lparr>nn_Listen = (\<lambda>a n. (Inr a, n)), nn_Info = (\<lambda>l m n. n), nn_Dial = (\<lambda>x a n. (None, n)), nn_ctxErr = (\<lambda>n. None),
      nn_sleep = (\<lambda>n. n), nn_Shutdown = (\<lambda>n. (None, n))\<rparr>"

definition demo_http_world :: "(unit, unit, unit, unit, unit) http_world" where
  "demo_http_world = snd (alloc_transport demo_http \<lparr>hw_heap = (\<lambda>_. undefined), hw_next = 0, hw_net = ()\<rparr>)"

lemma demo_net_up: "net_up demo_net"
  by (simp add: net_up_def demo_net_def)

lemma demo_http_world_simps:
  "hs_wg (hw_heap demo_http_world 0) = 0" "hs_server (hw_heap demo_http_world 0) = None" "hw_next demo_http_world = 1"
  by (simp_all add: demo_http_world_def alloc_transport_def)

lemma demo_http_world_ok: "hw_ok demo_http_world"
  by (simp add: hw_ok_def server_ok_def demo_http_world_simps)

theorem http_server_lifecycle_witness:
  "(\<exists>w1 w2. server_ListenAndServe demo_net 0 ''a:1'' demo_http_world = Done None w1 \<and>
      server_Shutdown demo_net 0 w1 = Done None w2 \<and> hs_wg (hw_heap w2 0) = 0) \<and>
   server_Shutdown demo_net 0 demo_http_world = Crash nil_deref"
proof -
  have "0 \<in> hw_made demo_http_world" by (simp add: hw_made_def demo_http_world_simps)
  from listening_transport.Listen_ok [OF server_listening [OF demo_net_up] demo_http_world_ok this, of "''a:1''"]
  obtain w1 where w1: "server_ListenAndServe demo_net 0 ''a:1'' demo_http_world = Done None w1"
    by (auto simp: server_transport_def)
  have up: "fst (nn_Shutdown demo_net n) = None" for n by (simp add: demo_net_def)
  from http_server_lifecycle [OF demo_http_world_simps(1) w1] w1 show ?thesis
    by (auto simp: up demo_http_world_simps)
qed

section \<open>Clusters over HTTP\<close>

lemma server_makes_clients:
  assumes "rt_transport rt = server_transport mk net" "rt_client rt = HttpClient_ops Do wire"
  shows "makes_clients rt"
  using assms
  by (auto simp: makes_clients_def server_transport_def server_NewClient_def http_NewClient_def HttpClient_ops_def
      HttpClient_PeerInfo_def HttpClient_HashKey_def)

text \<open>C17.  A cluster over HTTP: whatever the network does, once \<open>StartWith\<close> has returned without an error and
  the daemons listen on different addresses whose replicas do not collide on the ring, every key has one
  owner; the caller has marked none of the peers as this instance.  \<open>FindOwningDaemon\<close> names it, it
  takes itself for the owner, and every other daemon takes the client of its address for the remote
  owner.\<close>

theorem http_cluster_owner:
  assumes "rt_transport rt = server_transport mk net" "rt_client rt = HttpClient_ops Do wire"
    and "hw_ok w" "io_Transport opts = Some t" "t < hw_next w"
    and "ring_sort (rt_sort rt)" "0 < ring_replicas (ring_options opts)" "\<forall>p\<in>set peers. \<not> IsSelf p"
    and "cluster_StartWith rt slog peers opts (cl, w) = Done None (cl', w')"
    and "cl_peers cl' \<noteq> []" "distinct (map Address (cl_peers cl'))"
    and "no_collision (rt_fnv1 rt) (ring_options opts) (Address ` set (cl_peers cl'))"
  shows "\<exists>k<length (cl_peers cl'). FindOwningDaemon rt key (cl', w') = Done k (cl', w') \<and>
    (\<forall>j<length (cl_peers cl'). \<exists>i c. d_instance (cl_daemons cl' ! j) = Some i \<and>
       instance_PickPeer rt i key = (Some c, j \<noteq> k) \<and>
       Address (Client_PeerInfo (client_ops (rt_client rt)) c) = Address (cl_peers cl' ! k))"
proof -
  have "t \<in> hw_made w" using assms(5) by (simp add: hw_made_def)
  from server.StartWith_owner [OF assms(1) server_makes_clients [OF assms(1,2)] assms(3,4) this assms(9,6-8,10-12)]
  show ?thesis .
qed

definition demo_http_runtime ::
  "(mutexCache, HttpClient, nat, (unit, unit, unit, unit, unit) http_world, unit) runtime" where
  "demo_http_runtime =
     \<lparr>rt_cache = mutex_ops, rt_nilCache = newMutexCache 0, rt_mutexCache = (\<lambda>m. m),
      rt_client = HttpClient_ops (\<lambda>r w. (Inl EOF, w)) demo_wire,
      rt_transport = server_transport (http_New () () (\<lambda>_. ())) demo_net,
      rt_httpTransport = (\<lambda>_. alloc_transport demo_http), rt_fnv1 = (\<lambda>_. 0), rt_sort = sort_ring,
      rt_order = (\<lambda>xs. xs), rt_sched = (\<lambda>n. [0..<n]), rt_proto = demo_proto, rt_now = (\<lambda>w. (zero_time, w)),
      rt_ctxErr = (\<lambda>w. None)\<rparr>"

definition demo_http_opts ::
  "(mutexCache, nat, (unit, unit, unit, unit, unit) http_world) InstanceOptions" where
  "demo_http_opts =
     \<lparr>io_HashFn = Some demo_hash, io_Replicas = 1, io_Logger = None, io_Transport = Some 0,
      io_CacheFactory = None, io_MetricProvider = None\<rparr>"

theorem http_cluster_owner_witness:
  "\<exists>cl' w' k. cluster_StartWith demo_http_runtime (\<lambda>_ _ _ w. w) [demo_peer ''a'', demo_peer ''b''] demo_http_opts
       (\<lparr>cl_daemons = [], cl_peers = [], cl_next = 0\<rparr>, demo_http_world) = Done None (cl', w') \<and>
     FindOwningDaemon demo_http_runtime ''k'' (cl', w') = Done k (cl', w') \<and> k < 2"
proof -
  let ?cl = "\<lparr>cl_daemons = [], cl_peers = [], cl_next = 0\<rparr>" and ?ps = "[demo_peer ''a'', demo_peer ''b'']"
  have rt: "rt_transport demo_http_runtime = server_transport (http_New () () (\<lambda>_. ())) demo_net"
    "rt_client demo_http_runtime = HttpClient_ops (\<lambda>r w. (Inl EOF, w)) demo_wire" "ring_sort (rt_sort demo_http_runtime)"
    by (simp_all add: demo_http_runtime_def sort_ring.ring_sort_axioms)
  have o: "io_Transport demo_http_opts = Some 0" "ring_options demo_http_opts = demo_opts" "0 < hw_next demo_http_world"
    "0 \<in> hw_made demo_http_world"
    by (simp_all add: demo_http_opts_def ring_options_def demo_opts_def demo_http_world_simps hw_made_def)
  have "\<forall>p\<in>set ?ps. Address p \<noteq> []" by simp
  from listening_transport.StartWith_ok [OF server_listening [OF demo_net_up] rt(1) server_makes_clients [OF rt(1,2)]
      demo_http_world_ok o(1,4) _ _ this, of ?cl "\<lambda>_ _ _ w. w"]
  obtain cl' w' where s: "cluster_StartWith demo_http_runtime (\<lambda>_ _ _ w. w) ?ps demo_http_opts (?cl, demo_http_world) =
      Done None (cl', w')" and a: "map Address (cl_peers cl') = [''a'', ''b'']" by auto
  have c: "0 < ring_replicas (ring_options demo_http_opts)" "\<forall>p\<in>set ?ps. \<not> IsSelf p" "cl_peers cl' \<noteq> []"
    "distinct (map Address (cl_peers cl'))" using a by (auto simp: o demo_ring)
  have "Address ` set (cl_peers cl') = {''a'', ''b''}" using a by (metis list.set(1,2) set_map)
  then have "no_collision (rt_fnv1 demo_http_runtime) (ring_options demo_http_opts) (Address ` set (cl_peers cl'))"
    using demo_hashes by (auto simp: no_collision_def o demo_ring)
  from http_cluster_owner [OF rt(1,2) demo_http_world_ok o(1,3) rt(3) c(1,2) s c(3,4) this, of "''k''"]
  obtain k where "k < length (cl_peers cl')" "FindOwningDaemon demo_http_runtime ''k'' (cl', w') = Done k (cl', w')" by blast
  moreover have "length (cl_peers cl') = 2" using arg_cong [OF a, of length] by simp
  ultimately show ?thesis using s by auto
qed

end
