(* ===== verification/Metrics.thy ===== *)
theory Metrics
  imports Instance
begin

text \<open>
  The metrics of src/stats.go and src/group.go.  OpenTelemetry is a table of the methods of a meter over
  a state of its own; a callback is what it reports when it is called, as a function of the memory
  \<open>'h\<close> at that time, since it reads the group through a pointer.  What the code relies on in a meter is
  the predicate \<open>meter_ok\<close>.
\<close>

section \<open>Meters\<close>

type_synonym 'i observation = "'i \<times> int64 \<times> (string \<times> string) list"
type_synonym ('i, 'h) callback = "'h \<Rightarrow> 'i observation list"

record ('i, 'h, 'r) Meter =
  Int64ObservableCounter :: "string \<Rightarrow> string \<Rightarrow> 'r \<Rightarrow> ('i \<times> goerr option) \<times> 'r"
  Int64ObservableUpDownCounter :: "string \<Rightarrow> string \<Rightarrow> 'r \<Rightarrow> ('i \<times> goerr option) \<times> 'r"
  RegisterCallback :: "('i, 'h) callback \<Rightarrow> 'i list \<Rightarrow> 'r \<Rightarrow> goerr option \<times> 'r"

text \<open>The pattern \<open>x, err := m; if err != nil { return nil, err }\<close>.\<close>

definition or_fail ::
  "('r \<Rightarrow> ('a \<times> goerr option) \<times> 'r) \<Rightarrow> ('a \<Rightarrow> 'r \<Rightarrow> (goerr + 'b) \<times> 'r) \<Rightarrow> 'r \<Rightarrow> (goerr + 'b) \<times> 'r" where
  "or_fail m f r =
     (case m r of ((x, Some err), r') \<Rightarrow> (Inl err, r') | ((x, None), r') \<Rightarrow> f x r')"

section \<open>The provider of the meter\<close>

definition instrumentationName :: string where
  "instrumentationName = ''github.com/groupcache/groupcache-go/instrumentation/otel''"

record ('u, 'mt) MeterProvider =
  mp_underlying :: 'u
  mp_meter :: "'mt option"

type_synonym ('u, 'mt) MeterProviderOption = "('u, 'mt) MeterProvider \<Rightarrow> ('u, 'mt) MeterProvider"

definition WithMeterProvider :: "'u option \<Rightarrow> ('u, 'mt) MeterProviderOption" where
  "WithMeterProvider mp = (\<lambda>m. case mp of Some u \<Rightarrow> m\<lparr>mp_underlying := u\<rparr> | None \<Rightarrow> m)"

definition NewMeterProvider ::
  "'u \<Rightarrow> ('u \<Rightarrow> string \<Rightarrow> 'mt) \<Rightarrow> ('u, 'mt) MeterProviderOption list \<Rightarrow> ('u, 'mt) MeterProvider" where
  "NewMeterProvider otelProvider meterOf opts =
     (let mp = foldl (\<lambda>mp opt. opt mp) \<lparr>mp_underlying = otelProvider, mp_meter = None\<rparr> opts
      in mp\<lparr>mp_meter := Some (meterOf (mp_underlying mp) instrumentationName)\<rparr>)"

definition getMeter :: "('u, 'mt) MeterProvider \<Rightarrow> 'mt option" where
  "getMeter mp = mp_meter mp"

text \<open>The meter is that of the last provider given that is not nil, or else of the global one.\<close>

lemma NewMeterProvider_meter:
  fixes meterOf :: "'u \<Rightarrow> string \<Rightarrow> 'mt"
  shows "getMeter (NewMeterProvider u meterOf (map WithMeterProvider us)) =
     Some (meterOf (last (u # map the (filter (\<lambda>x. x \<noteq> None) us))) instrumentationName)"
proof -
  have "mp_underlying (foldl (\<lambda>mp opt. opt mp) \<lparr>mp_underlying = u, mp_meter = None :: 'mt option\<rparr> (map WithMeterProvider us)) =
      last (u # map the (filter (\<lambda>x. x \<noteq> None) us))"
    by (induction us rule: rev_induct) (auto simp: WithMeterProvider_def split: option.splits)
  then show ?thesis by (simp add: getMeter_def NewMeterProvider_def Let_def)
qed

section \<open>Instruments\<close>

record 'i groupInstruments =
  gi_getsCounter :: 'i
  gi_hitsCounter :: 'i
  gi_peerLoadsCounter :: 'i
  gi_peerErrorsCounter :: 'i
  gi_loadsCounter :: 'i
  gi_loadsDedupedCounter :: 'i
  gi_localLoadsCounter :: 'i
  gi_localLoadErrsCounter :: 'i
  gi_getFromPeersLatencyMaxGauge :: 'i
  gi_removeKeysRequestsCounter :: 'i
  gi_removedKeysCounter :: 'i

definition newGroupInstruments ::
  "('i, 'h, 'r) Meter \<Rightarrow> 'r \<Rightarrow> (goerr + 'i groupInstruments) \<times> 'r" where
  "newGroupInstruments meter =
     or_fail (Int64ObservableCounter meter ''groupcache.group.gets'' ''Total get requests for the group'')
       (\<lambda>getsCounter.
     or_fail (Int64ObservableCounter meter ''groupcache.group.cache_hits'' ''Total successful cache hits'')
       (\<lambda>hitsCounter.
     or_fail (Int64ObservableCounter meter ''groupcache.group.peer.loads'' ''Total successful loads from peers'')
       (\<lambda>peerLoadsCounter.
     or_fail (Int64ObservableCounter meter ''groupcache.group.peer.errors'' ''Total failed loads from peers'')
       (\<lambda>peerErrorsCounter.
     or_fail (Int64ObservableCounter meter ''groupcache.group.loads'' ''Total loads after cache miss'')
       (\<lambda>loadsCounter.
     or_fail (Int64ObservableCounter meter ''groupcache.group.loads.deduped''
                ''Total loads de-duplicated by singleflight'')
       (\<lambda>loadsDedupedCounter.
     or_fail (Int64ObservableCounter meter ''groupcache.group.local.loads'' ''Total successful local loads'')
       (\<lambda>localLoadsCounter.
     or_fail (Int64ObservableCounter meter ''groupcache.group.local.load_errors'' ''Total failed local loads'')
       (\<lambda>localLoadErrsCounter.
     or_fail (Int64ObservableUpDownCounter meter ''groupcache.group.peer.latency_max_ms''
                ''Maximum latency (ms) observed when loading from peers'')
       (\<lambda>getFromPeersLatencyMaxGauge.
     or_fail (Int64ObservableCounter meter ''groupcache.group.remove_keys.requests'' ''Total RemoveKeys requests'')
       (\<lambda>removeKeysRequestsCounter.
     or_fail (Int64ObservableCounter meter ''groupcache.group.removed_keys'' ''Total keys removed via RemoveKeys'')
       (\<lambda>removedKeysCounter r.
     (Inr \<lparr>gi_getsCounter = getsCounter, gi_hitsCounter = hitsCounter,
           gi_peerLoadsCounter = peerLoadsCounter, gi_peerErrorsCounter = peerErrorsCounter,
           gi_loadsCounter = loadsCounter, gi_loadsDedupedCounter = loadsDedupedCounter,
           gi_localLoadsCounter = localLoadsCounter, gi_localLoadErrsCounter = localLoadErrsCounter,
           gi_getFromPeersLatencyMaxGauge = getFromPeersLatencyMaxGauge,
           gi_removeKeysRequestsCounter = removeKeysRequestsCounter,
           gi_removedKeysCounter = removedKeysCounter\<rparr>, r))))))))))))"

definition group_GetsCounter :: "'i groupInstruments \<Rightarrow> 'i" where
  "group_GetsCounter gm = gi_getsCounter gm"

definition group_HitsCounter :: "'i groupInstruments \<Rightarrow> 'i" where
  "group_HitsCounter gm = gi_hitsCounter gm"

definition group_PeerLoadsCounter :: "'i groupInstruments \<Rightarrow> 'i" where
  "group_PeerLoadsCounter gm = gi_peerLoadsCounter gm"

definition group_PeerErrorsCounter :: "'i groupInstruments \<Rightarrow> 'i" where
  "group_PeerErrorsCounter gm = gi_peerErrorsCounter gm"

definition group_LoadsCounter :: "'i groupInstruments \<Rightarrow> 'i" where
  "group_LoadsCounter gm = gi_loadsCounter gm"

definition group_LoadsDedupedCounter :: "'i groupInstruments \<Rightarrow> 'i" where
  "group_LoadsDedupedCounter gm = gi_loadsDedupedCounter gm"

definition group_LocalLoadsCounter :: "'i groupInstruments \<Rightarrow> 'i" where
  "group_LocalLoadsCounter gm = gi_localLoadsCounter gm"

definition group_LocalLoadErrsCounter :: "'i groupInstruments \<Rightarrow> 'i" where
  "group_LocalLoadErrsCounter gm = gi_localLoadErrsCounter gm"

definition group_GetFromPeersLatencyMaxGauge :: "'i groupInstruments \<Rightarrow> 'i" where
  "group_GetFromPeersLatencyMaxGauge gm = gi_getFromPeersLatencyMaxGauge gm"

definition group_RemoveKeysRequestsCounter :: "'i groupInstruments \<Rightarrow> 'i" where
  "group_RemoveKeysRequestsCounter gm = gi_removeKeysRequestsCounter gm"

definition group_RemovedKeysCounter :: "'i groupInstruments \<Rightarrow> 'i" where
  "group_RemovedKeysCounter gm = gi_removedKeysCounter gm"

record 'i cacheInstruments =
  ci_rejectedCounter :: 'i
  ci_bytesGauge :: 'i
  ci_itemsGauge :: 'i
  ci_getsCounter :: 'i
  ci_hitsCounter :: 'i
  ci_evictionsCounter :: 'i

definition newCacheInstruments ::
  "('i, 'h, 'r) Meter \<Rightarrow> 'r \<Rightarrow> (goerr + 'i cacheInstruments) \<times> 'r" where
  "newCacheInstruments meter =
     or_fail (Int64ObservableCounter meter ''groupcache.cache.rejected'' ''Total number of items rejected from cache'')
       (\<lambda>rejectedCounter.
     or_fail (Int64ObservableUpDownCounter meter ''groupcache.cache.bytes'' ''Number of bytes in cache'')
       (\<lambda>bytesGauge.
     or_fail (Int64ObservableUpDownCounter meter ''groupcache.cache.items'' ''Number of items in cache'')
       (\<lambda>itemsGauge.
     or_fail (Int64ObservableCounter meter ''groupcache.cache.gets'' ''Total get requests'')
       (\<lambda>getsCounter.
     or_fail (Int64ObservableCounter meter ''groupcache.cache.hits'' ''Total successful cache hits'')
       (\<lambda>hitsCounter.
     or_fail (Int64ObservableCounter meter ''groupcache.cache.evictions'' ''Total number of evictions'')
       (\<lambda>evictionsCounter r.
     (Inr \<lparr>ci_rejectedCounter = rejectedCounter, ci_bytesGauge = bytesGauge, ci_itemsGauge = itemsGauge,
           ci_getsCounter = getsCounter, ci_hitsCounter = hitsCounter,
           ci_evictionsCounter = evictionsCounter\<rparr>, r)))))))"

definition cache_RejectedCounter :: "'i cacheInstruments \<Rightarrow> 'i" where
  "cache_RejectedCounter cm = ci_rejectedCounter cm"

definition cache_BytesGauge :: "'i cacheInstruments \<Rightarrow> 'i" where
  "cache_BytesGauge cm = ci_bytesGauge cm"

definition cache_ItemsGauge :: "'i cacheInstruments \<Rightarrow> 'i" where
  "cache_ItemsGauge cm = ci_itemsGauge cm"

definition cache_GetsCounter :: "'i cacheInstruments \<Rightarrow> 'i" where
  "cache_GetsCounter cm = ci_getsCounter cm"

definition cache_HitsCounter :: "'i cacheInstruments \<Rightarrow> 'i" where
  "cache_HitsCounter cm = ci_hitsCounter cm"

definition cache_EvictionsCounter :: "'i cacheInstruments \<Rightarrow> 'i" where
  "cache_EvictionsCounter cm = ci_evictionsCounter cm"

lemmas instrument_defs =
  group_GetsCounter_def group_HitsCounter_def group_PeerLoadsCounter_def group_PeerErrorsCounter_def group_LoadsCounter_def group_LoadsDedupedCounter_def group_LocalLoadsCounter_def group_LocalLoadErrsCounter_def group_GetFromPeersLatencyMaxGauge_def group_RemoveKeysRequestsCounter_def group_RemovedKeysCounter_def
  cache_RejectedCounter_def cache_BytesGauge_def cache_ItemsGauge_def cache_GetsCounter_def cache_HitsCounter_def cache_EvictionsCounter_def

section \<open>Registration\<close>

text \<open>The callback of a group, and the instruments it is registered for.  The name is read once; the
  counters are read whenever the callback runs.\<close>

definition observe_group ::
  "'i groupInstruments \<Rightarrow> ('h \<Rightarrow> 'm group) \<Rightarrow> (string \<times> string) list \<Rightarrow> ('i, 'h) callback" where
  "observe_group instruments g observeOptions = (\<lambda>h.
     let stats = g_Stats (g h) in
     [(group_GetsCounter instruments, AtomicInt_Get (Gets stats), observeOptions),
      (group_HitsCounter instruments, AtomicInt_Get (CacheHits stats), observeOptions),
      (group_PeerLoadsCounter instruments, AtomicInt_Get (PeerLoads stats), observeOptions),
      (group_PeerErrorsCounter instruments, AtomicInt_Get (PeerErrors stats), observeOptions),
      (group_LoadsCounter instruments, AtomicInt_Get (Loads stats), observeOptions),
      (group_LoadsDedupedCounter instruments, AtomicInt_Get (LoadsDeduped stats), observeOptions),
      (group_LocalLoadsCounter instruments, AtomicInt_Get (LocalLoads stats), observeOptions),
      (group_LocalLoadErrsCounter instruments, AtomicInt_Get (LocalLoadErrs stats), observeOptions),
      (group_GetFromPeersLatencyMaxGauge instruments, AtomicInt_Get (GetFromPeersLatencyLower stats), observeOptions),
      (group_RemoveKeysRequestsCounter instruments, AtomicInt_Get (RemoveKeysRequests stats), observeOptions),
      (group_RemovedKeysCounter instruments, AtomicInt_Get (RemovedKeys stats), observeOptions)])"

definition group_instruments :: "'i groupInstruments \<Rightarrow> 'i list" where
  "group_instruments instruments =
     [group_GetsCounter instruments,
      group_HitsCounter instruments,
      group_PeerLoadsCounter instruments,
      group_PeerErrorsCounter instruments,
      group_LoadsCounter instruments,
      group_LoadsDedupedCounter instruments,
      group_LocalLoadsCounter instruments,
      group_LocalLoadErrsCounter instruments,
      group_GetFromPeersLatencyMaxGauge instruments,
      group_RemoveKeysRequestsCounter instruments,
      group_RemovedKeysCounter instruments]"

text \<open>The same for a cache, which may be a nil interface.\<close>

definition observe_cache ::
  "'m Cache \<Rightarrow> ('m \<Rightarrow> bool) \<Rightarrow> 'i cacheInstruments \<Rightarrow> ('h \<Rightarrow> 'm) \<Rightarrow> (string \<times> string) list \<Rightarrow> ('i, 'h) callback" where
  "observe_cache ops isNil cacheInstr nc_cache observeOptions = (\<lambda>h.
     let c = nc_cache h in
     if isNil c then []
     else let stats = Cache_Stats ops c in
       [(cache_RejectedCounter cacheInstr, cs_Rejected stats, observeOptions),
        (cache_BytesGauge cacheInstr, cs_Bytes stats, observeOptions),
        (cache_ItemsGauge cacheInstr, cs_Items stats, observeOptions),
        (cache_GetsCounter cacheInstr, cs_Gets stats, observeOptions),
        (cache_HitsCounter cacheInstr, cs_Hits stats, observeOptions),
        (cache_EvictionsCounter cacheInstr, cs_Evictions stats, observeOptions)])"

definition cache_instruments :: "'i cacheInstruments \<Rightarrow> 'i list" where
  "cache_instruments cacheInstr =
     [cache_RejectedCounter cacheInstr,
      cache_BytesGauge cacheInstr,
      cache_ItemsGauge cacheInstr,
      cache_GetsCounter cacheInstr,
      cache_HitsCounter cacheInstr,
      cache_EvictionsCounter cacheInstr]"

fun register_caches ::
  "'m Cache \<Rightarrow> ('m \<Rightarrow> bool) \<Rightarrow> ('i, 'h, 'r) Meter \<Rightarrow> 'i cacheInstruments \<Rightarrow> string \<Rightarrow>
   (string \<times> ('h \<Rightarrow> 'm)) list \<Rightarrow> 'r \<Rightarrow> goerr option \<times> 'r" where
  "register_caches ops isNil meter cacheInstr name [] r = (None, r)"
| "register_caches ops isNil meter cacheInstr name ((nc_name, nc_cache) # caches) r =
     (case RegisterCallback meter
             (observe_cache ops isNil cacheInstr nc_cache [(''group.name'', name), (''cache.type'', nc_name)])
             (cache_instruments cacheInstr) r of
        (Some err, r') \<Rightarrow> (Some err, r')
      | (None, r') \<Rightarrow> register_caches ops isNil meter cacheInstr name caches r')"

definition registerCacheInstruments ::
  "'m Cache \<Rightarrow> ('m \<Rightarrow> bool) \<Rightarrow> ('i, 'h, 'r) Meter \<Rightarrow> ('h \<Rightarrow> 'm group) \<Rightarrow> 'h \<Rightarrow> 'r \<Rightarrow> goerr option \<times> 'r" where
  "registerCacheInstruments ops isNil meter g h r =
     (case newCacheInstruments meter r of
        (Inl err, r') \<Rightarrow> (Some err, r')
      | (Inr cacheInstr, r') \<Rightarrow>
          register_caches ops isNil meter cacheInstr (group_Name (g h))
            [(''main'', \<lambda>h. g_mainCache (g h)), (''hot'', \<lambda>h. g_hotCache (g h))] r')"

definition registerInstruments ::
  "'m Cache \<Rightarrow> ('m \<Rightarrow> bool) \<Rightarrow> ('i, 'h, 'r) Meter \<Rightarrow> ('h \<Rightarrow> 'm group) \<Rightarrow> 'h \<Rightarrow> 'r \<Rightarrow> goerr option \<times> 'r" where
  "registerInstruments ops isNil meter g h r =
     (case newGroupInstruments meter r of
        (Inl err, r1) \<Rightarrow> (Some err, r1)
      | (Inr instruments, r1) \<Rightarrow>
          case RegisterCallback meter (observe_group instruments g [(''group.name'', group_Name (g h))])
                 (group_instruments instruments) r1 of
            (Some err, r2) \<Rightarrow> (Some err, r2)
          | (None, r2) \<Rightarrow> registerCacheInstruments ops isNil meter g h r2)"

section \<open>What is reported\<close>

text \<open>What the code relies on: an instrument has the name it was made with, making one registers no
  callback, and a callback is registered or an error reported.  \<open>collect\<close> is a collection of metrics:
  every callback runs, and what it reports on instruments it was not registered for is dropped.\<close>

definition meter_ok ::
  "('i, 'h, 'r) Meter \<Rightarrow> ('i \<Rightarrow> string) \<Rightarrow> ('r \<Rightarrow> (('i, 'h) callback \<times> 'i list) list) \<Rightarrow> bool" where
  "meter_ok meter name_of callbacks \<longleftrightarrow>
     (\<forall>n d r i e r'. Int64ObservableCounter meter n d r = ((i, e), r') \<longrightarrow>
        callbacks r' = callbacks r \<and> (e = None \<longrightarrow> name_of i = n)) \<and>
     (\<forall>n d r i e r'. Int64ObservableUpDownCounter meter n d r = ((i, e), r') \<longrightarrow>
        callbacks r' = callbacks r \<and> (e = None \<longrightarrow> name_of i = n)) \<and>
     (\<forall>f is r e r'. RegisterCallback meter f is r = (e, r') \<longrightarrow>
        callbacks r' = (if e = None then callbacks r @ [(f, is)] else callbacks r))"

definition collect ::
  "('i \<Rightarrow> string) \<Rightarrow> (('i, 'h) callback \<times> 'i list) list \<Rightarrow> 'h \<Rightarrow> (string \<times> int64 \<times> (string \<times> string) list) list" where
  "collect name_of cbs h =
     concat (map (\<lambda>(f, is). map (apfst name_of) (filter (\<lambda>x. fst x \<in> set is) (f h))) cbs)"

lemma collect_append [simp]: "collect nm (xs @ ys) h = collect nm xs h @ collect nm ys h"
  by (simp add: collect_def)

text \<open>The reports one expects of a group and of a cache.\<close>

definition group_report :: "string \<Rightarrow> GroupStats \<Rightarrow> (string \<times> int64 \<times> (string \<times> string) list) list" where
  "group_report name s = map (\<lambda>(n, v). (n, v, [(''group.name'', name)]))
     [(''groupcache.group.gets'', Gets s), (''groupcache.group.cache_hits'', CacheHits s),
      (''groupcache.group.peer.loads'', PeerLoads s), (''groupcache.group.peer.errors'', PeerErrors s),
      (''groupcache.group.loads'', Loads s), (''groupcache.group.loads.deduped'', LoadsDeduped s),
      (''groupcache.group.local.loads'', LocalLoads s), (''groupcache.group.local.load_errors'', LocalLoadErrs s),
      (''groupcache.group.peer.latency_max_ms'', GetFromPeersLatencyLower s),
      (''groupcache.group.remove_keys.requests'', RemoveKeysRequests s),
      (''groupcache.group.removed_keys'', RemovedKeys s)]"

definition cache_report ::
  "string \<Rightarrow> string \<Rightarrow> CacheStats \<Rightarrow> (string \<times> int64 \<times> (string \<times> string) list) list" where
  "cache_report name which s = map (\<lambda>(n, v). (n, v, [(''group.name'', name), (''cache.type'', which)]))
     [(''groupcache.cache.rejected'', cs_Rejected s), (''groupcache.cache.bytes'', cs_Bytes s),
      (''groupcache.cache.items'', cs_Items s), (''groupcache.cache.gets'', cs_Gets s),
      (''groupcache.cache.hits'', cs_Hits s), (''groupcache.cache.evictions'', cs_Evictions s)]"

definition cache_part ::
  "'m Cache \<Rightarrow> ('m \<Rightarrow> bool) \<Rightarrow> string \<Rightarrow> string \<Rightarrow> 'm \<Rightarrow> (string \<times> int64 \<times> (string \<times> string) list) list" where
  "cache_part ops isNil name which c = (if isNil c then [] else cache_report name which (Cache_Stats ops c))"

text \<open>The calls that make instruments, one at a time.\<close>

lemma make_instrument:
  assumes "meter_ok meter name_of callbacks"
    and "m = Int64ObservableCounter meter n d \<or> m = Int64ObservableUpDownCounter meter n d"
    and "or_fail m f r = (x, r')"
  obtains e where "x = Inl e" "callbacks r' = callbacks r"
  | i r1 where "name_of i = n" "callbacks r1 = callbacks r" "f i r1 = (x, r')"
proof -
  obtain i e r1 where m: "m r = ((i, e), r1)" by (metis prod.exhaust)
  then have "callbacks r1 = callbacks r \<and> (e = None \<longrightarrow> name_of i = n)"
    using assms(1,2) unfolding meter_ok_def by blast
  then show thesis using assms(3) m that by (cases e) (auto simp: or_fail_def)
qed

lemmas make_counter = make_instrument [OF _ disjI1 [OF refl]]
lemmas make_gauge = make_instrument [OF _ disjI2 [OF refl]]

lemma newGroupInstruments_spec:
  assumes "meter_ok meter name_of callbacks" "newGroupInstruments meter r = (x, r')"
  shows "callbacks r' = callbacks r \<and>
    (\<forall>ins. x = Inr ins \<longrightarrow> map name_of (group_instruments ins) = map fst (group_report name s))"
  using assms(2) unfolding newGroupInstruments_def
  by (elim make_counter [OF assms(1)] make_gauge [OF assms(1)])
    (auto simp: group_instruments_def group_report_def instrument_defs)

lemma newCacheInstruments_spec:
  assumes "meter_ok meter name_of callbacks" "newCacheInstruments meter r = (x, r')"
  shows "callbacks r' = callbacks r \<and>
    (\<forall>ins. x = Inr ins \<longrightarrow> map name_of (cache_instruments ins) = map fst (cache_report name which s))"
  using assms(2) unfolding newCacheInstruments_def
  by (elim make_counter [OF assms(1)] make_gauge [OF assms(1)])
    (auto simp: cache_instruments_def cache_report_def instrument_defs)

lemma collect_group:
  assumes "map name_of (group_instruments ins) = map fst (group_report name (g_Stats (g h)))"
  shows "collect name_of [(observe_group ins g [(''group.name'', name)], group_instruments ins)] h =
    group_report name (g_Stats (g h))"
  using assms
  by (simp add: collect_def observe_group_def group_instruments_def group_report_def Let_def)

lemma collect_cache:
  assumes "map name_of (cache_instruments ins) = map fst (cache_report name which (Cache_Stats ops (c h)))"
  shows "collect name_of [(observe_cache ops isNil ins c [(''group.name'', name), (''cache.type'', which)],
      cache_instruments ins)] h =
    cache_part ops isNil name which (c h)"
  using assms
  by (simp add: cache_part_def collect_def observe_cache_def cache_instruments_def cache_report_def Let_def)

lemma register_caches_spec:
  assumes "meter_ok meter name_of callbacks" "register_caches ops isNil meter ins name caches r = (err, r')"
    and "\<And>which s. map name_of (cache_instruments ins) = map fst (cache_report name which s)"
  shows "\<exists>k\<le>length caches. (err = None \<longleftrightarrow> k = length caches) \<and>
    (\<forall>h. collect name_of (callbacks r') h = collect name_of (callbacks r) h @
       concat (take k (map (\<lambda>(which, c). cache_part ops isNil name which (c h))
         caches)))"
  using assms(2)
proof (induction caches arbitrary: r)
  case Nil
  then show ?case by simp
next
  case (Cons x caches)
  obtain which c where x: "x = (which, c)" by fastforce
  let ?f = "observe_cache ops isNil ins c [(''group.name'', name), (''cache.type'', which)]"
  obtain e r1 where reg: "RegisterCallback meter ?f (cache_instruments ins) r = (e, r1)" by fastforce
  then have cbs: "callbacks r1 = (if e = None then callbacks r @ [(?f, cache_instruments ins)] else callbacks r)"
    using assms(1) unfolding meter_ok_def by blast
  show ?case
  proof (cases e)
    case (Some e')
    with Cons.prems x reg cbs show ?thesis by (intro exI [of _ 0]) auto
  next
    case None
    with Cons.prems x reg have "register_caches ops isNil meter ins name caches r1 = (err, r')" by simp
    from Cons.IH [OF this] obtain k where "k \<le> length caches" "err = None \<longleftrightarrow> k = length caches"
      "\<forall>h. collect name_of (callbacks r') h = collect name_of (callbacks r1) h @
         concat (take k (map (\<lambda>(which, c). cache_part ops isNil name which (c h))
           caches))" by blast
    with None cbs x show ?thesis
      by (intro exI [of _ "Suc k"]) (simp add: collect_cache [OF assms(3)])
  qed
qed

lemma registerCacheInstruments_spec:
  assumes "meter_ok meter name_of callbacks" "registerCacheInstruments ops isNil meter g h0 r = (err, r')"
  shows "\<exists>k\<le>2. (err = None \<longleftrightarrow> k = 2) \<and>
    (\<forall>h. collect name_of (callbacks r') h = collect name_of (callbacks r) h @
       concat (take k [cache_part ops isNil (g_name (g h0)) ''main'' (g_mainCache (g h)),
                       cache_part ops isNil (g_name (g h0)) ''hot'' (g_hotCache (g h))]))"
proof -
  obtain y r3 where new: "newCacheInstruments meter r = (y, r3)" by fastforce
  note quiet = newCacheInstruments_spec [OF assms(1) new]
  show ?thesis
  proof (cases y)
    case (Inl e)
    then show ?thesis using assms(2) new quiet
      by (intro exI [of _ 0]) (auto simp: registerCacheInstruments_def)
  next
    case (Inr ins)
    then have "register_caches ops isNil meter ins (g_name (g h0))
        [(''main'', \<lambda>h. g_mainCache (g h)), (''hot'', \<lambda>h. g_hotCache (g h))] r3 = (err, r')"
      using assms(2) new by (simp add: registerCacheInstruments_def group_Name_def)
    from register_caches_spec [OF assms(1) this] quiet Inr show ?thesis by (simp add: numeral_2_eq_2)
  qed
qed

text \<open>C15.  Metrics tell the truth.  After a successful registration every collection reports, under the
  name of each metric and with the name of the group, the value its counter has at that time, and the
  statistics the two caches have at that time; beside these, only what was reported before.  A
  registration that fails leaves the part of these reports in place that was registered before the
  failure.\<close>

theorem metrics_show_counters:
  assumes "meter_ok meter name_of callbacks"
    and "registerInstruments ops isNil meter g h0 r = (err, r')"
  shows "\<exists>k\<le>3. (err = None \<longleftrightarrow> k = 3) \<and>
    (\<forall>h. collect name_of (callbacks r') h = collect name_of (callbacks r) h @
       concat (take k [group_report (g_name (g h0)) (g_Stats (g h)),
                       cache_part ops isNil (g_name (g h0)) ''main'' (g_mainCache (g h)),
                       cache_part ops isNil (g_name (g h0)) ''hot'' (g_hotCache (g h))]))"
proof -
  let ?n = "g_name (g h0)"
  have stop: ?thesis if "err = Some e" "callbacks r' = callbacks r" for e
    using that by (intro exI [of _ 0]) simp
  obtain x r1 where new: "newGroupInstruments meter r = (x, r1)" by fastforce
  note quiet = newGroupInstruments_spec [OF assms(1) new]
  show ?thesis
  proof (cases x)
    case (Inl e)
    show ?thesis by (rule stop [of e]) (use Inl assms(2) new quiet in \<open>auto simp: registerInstruments_def\<close>)
  next
    case (Inr ins)
    let ?f = "observe_group ins g [(''group.name'', ?n)]"
    obtain e r2 where reg: "RegisterCallback meter ?f (group_instruments ins) r1 = (e, r2)" by fastforce
    then have cbs: "callbacks r2 = (if e = None then callbacks r @ [(?f, group_instruments ins)] else callbacks r)"
      using assms(1) quiet unfolding meter_ok_def by metis
    have run: "(case e of Some err \<Rightarrow> (Some err, r2)
        | None \<Rightarrow> registerCacheInstruments ops isNil meter g h0 r2) = (err, r')"
      using assms(2) new Inr reg by (simp add: registerInstruments_def group_Name_def)
    have grp: "collect name_of [(?f, group_instruments ins)] h = group_report ?n (g_Stats (g h))" for h
      using quiet Inr by (intro collect_group) blast
    show ?thesis
    proof (cases e)
      case (Some e')
      show ?thesis by (rule stop [of e']) (use Some run cbs in auto)
    next
      case None
      with run have "registerCacheInstruments ops isNil meter g h0 r2 = (err, r')" by simp
      from registerCacheInstruments_spec [OF assms(1) this] None cbs grp obtain k where
        "k \<le> 2" "err = None \<longleftrightarrow> k = 2"
        "\<forall>h. collect name_of (callbacks r') h = collect name_of (callbacks r) h @ group_report ?n (g_Stats (g h)) @
           concat (take k [cache_part ops isNil ?n ''main'' (g_mainCache (g h)),
                           cache_part ops isNil ?n ''hot'' (g_hotCache (g h))])" by auto
      then show ?thesis by (intro exI [of _ "Suc k"]) auto
    qed
  qed
qed

text \<open>A meter for examples: an instrument is its name, and every call succeeds.\<close>

definition demo_meter :: "(string, 'h, ((string, 'h) callback \<times> string list) list) Meter" where
  "demo_meter = \<lparr>Int64ObservableCounter = (\<lambda>n d r. ((n, None), r)),
     Int64ObservableUpDownCounter = (\<lambda>n d r. ((n, None), r)),
     RegisterCallback = (\<lambda>f is r. (None, r @ [(f, is)]))\<rparr>"

theorem metrics_show_counters_witness:
  "\<exists>r'. registerInstruments mutex_ops (\<lambda>_. False) demo_meter (\<lambda>h. h) demo_group [] = (None, r') \<and>
     (''groupcache.group.peer.loads'', 7, [(''group.name'', ''g'')])
       \<in> set (collect (\<lambda>n. n) r' (demo_group\<lparr>g_Stats := zero_stats\<lparr>PeerLoads := 7\<rparr>\<rparr>))"
proof -
  have ok: "meter_ok demo_meter (\<lambda>n. n) (\<lambda>r. r)" by (simp add: meter_ok_def demo_meter_def)
  obtain err r' where r: "registerInstruments mutex_ops (\<lambda>_. False) demo_meter (\<lambda>h. h) demo_group [] = (err, r')"
    by fastforce
  then have err: "err = None"
    by (auto simp: registerInstruments_def registerCacheInstruments_def newGroupInstruments_def
        newCacheInstruments_def or_fail_def demo_meter_def)
  have "g_name demo_group = ''g''" by (simp add: demo_group_def)
  then show ?thesis
    using metrics_show_counters [OF ok r] r err by (auto simp: group_report_def)
qed

end
