(* ===== verification/MockTransport.thy ===== *)
theory MockTransport
  imports Cluster HttpTransport "HOL-Library.List_Lexorder" "HOL-Library.Char_ord"
begin

text \<open>
  The transport for tests, src/transport/mock_transport.go.  Transports are references into a memory of
  them, since a transport and its parent share what the children register; the world may hold more than
  this memory.  What a registered instance answers is a parameter, the interface \<open>GroupCacheInstance\<close>.
  The transport keeps the contract of transports without ever failing, so that clusters are proved to
  work over it.
\<close>

section \<open>Counters\<close>

text \<open>\<open>peerStats\<close>: a map, as an association list.\<close>

type_synonym peerStats = "(string \<times> int) list"

definition peerStats_Add :: "string \<Rightarrow> int \<Rightarrow> peerStats \<Rightarrow> peerStats" where
  "peerStats_Add key cnt s =
     map_set key ((case map_of s key of None \<Rightarrow> 0 | Some n \<Rightarrow> n) + cnt) s"

text \<open>\<open>strings.TrimSpace\<close> on texts in ASCII, and \<open>%d\<close>.\<close>

definition is_space :: "char \<Rightarrow> bool" where
  "is_space c \<longleftrightarrow> c \<in> {CHR 0x09, CHR 0x0A, CHR 0x0B, CHR 0x0C, CHR 0x0D, CHR 0x20}"

definition TrimSpace :: "string \<Rightarrow> string" where
  "TrimSpace s = rev (dropWhile is_space (rev (dropWhile is_space s)))"

definition fmt_int :: "int \<Rightarrow> string" where
  "fmt_int n = (if n < 0 then CHR ''-'' # itoa (nat (- n)) else itoa (nat n))"

definition peerStats_Report :: "peerStats \<Rightarrow> string" where
  "peerStats_Report s =
     TrimSpace (concat (map (\<lambda>k. k @ '' = '' @ fmt_int (the (map_of s k)) @ '' '') (sort (map fst s))))"

section \<open>The transport\<close>

record MockTransport =
  mt_instances :: "string \<Rightarrow> nat option option"
  mt_transports :: "string \<Rightarrow> nat option"
  mt_calls :: "string \<Rightarrow> peerStats option"
  mt_register :: "nat option"
  mt_parent :: nat
  mt_address :: string

record mock_world =
  mw_heap :: "nat \<Rightarrow> MockTransport"
  mw_next :: nat

type_synonym 'v mworld = "'v mock_world_scheme"

definition mock_update :: "nat \<Rightarrow> (MockTransport \<Rightarrow> MockTransport) \<Rightarrow> 'v mworld \<Rightarrow> 'v mworld" where
  "mock_update t f w = w\<lparr>mw_heap := (mw_heap w)(t := f (mw_heap w t))\<rparr>"

definition NewMockTransport :: "'v mworld \<Rightarrow> nat \<times> 'v mworld" where
  "NewMockTransport w =
     (let m = mw_next w
      in (m, w\<lparr>mw_heap := (mw_heap w)(m :=
               \<lparr>mt_instances = (\<lambda>_. None), mt_transports = (\<lambda>_. None), mt_calls = (\<lambda>_. None),
                mt_register = None, mt_parent = m, mt_address = []\<rparr>), mw_next := Suc m\<rparr>))"

definition mock_Register :: "nat \<Rightarrow> nat \<Rightarrow> 'v mworld \<Rightarrow> 'v mworld" where
  "mock_Register t i = mock_update t (\<lambda>m. m\<lparr>mt_register := Some i\<rparr>)"

definition mock_New :: "nat \<Rightarrow> 'v mworld \<Rightarrow> nat \<times> 'v mworld" where
  "mock_New t w =
     (case NewMockTransport w of (m, w') \<Rightarrow> (m, mock_update m (\<lambda>x. x\<lparr>mt_parent := t\<rparr>) w'))"

definition mock_ListenAddress :: "nat \<Rightarrow> ('v mworld, string) act" where
  "mock_ListenAddress t = reads (\<lambda>w. mt_address (mw_heap w t))"

definition mock_ListenAndServe :: "nat \<Rightarrow> string \<Rightarrow> ('v mworld, goerr option) act" where
  "mock_ListenAndServe t address =
     bnd (reads (\<lambda>w. mw_heap w t)) (\<lambda>m.
     bnd (modifies (mock_update (mt_parent m)
            (\<lambda>p. p\<lparr>mt_instances := (mt_instances p)(address := Some (mt_register m))\<rparr>))) (\<lambda>_.
     bnd (modifies (mock_update (mt_parent m)
            (\<lambda>p. p\<lparr>mt_transports := (mt_transports p)(address := Some t)\<rparr>))) (\<lambda>_.
     bnd (modifies (mock_update t (\<lambda>m. m\<lparr>mt_address := address\<rparr>))) (\<lambda>_. ret None))))"

definition mock_Shutdown :: "nat \<Rightarrow> ('v mworld, goerr option) act" where
  "mock_Shutdown t =
     bnd (reads (\<lambda>w. mw_heap w t)) (\<lambda>m.
     bnd (modifies (mock_update (mt_parent m)
            (\<lambda>p. p\<lparr>mt_instances := (mt_instances p)(mt_address m := None)\<rparr>))) (\<lambda>_.
     bnd (modifies (mock_update (mt_parent m)
            (\<lambda>p. p\<lparr>mt_transports := (mt_transports p)(mt_address m := None)\<rparr>))) (\<lambda>_. ret None)))"

definition mock_Reset :: "nat \<Rightarrow> 'v mworld \<Rightarrow> 'v mworld" where
  "mock_Reset t = mock_update t (\<lambda>m. m\<lparr>mt_calls := (\<lambda>_. None)\<rparr>)"

definition mock_Report :: "nat \<Rightarrow> string \<Rightarrow> 'v mworld \<Rightarrow> string" where
  "mock_Report t method w =
     (case mt_calls (mw_heap w t) method of None \<Rightarrow> [] | Some stats \<Rightarrow> peerStats_Report stats)"

section \<open>The client\<close>

record MockClient =
  mcl_transport :: nat
  mcl_peer :: Info

definition mock_NewClient :: "nat \<Rightarrow> Info \<Rightarrow> 'v mworld \<Rightarrow> (MockClient \<times> goerr option) \<times> 'v mworld" where
  "mock_NewClient t p w = ((\<lparr>mcl_transport = t, mcl_peer = p\<rparr>, None), w)"

definition mock_transport :: "(nat, MockClient, 'v mworld) Transport" where
  "mock_transport =
     \<lparr>T_New = mock_New, T_Register = mock_Register, T_NewClient = mock_NewClient,
      T_ListenAndServe = mock_ListenAndServe, T_Shutdown = mock_Shutdown, T_ListenAddress = mock_ListenAddress\<rparr>"

definition addCall :: "string \<Rightarrow> int \<Rightarrow> MockClient \<Rightarrow> 'v mworld \<Rightarrow> 'v mworld" where
  "addCall method cnt c w =
     mock_update (mt_parent (mw_heap w (mcl_transport c)))
       (\<lambda>p. let m = (case mt_calls p method of None \<Rightarrow> [] | Some m \<Rightarrow> m)
             in p\<lparr>mt_calls := (mt_calls p)(method := Some (peerStats_Add (Address (mcl_peer c)) cnt m))\<rparr>) w"

text \<open>\<open>Get\<close>: \<open>get\<close> is the method \<open>Get\<close> of a group of an instance.  A nil instance crashes.\<close>

definition MockClient_Get ::
  "(nat \<Rightarrow> string \<Rightarrow> string \<Rightarrow> 'p sink \<Rightarrow> ('v mworld, goerr option \<times> 'p sink) act) \<Rightarrow> MockClient \<Rightarrow>
   GetRequest option \<Rightarrow> GetResponse \<Rightarrow> ('v mworld, goerr option \<times> GetResponse) act" where
  "MockClient_Get get c req out =
     bnd (reads (\<lambda>w. mt_instances (mw_heap w (mt_parent (mw_heap w (mcl_transport c)))) (Address (mcl_peer c)))) (\<lambda>found.
     case found of
       None \<Rightarrow> ret (Some (ErrString (''dial tcp '' @ Address (mcl_peer c) @ '' connect: connection refused'' @ [CHR 0x27])), out)
     | Some inst \<Rightarrow>
         bnd (modifies (addCall ''Get'' 1 c)) (\<lambda>_.
         case inst of
           None \<Rightarrow> crash nil_deref
         | Some i \<Rightarrow>
             bnd (get i (GetRequest_GetGroup req) (GetRequest_GetKey req) (AllocatingByteSliceSink (Some None)))
               (\<lambda>(err, value).
                  case err of
                    Some e \<Rightarrow> ret (Some e, out)
                  | None \<Rightarrow> ret (None, out\<lparr>gp_Value := alloc_dst value\<rparr>))))"

definition MockClient_Remove :: "MockClient \<Rightarrow> GetRequest \<Rightarrow> 'v mworld \<Rightarrow> goerr option \<times> 'v mworld" where
  "MockClient_Remove c req w = (None, addCall ''Remove'' 1 c w)"

definition MockClient_Set :: "MockClient \<Rightarrow> SetRequest \<Rightarrow> 'v mworld \<Rightarrow> goerr option \<times> 'v mworld" where
  "MockClient_Set c req w = (None, addCall ''Set'' 1 c w)"

definition MockClient_RemoveKeys :: "MockClient \<Rightarrow> RemoveKeysRequest \<Rightarrow> 'v mworld \<Rightarrow> goerr option \<times> 'v mworld" where
  "MockClient_RemoveKeys c req w = (None, addCall ''RemoveKeys'' (int (length (rk_Keys req))) c w)"

definition MockClient_PeerInfo :: "MockClient \<Rightarrow> 'v mworld \<Rightarrow> Info \<times> 'v mworld" where
  "MockClient_PeerInfo c w = (mcl_peer c, addCall ''PeerInfo'' 1 c w)"

definition MockClient_HashKey :: "MockClient \<Rightarrow> 'v mworld \<Rightarrow> string \<times> 'v mworld" where
  "MockClient_HashKey c w = (Address (mcl_peer c), addCall ''HashKey'' 1 c w)"

text \<open>The table of the client.  In this table a crash of the instance that is asked is an error, and
  \<open>PeerInfo\<close> and \<open>HashKey\<close> are not counted.\<close>

definition MockClient_ops ::
  "(nat \<Rightarrow> string \<Rightarrow> string \<Rightarrow> 'p sink \<Rightarrow> ('v mworld, goerr option \<times> 'p sink) act) \<Rightarrow> (MockClient, 'v mworld) Client" where
  "MockClient_ops get =
     \<lparr>Client_Get = (\<lambda>c req out w. case MockClient_Get get c (Some req) out w of
                      Done (err, out') w' \<Rightarrow> (err, out', w') | _ \<Rightarrow> (Some (ErrString ''crash''), out, w)),
      Client_Remove = MockClient_Remove, Client_Set = MockClient_Set, Client_RemoveKeys = MockClient_RemoveKeys,
      Client_PeerInfo = (\<lambda>c. mcl_peer c), Client_HashKey = (\<lambda>c. Address (mcl_peer c))\<rparr>"

section \<open>The contract\<close>

text \<open>Every transport has a parent that exists.\<close>

definition mock_ok :: "'v mworld \<Rightarrow> bool" where
  "mock_ok w \<longleftrightarrow> (\<forall>t<mw_next w. mt_parent (mw_heap w t) < mw_next w)"

definition mock_made :: "'v mworld \<Rightarrow> nat set" where
  "mock_made w = {..<mw_next w}"

definition mock_addr :: "'v mworld \<Rightarrow> nat \<Rightarrow> string option" where
  "mock_addr w t = Some (mt_address (mw_heap w t))"

lemmas mock_defs = mock_New_def NewMockTransport_def mock_Register_def mock_NewClient_def mock_ListenAndServe_def
  mock_Shutdown_def mock_ListenAddress_def mock_update_def

interpretation mock: reliable_transport mock_transport mock_ok mock_made mock_addr "\<lambda>_. True"
  by unfold_locales
    (auto simp: mock_transport_def mock_defs mock_ok_def mock_made_def mock_addr_def exec reads_def Let_def fun_eq_iff less_Suc_eq
      split: if_splits)

section \<open>Calls\<close>

text \<open>The counters: a call adds to the count of its method and its peer, at the parent, and to no other.\<close>

definition mock_count :: "nat \<Rightarrow> string \<Rightarrow> string \<Rightarrow> 'v mworld \<Rightarrow> int" where
  "mock_count t method a w =
     (case mt_calls (mw_heap w t) method of
        None \<Rightarrow> 0
      | Some s \<Rightarrow> case map_of s a of None \<Rightarrow> 0 | Some n \<Rightarrow> n)"

lemma map_of_map_set: "map_of (map_set k v xs) j = (if j = k then Some v else map_of xs j)"
  by (induction xs) (auto simp: map_set_def)

lemma addCall_count:
  "mock_count t m a (addCall method cnt c w) = mock_count t m a w +
     (if t = mt_parent (mw_heap w (mcl_transport c)) \<and> m = method \<and> a = Address (mcl_peer c) then cnt else 0)"
  by (auto simp: mock_count_def addCall_def mock_update_def peerStats_Add_def map_of_map_set Let_def split: option.splits)

text \<open>The report does not depend on the order of the map.\<close>

lemma peerStats_Report_order:
  assumes "distinct (map fst s)" "mset s = mset s'"
  shows "peerStats_Report s = peerStats_Report s'"
proof -
  have keys: "mset (map fst s) = mset (map fst s')" using assms(2) by simp
  then have "sort (map fst s) = sort (map fst s')" by (metis sorted_list_of_multiset_mset)
  moreover have d: "distinct (map fst s')" using assms(1) keys by (metis mset_eq_imp_distinct_iff)
  have "map_of s = map_of s'"
    using map_of_inject_set [OF assms(1) d] mset_eq_setD [OF assms(2)] by blast
  ultimately show ?thesis by (simp add: peerStats_Report_def)
qed

text \<open>\<open>Get\<close> hands on the value of the instance at the address, and never its expiry.\<close>

lemma MockClient_Get_value:
  assumes "mt_instances (mw_heap w (mt_parent (mw_heap w (mcl_transport c)))) (Address (mcl_peer c)) = Some (Some i)"
    and "get i (GetRequest_GetGroup req) (GetRequest_GetKey req) (AllocatingByteSliceSink (Some None))
           (addCall ''Get'' 1 c w) = Done (None, d) w'"
  shows "MockClient_Get get c req out w = Done (None, out\<lparr>gp_Value := alloc_dst d\<rparr>) w'"
  using assms by (simp add: MockClient_Get_def exec)

section \<open>Clusters over this transport\<close>

lemma mock_makes_clients:
  assumes "rt_transport rt = mock_transport" "rt_client rt = MockClient_ops get"
  shows "makes_clients rt"
  using assms by (auto simp: makes_clients_def mock_transport_def mock_NewClient_def MockClient_ops_def)

lemma same_infos:
  assumes "map Address ps = map Address qs" "map IsSelf ps = map IsSelf qs"
  shows "ps = (qs :: Info list)"
  using assms
proof (induction ps arbitrary: qs)
  case Nil
  then show ?case by simp
next
  case (Cons p ps)
  then show ?case by (cases qs) (auto intro: Info.equality)
qed

lemma mock_StartWith:
  assumes "rt_transport rt = mock_transport" "rt_client rt = MockClient_ops get" "mock_ok w"
    and "io_Transport opts = Some t" "t < mw_next w" "cl_daemons cl = []" "cl_peers cl = []"
  shows "\<exists>cl' w'. cluster_StartWith rt slog peers opts (cl, w) = Done None (cl', w') \<and> cl_peers cl' = peers \<and>
    mock_ok w' \<and> all_listen (mock_made w') (mock_addr w') (ring_options opts) (cl_daemons cl') peers"
proof -
  note mk = mock_makes_clients [OF assms(1,2)]
  have t: "t \<in> mock_made w" using assms(5) by (simp add: mock_made_def)
  from mock.StartWith_ok [OF assms(1) mk assms(3,4) t assms(6,7)] obtain cl' w' where
    run: "cluster_StartWith rt slog peers opts (cl, w) = Done None (cl', w')"
    "map Address (cl_peers cl') = map Address peers" by blast
  note k = mock.StartWith_knows [OF assms(1) mk assms(3,4) t run(1)]
  have "cl_peers cl' = peers" using same_infos [OF run(2)] k by blast
  then show ?thesis using run(1) k by auto
qed

text \<open>C16.  A cluster of any number of daemons on the mock transport, with different addresses, none of them
  marked as this instance by the caller, and replicas that do not collide on the ring, starts, and then
  every key has one owner: \<open>FindOwningDaemon\<close> names it, that daemon takes itself for the owner, and every
  other daemon takes the client of that daemon's address for the remote owner.\<close>

theorem cluster_owner_agreed:
  assumes "rt_transport rt = mock_transport" "rt_client rt = MockClient_ops get" "mock_ok w"
    and "io_Transport opts = Some t" "t < mw_next w" "cl_daemons cl = []" "cl_peers cl = []"
    and "ring_sort (rt_sort rt)" "0 < ring_replicas (ring_options opts)"
    and "peers \<noteq> []" "distinct (map Address peers)" "\<forall>p\<in>set peers. \<not> IsSelf p"
    and "no_collision (rt_fnv1 rt) (ring_options opts) (Address ` set peers)"
  shows "\<exists>cl' w'. cluster_StartWith rt slog peers opts (cl, w) = Done None (cl', w') \<and>
    (\<forall>key. \<exists>k<length peers. FindOwningDaemon rt key (cl', w') = Done k (cl', w') \<and>
       (\<forall>j<length peers. \<exists>i c. d_instance (cl_daemons cl' ! j) = Some i \<and>
          instance_PickPeer rt i key = (Some c, j \<noteq> k) \<and>
          Address (Client_PeerInfo (client_ops (rt_client rt)) c) = Address (peers ! k)))"
proof -
  from mock_StartWith [OF assms(1-7)] obtain cl' w' where
    run: "cluster_StartWith rt slog peers opts (cl, w) = Done None (cl', w')" "cl_peers cl' = peers" by blast
  have t: "t \<in> mock_made w" using assms(5) by (simp add: mock_made_def)
  have "\<exists>k<length peers. FindOwningDaemon rt key (cl', w') = Done k (cl', w') \<and>
      (\<forall>j<length peers. \<exists>i c. d_instance (cl_daemons cl' ! j) = Some i \<and>
         instance_PickPeer rt i key = (Some c, j \<noteq> k) \<and>
         Address (Client_PeerInfo (client_ops (rt_client rt)) c) = Address (peers ! k))" for key
    using mock.StartWith_owner [OF assms(1) mock_makes_clients [OF assms(1,2)] assms(3,4) t run(1) assms(8,9,12), of key]
      assms(10,11,13) run(2) by simp
  then show ?thesis by (intro exI [of _ cl'] exI [of _ w'] conjI run(1)) (rule allI)
qed

definition demo_mock_world :: mock_world where
  "demo_mock_world = snd (NewMockTransport \<lparr>mw_heap = (\<lambda>_. undefined), mw_next = 0\<rparr>)"

definition demo_mock_runtime :: "(mutexCache, MockClient, nat, mock_world, unit) runtime" where
  "demo_mock_runtime =
     \<lparr>rt_cache = mutex_ops, rt_nilCache = newMutexCache 0, rt_mutexCache = (\<lambda>m. m),
      rt_client = MockClient_ops (\<lambda>i g k (d :: unit sink). ret (None, d)), rt_transport = mock_transport,
      rt_httpTransport = (\<lambda>_. NewMockTransport), rt_fnv1 = (\<lambda>_. 0), rt_sort = sort_ring, rt_order = (\<lambda>xs. xs),
      rt_sched = (\<lambda>n. [0..<n]), rt_proto = demo_proto, rt_now = (\<lambda>w. (zero_time, w)), rt_ctxErr = (\<lambda>w. None)\<rparr>"

definition demo_mock_opts :: "(mutexCache, nat, mock_world) InstanceOptions" where
  "demo_mock_opts =
     \<lparr>io_HashFn = Some demo_hash, io_Replicas = 1, io_Logger = None, io_Transport = Some 0,
      io_CacheFactory = None, io_MetricProvider = None\<rparr>"

lemma demo_mock:
  "rt_transport demo_mock_runtime = mock_transport"
  "rt_client demo_mock_runtime = MockClient_ops (\<lambda>i g k (d :: unit sink). ret (None, d))"
  "mock_ok demo_mock_world" "io_Transport demo_mock_opts = Some 0" "0 < mw_next demo_mock_world"
  "ring_sort (rt_sort demo_mock_runtime)" "ring_options demo_mock_opts = demo_opts"
  by (simp_all add: demo_mock_runtime_def demo_mock_world_def demo_mock_opts_def mock_ok_def NewMockTransport_def
      Let_def sort_ring.ring_sort_axioms ring_options_def demo_opts_def)

theorem cluster_owner_agreed_witness:
  "\<exists>s k. cluster_StartWith demo_mock_runtime (\<lambda>_ _ _ w. w) [demo_peer ''a'', demo_peer ''b''] demo_mock_opts
       (\<lparr>cl_daemons = [], cl_peers = [], cl_next = 0\<rparr>, demo_mock_world) = Done None s \<and>
     FindOwningDaemon demo_mock_runtime ''k'' s = Done k s \<and> k < 2"
proof -
  let ?cl = "\<lparr>cl_daemons = [], cl_peers = [], cl_next = 0\<rparr> :: (mutexCache, MockClient, nat, mock_world, unit) cluster"
  let ?ps = "[demo_peer ''a'', demo_peer ''b'']"
  have c: "cl_daemons ?cl = []" "cl_peers ?cl = []" "0 < ring_replicas (ring_options demo_mock_opts)" "?ps \<noteq> []"
    "distinct (map Address ?ps)" "\<forall>p\<in>set ?ps. \<not> IsSelf p"
    "no_collision (rt_fnv1 demo_mock_runtime) (ring_options demo_mock_opts) (Address ` set ?ps)"
    using demo_hashes by (auto simp: no_collision_def demo_mock demo_ring)
  from cluster_owner_agreed [OF demo_mock(1-5) c(1,2) demo_mock(6) c(3-7), of "\<lambda>_ _ _ w. w"]
  obtain cl' w' where s: "cluster_StartWith demo_mock_runtime (\<lambda>_ _ _ w. w) ?ps demo_mock_opts (?cl, demo_mock_world) =
      Done None (cl', w')"
    and f: "\<exists>k<length ?ps. FindOwningDaemon demo_mock_runtime ''k'' (cl', w') = Done k (cl', w')" by blast
  from f obtain k where "k < 2" "FindOwningDaemon demo_mock_runtime ''k'' (cl', w') = Done k (cl', w')" by auto
  with s show ?thesis by blast
qed

text \<open>C18.  \<open>Restart\<close> splits the cluster.  It returns without an error, every daemon listens again, but no
  daemon knows of any peer: the list of peers it hands to the instances marks none of them as the
  instance itself, so every \<open>SetPeers\<close> fails and the error is dropped.  Each daemon then takes itself for
  the owner of every key, and \<open>FindOwningDaemon\<close> always names the first.\<close>

theorem cluster_Restart_isolates:
  assumes "rt_transport rt = mock_transport" "rt_client rt = MockClient_ops get" "mock_ok w"
    and "io_Transport opts = Some t" "t < mw_next w" "cl_daemons cl = []" "cl_peers cl = []"
    and "peers \<noteq> []" "\<forall>p\<in>set peers. \<not> IsSelf p" "cluster_StartWith rt slog peers opts (cl, w) = Done None s"
  shows "\<exists>s'. cluster_Restart rt s = Done None s' \<and> cl_peers (fst s') = peers \<and>
    length (cl_daemons (fst s')) = length peers \<and>
    (\<forall>d\<in>set (cl_daemons (fst s')). \<exists>i. d_instance d = Some i \<and>
       instance_PickPeer rt i key = (None, False) \<and> instance_getAllPeers rt i = rt_order rt []) \<and>
    FindOwningDaemon rt key s' = Done 0 s'"
proof -
  from mock_StartWith [OF assms(1-7), of slog peers] assms(10) obtain cl' w' where s: "s = (cl', w')"
    "cl_peers cl' = peers" "mock_ok w'"
    "all_listen (mock_made w') (mock_addr w') (ring_options opts) (cl_daemons cl') peers" by auto
  from mock.Restart_ok [OF assms(1) s(3,4)] obtain cl2 w2 where r: "cluster_Restart rt (cl', w') = Done None (cl2, w2)"
    by blast
  have len: "length (cl_daemons cl') = length peers" using s(4) by (simp add: all_listen_def list_all2_lengthD)
  then have "cl_daemons cl' \<noteq> []" using assms(8) by auto
  from Restart_alone [OF mock_makes_clients [OF assms(1,2)] _ this r, of key] s(2) assms(9)
  have "cl_peers cl2 = peers" "length (cl_daemons cl2) = length peers" "\<forall>d\<in>set (cl_daemons cl2). alone rt d"
    "FindOwningDaemon rt key (cl2, w2) = Done 0 (cl2, w2)" using len by auto
  then show ?thesis
    using r s(1) by (intro exI [of _ "(cl2, w2)"]) (auto intro: alone_PickPeer)
qed

theorem cluster_Restart_isolates_witness:
  "\<exists>s s'. cluster_StartWith demo_mock_runtime (\<lambda>_ _ _ w. w) [demo_peer ''a'', demo_peer ''b''] demo_mock_opts
       (\<lparr>cl_daemons = [], cl_peers = [], cl_next = 0\<rparr>, demo_mock_world) = Done None s \<and>
     cluster_Restart demo_mock_runtime s = Done None s' \<and> length (cl_daemons (fst s')) = 2 \<and>
     (\<forall>d\<in>set (cl_daemons (fst s')). \<exists>i. d_instance d = Some i \<and> instance_getAllPeers demo_mock_runtime i = [])"
proof -
  let ?cl = "\<lparr>cl_daemons = [], cl_peers = [], cl_next = 0\<rparr>" and ?ps = "[demo_peer ''a'', demo_peer ''b'']"
  from mock_StartWith [OF demo_mock(1-5), of ?cl "\<lambda>_ _ _ w. w" ?ps] obtain s where
    s: "cluster_StartWith demo_mock_runtime (\<lambda>_ _ _ w. w) ?ps demo_mock_opts (?cl, demo_mock_world) = Done None s" by auto
  from cluster_Restart_isolates [OF demo_mock(1-5) _ _ _ _ s, of "''k''"] s show ?thesis
    by (fastforce simp: demo_mock_runtime_def)
qed

end
