(* ===== verification/Otter.thy ===== *)
theory Otter
  imports GroupOps
begin

text \<open>
  The alternative cache of src/contrib/otter.go, an adapter to the cache of the module otter.  That
  module is a table of its methods, with what the adapter relies on as the predicate \<open>otter_ok\<close>: a
  lookup finds only what was stored, a deletion deletes, and a store may be refused, which its boolean
  result reports.  The adapter then keeps the contract of caches, so that groups are safe with it.
\<close>

section \<open>The library\<close>

record 'o otter =
  ot_Build :: "int \<Rightarrow> (string \<Rightarrow> byteview \<Rightarrow> 32 word) \<Rightarrow> ('o \<times> goerr option) go"
  ot_Get :: "string \<Rightarrow> 'o \<Rightarrow> (byteview \<times> bool) \<times> 'o"
  ot_Set :: "string \<Rightarrow> byteview \<Rightarrow> 'o \<Rightarrow> bool \<times> 'o"
  ot_Delete :: "string \<Rightarrow> 'o \<Rightarrow> 'o"
  ot_Capacity :: "'o \<Rightarrow> int"
  ot_Size :: "'o \<Rightarrow> int"
  ot_EvictedCount :: "'o \<Rightarrow> int64"
  ot_Hits :: "'o \<Rightarrow> int64"
  ot_Close :: "'o \<Rightarrow> 'o"

section \<open>The adapter\<close>

record 'o OtterCache =
  oc_cache :: 'o
  oc_rejected :: int64
  oc_gets :: int64

definition otter_cost :: "string \<Rightarrow> byteview \<Rightarrow> 32 word" where
  "otter_cost key val = word_of_int (bv_Len val)"

text \<open>Building panics on a capacity the library does not take.\<close>

definition NewOtterCache :: "'o otter \<Rightarrow> int64 \<Rightarrow> ('o OtterCache \<times> goerr option) go" where
  "NewOtterCache lib maxBytes =
     (case ot_Build lib (sint maxBytes) otter_cost of
        Panic m \<Rightarrow> Panic m
      | Ret (c, err) \<Rightarrow> Ret (\<lparr>oc_cache = c, oc_rejected = 0, oc_gets = 0\<rparr>, err))"

definition otter_Get :: "'o otter \<Rightarrow> gotime \<Rightarrow> string \<Rightarrow> 'o OtterCache \<Rightarrow> byteview option \<times> 'o OtterCache" where
  "otter_Get lib now key c =
     (case ot_Get lib key (oc_cache c) of
        ((i, ok), m) \<Rightarrow>
          if \<not> IsZero (bv_Expire i) \<and> Before (bv_Expire i) now
          then (None, c\<lparr>oc_cache := ot_Delete lib key m\<rparr>)
          else (if ok then Some i else None, c\<lparr>oc_cache := m, oc_gets := oc_gets c + 1\<rparr>))"

definition otter_Add :: "'o otter \<Rightarrow> string \<Rightarrow> byteview \<Rightarrow> 'o OtterCache \<Rightarrow> 'o OtterCache option" where
  "otter_Add lib key val c =
     (case ot_Set lib key val (oc_cache c) of
        (ok, m) \<Rightarrow>
          Some (if ok then c\<lparr>oc_cache := m\<rparr> else c\<lparr>oc_cache := m, oc_rejected := oc_rejected c + 1\<rparr>))"

definition otter_Remove :: "'o otter \<Rightarrow> string \<Rightarrow> 'o OtterCache \<Rightarrow> 'o OtterCache" where
  "otter_Remove lib key c = c\<lparr>oc_cache := ot_Delete lib key (oc_cache c)\<rparr>"

definition otter_Stats :: "'o otter \<Rightarrow> 'o OtterCache \<Rightarrow> CacheStats" where
  "otter_Stats lib c =
     \<lparr>cs_Rejected = oc_rejected c, cs_Bytes = word_of_int (ot_Capacity lib (oc_cache c)),
      cs_Items = word_of_int (ot_Size lib (oc_cache c)), cs_Gets = oc_gets c,
      cs_Hits = ot_Hits lib (oc_cache c), cs_Evictions = ot_EvictedCount lib (oc_cache c)\<rparr>"

definition otter_Bytes :: "'o OtterCache \<Rightarrow> int64" where
  "otter_Bytes c = 0"

definition otter_Close :: "'o otter \<Rightarrow> 'o OtterCache \<Rightarrow> 'o OtterCache" where
  "otter_Close lib c = c\<lparr>oc_cache := ot_Close lib (oc_cache c)\<rparr>"

definition otter_ops :: "'o otter \<Rightarrow> 'o OtterCache Cache" where
  "otter_ops lib =
     \<lparr>Cache_Get = otter_Get lib, Cache_Add = otter_Add lib, Cache_Stats = otter_Stats lib,
      Cache_Remove = otter_Remove lib, Cache_Bytes = otter_Bytes, Cache_Close = otter_Close lib\<rparr>"

section \<open>The contract\<close>

definition otter_ok :: "'o otter \<Rightarrow> ('o \<Rightarrow> bool) \<Rightarrow> ('o \<Rightarrow> string \<rightharpoonup> byteview) \<Rightarrow> bool" where
  "otter_ok lib ci contents \<longleftrightarrow>
     (\<forall>c k i ok c'. ci c \<longrightarrow> ot_Get lib k c = ((i, ok), c') \<longrightarrow>
        ci c' \<and> contents c' \<subseteq>\<^sub>m contents c \<and> (ok \<longrightarrow> contents c k = Some i)) \<and>
     (\<forall>c k v ok c'. ci c \<longrightarrow> ot_Set lib k v c = (ok, c') \<longrightarrow>
        ci c' \<and> contents c' \<subseteq>\<^sub>m (if ok then (contents c)(k \<mapsto> v) else contents c)) \<and>
     (\<forall>c k. ci c \<longrightarrow> ci (ot_Delete lib k c) \<and> contents (ot_Delete lib k c) = (contents c)(k := None))"

lemma otter_okD:
  assumes "otter_ok lib ci contents" "ci c"
  shows "ot_Get lib k c = ((i, ok), c') \<Longrightarrow> ci c' \<and> contents c' \<subseteq>\<^sub>m contents c \<and> (ok \<longrightarrow> contents c k = Some i)"
    "ot_Set lib k v c = (ok', c'') \<Longrightarrow>
       ci c'' \<and> contents c'' \<subseteq>\<^sub>m (if ok' then (contents c)(k \<mapsto> v) else contents c)"
    "ci (ot_Delete lib k c) \<and> contents (ot_Delete lib k c) = (contents c)(k := None)"
  using assms unfolding otter_ok_def by blast+

lemma otter_cache_api:
  fixes lib :: "'o otter"
  assumes "otter_ok lib ci contents"
  shows "cache_api (otter_ops lib) (\<lambda>c. ci (oc_cache c)) (\<lambda>c. contents (oc_cache c))"
proof
  fix c c' :: "'o OtterCache" and now k r
  assume ci: "ci (oc_cache c)" and get: "Cache_Get (otter_ops lib) now k c = (r, c')"
  obtain i ok m where g: "ot_Get lib k (oc_cache c) = ((i, ok), m)" by (metis prod.exhaust)
  note m = otter_okD(1) [OF assms ci g]
  have d: "ci (ot_Delete lib k m)" "contents (ot_Delete lib k m) = (contents m)(k := None)"
    using otter_okD(3) [OF assms, of m k] m by simp_all
  have "(contents m)(k := None) \<subseteq>\<^sub>m contents m" by (simp add: map_le_def)
  then have "contents (ot_Delete lib k m) \<subseteq>\<^sub>m contents (oc_cache c)"
    using m d(2) map_le_trans by metis
  then show "ci (oc_cache c') \<and> contents (oc_cache c') \<subseteq>\<^sub>m contents (oc_cache c) \<and>
      (\<forall>v. r = Some v \<longrightarrow> contents (oc_cache c) k = Some v \<and> \<not> expired now (bv_e v))"
    using get m d(1) by (auto simp: otter_ops_def otter_Get_def g expired_def split: if_splits)
next
  fix c :: "'o OtterCache" and k v
  assume ci: "ci (oc_cache c)"
  obtain ok m where s: "ot_Set lib k v (oc_cache c) = (ok, m)" by fastforce
  note m = otter_okD(2) [OF assms ci s]
  then have le: "contents m \<subseteq>\<^sub>m (if ok then (contents (oc_cache c))(k \<mapsto> v) else contents (oc_cache c))" by blast
  have "contents (oc_cache c) j = Some u \<or> j = k \<and> u = v" if "contents m j = Some u" for j u
    using map_le_SomeD [OF le that] by (auto split: if_splits)
  then show "\<exists>c'. Cache_Add (otter_ops lib) k v c = Some c' \<and> ci (oc_cache c') \<and>
      (\<forall>j u. contents (oc_cache c') j = Some u \<longrightarrow> contents (oc_cache c) j = Some u \<or> j = k \<and> u = v)"
    using m by (simp add: otter_ops_def otter_Add_def s)
next
  fix c :: "'o OtterCache" and k
  assume "ci (oc_cache c)"
  then show "ci (oc_cache (Cache_Remove (otter_ops lib) k c)) \<and>
      contents (oc_cache (Cache_Remove (otter_ops lib) k c)) = (contents (oc_cache c))(k := None)"
    using otter_okD(3) [OF assms, of "oc_cache c" k] by (simp add: otter_ops_def otter_Remove_def)
qed

section \<open>Groups with this cache\<close>

text \<open>A library for examples: a map that refuses values of more than a tenth of its capacity.\<close>

record demo_otter =
  do_map :: "string \<rightharpoonup> byteview"
  do_cap :: int

definition demo_lib :: "demo_otter otter" where
  "demo_lib =
     \<lparr>ot_Build = (\<lambda>n cost. if n \<le> 0 then Panic ''capacity'' else Ret (\<lparr>do_map = Map.empty, do_cap = n\<rparr>, None)),
      ot_Get = (\<lambda>k c. ((case do_map c k of Some v \<Rightarrow> (v, True) | None \<Rightarrow> (zero_view, False)), c)),
      ot_Set = (\<lambda>k v c. if 10 * bv_Len v > do_cap c then (False, c) else (True, c\<lparr>do_map := (do_map c)(k \<mapsto> v)\<rparr>)),
      ot_Delete = (\<lambda>k c. c\<lparr>do_map := (do_map c)(k := None)\<rparr>),
      ot_Capacity = do_cap, ot_Size = (\<lambda>_. 0), ot_EvictedCount = (\<lambda>_. 0), ot_Hits = (\<lambda>_. 0), ot_Close = (\<lambda>c. c)\<rparr>"

lemma demo_lib_ok: "otter_ok demo_lib (\<lambda>_. True) do_map"
  by (auto simp: otter_ok_def demo_lib_def split: option.splits if_splits)

text \<open>C13.  A group with this cache, and with a logger, is as safe as one with the default cache: whatever
  the library drops or refuses, every sequence of calls comes back and the caches hold, for every key, only values given
  for that key.\<close>

theorem otter_group_safe:
  assumes "otter_ok lib ci contents" "e_cache E = otter_ops lib" "trusted ok W E" "wired E"
    and "list_all (op_ok ok) ops"
    and "safe (\<lambda>c. ci (oc_cache c)) (\<lambda>c. contents (oc_cache c)) ok W s"
  shows "\<exists>r s'. each (run_op E) ops s = Done r s' \<and>
    (\<forall>k v. contents (oc_cache (g_mainCache (fst s'))) k = Some v \<or>
           contents (oc_cache (g_hotCache (fst s'))) k = Some v \<longrightarrow> ok k v)"
  using succeedsD [OF cache_api.safe_run [OF otter_cache_api [OF assms(1)] assms(2-5)] assms(6)]
  by (auto simp: safe_def holds_only_def)

definition demo_otter_env :: "(demo_otter OtterCache, NoOpClient, nat, unit) env" where
  "demo_otter_env =
     \<lparr>e_cache = otter_ops demo_lib,
      e_CacheFactory = (\<lambda>n. (\<lparr>oc_cache = \<lparr>do_map = Map.empty, do_cap = sint n\<rparr>, oc_rejected = 0, oc_gets = 0\<rparr>, None)),
      e_client = demo_clients, e_picker = e_picker demo_env, e_order = (\<lambda>xs. xs), e_sched = (\<lambda>n. [0..<n]),
      e_getter = demo_getter, e_proto = demo_proto, e_now = (\<lambda>w. (zero_time, w)), e_ctxErr = (\<lambda>w. None),
      e_Logger = Some (\<lambda>_ _ _ w. w)\<rparr>"

definition demo_otter_cache :: "demo_otter OtterCache" where
  "demo_otter_cache = \<lparr>oc_cache = \<lparr>do_map = Map.empty, do_cap = 100\<rparr>, oc_rejected = 0, oc_gets = 0\<rparr>"

theorem otter_group_safe_witness:
  "\<exists>r s'. each (run_op demo_otter_env) [OpGet Leader ''k'' (byteViewSink zero_view), OpRemove Leader ''k'']
       (\<lparr>g_name = ''g'', g_maxCacheBytes = 800, g_mainCache = demo_otter_cache, g_hotCache = demo_otter_cache,
         g_Stats = zero_stats\<rparr>, 0) = Done r s' \<and>
     (\<forall>k v. do_map (oc_cache (g_mainCache (fst s'))) k = Some v \<longrightarrow> bv_data v = ''value of '' @ k)"
proof -
  let ?g = "\<lparr>g_name = ''g'', g_maxCacheBytes = 800, g_mainCache = demo_otter_cache, g_hotCache = demo_otter_cache,
         g_Stats = zero_stats\<rparr>" and ?ok = "\<lambda>k v. bv_data v = ''value of '' @ k"
  let ?ops = "[OpGet Leader ''k'' (byteViewSink zero_view), OpRemove Leader ''k''] :: unit group_op list"
  have env: "e_cache demo_otter_env = otter_ops demo_lib" "wired demo_otter_env"
    by (simp_all add: demo_otter_env_def wired_def demo_env_def getAllPeers_def picker_GetAll_def NewPicker_def)
  have "trusted ?ok (\<lambda>w. True) demo_otter_env"
    using demo_trusted
    by (simp add: demo_otter_env_def demo_env_def trusted_def answers_def getter_call_def get_call_def)
  moreover have "list_all (op_ok ?ok) ?ops" by simp
  moreover have "safe (\<lambda>c. True) (\<lambda>c. do_map (oc_cache c)) ?ok (\<lambda>w. True) (?g, 0 :: nat)"
    by (simp add: safe_def holds_only_def demo_otter_cache_def)
  ultimately show ?thesis
    using otter_group_safe [OF demo_lib_ok env(1) _ env(2), of ?ok "\<lambda>w. True" ?ops "(?g, 0)"] by blast
qed

text \<open>A value the library refuses does not replace the one before it: where a refused store leaves the
  library's cache as it was, \<open>Get\<close> after \<open>Add\<close> still answers with the old value.\<close>

lemma otter_rejected_stale:
  assumes "ot_Set lib k v (oc_cache c) = (False, oc_cache c)" "ot_Get lib k (oc_cache c) = ((u, True), m)"
    and "\<not> expired now (bv_e u)"
  shows "map_option (\<lambda>c'. fst (otter_Get lib now k c')) (otter_Add lib k v c) = Some (Some u)"
  using assms by (auto simp: otter_Add_def otter_Get_def expired_def)

end
