(* ===== verification/SingleFlight.thy ===== *)
theory SingleFlight
  imports Errors
begin

text \<open>
  Duplicate call suppression, \<open>singleflight.Group\<close> of src/internal/singleflight/singleflight.go, as
  a transition system over goroutines.  Goroutines are numbered; each has a program counter that
  says where in \<open>Do\<close> or \<open>Lock\<close> it stands.  The sections of \<open>Do\<close> that run under the mutex are
  one step each and need the mutex free; the function given to \<open>Lock\<close> runs with the mutex held,
  so entering and leaving it are two steps.  \<open>*call\<close> objects live in a heap indexed by pointers.

  The step function is total on actions (\<^term>\<open>None\<close> when the action is not enabled), so runs
  can be evaluated; the behaviours of the program are the runs of any sequence of enabled actions.
\<close>

section \<open>State\<close>

text \<open>What a call of \<open>Do\<close> comes back with: the two results, or the panic of \<open>fn\<close> going on up the
  stack.\<close>

datatype 'v outcome = Returned "'v option" "goerr option" | Panicked

record 'v call =
  c_wg :: int
  c_val :: "'v option"
  c_err :: "goerr option"

text \<open>Program counters: not in a call (with the outcome of the last one); at \<open>c.wg.Wait()\<close>;
  inside \<open>fn\<close>; before the deferred function; between its \<open>wg.Done()\<close> and its \<open>mu.Lock()\<close>;
  inside the function given to \<open>Lock\<close>.\<close>

datatype 'v sf_pc =
    Free "'v outcome option"
  | Waiting string nat
  | Running string nat
  | Deferred string nat "'v outcome"
  | Deleting string nat "'v outcome"
  | InLock

record 'v sf_group =
  sf_mu :: "nat option"
  sf_m :: "(string \<rightharpoonup> nat) option"
  sf_heap :: "nat \<rightharpoonup> 'v call"
  sf_next :: nat
  sf_pc :: "nat \<Rightarrow> 'v sf_pc"
  sf_flights :: "nat \<rightharpoonup> string \<times> nat \<times> 'v outcome option"

text \<open>\<open>sf_flights\<close> is a history variable no step reads: the key and leader of every flight so far
  and how its \<open>fn\<close> ended.\<close>

definition sf_new :: "'v sf_group" where
  "sf_new = \<lparr>sf_mu = None, sf_m = None, sf_heap = Map.empty, sf_next = 0,
     sf_pc = (\<lambda>_. Free None), sf_flights = Map.empty\<rparr>"

definition errPanicked :: goerr where
  "errPanicked = ErrString ''singleflight leader panicked''"

definition new_call :: "'v call" where
  "new_call = \<lparr>c_wg = 1, c_val = None, c_err = Some errPanicked\<rparr>"

section \<open>Steps\<close>

datatype 'v sf_action =
    DoEnter nat string
  | WaitReturn nat
  | FnReturn nat "'v option" "goerr option"
  | FnPanic nat
  | WgDone nat
  | DeleteKey nat
  | LockEnter nat
  | LockExit nat

definition set_pc :: "nat \<Rightarrow> 'v sf_pc \<Rightarrow> 'v sf_group \<Rightarrow> 'v sf_group" where
  "set_pc t pc g = g\<lparr>sf_pc := (sf_pc g)(t := pc)\<rparr>"

text \<open>\<open>g.mu.Lock()\<close> to \<open>g.mu.Unlock()\<close> of \<open>Do\<close>, on either branch.\<close>

definition do_enter :: "nat \<Rightarrow> string \<Rightarrow> 'v sf_group \<Rightarrow> 'v sf_group" where
  "do_enter t key g =
     (let m = (case sf_m g of None \<Rightarrow> Map.empty | Some m \<Rightarrow> m)
      in case m key of
           Some c \<Rightarrow> set_pc t (Waiting key c) (g\<lparr>sf_m := Some m\<rparr>)
         | None \<Rightarrow>
             let c = sf_next g
             in set_pc t (Running key c)
                  (g\<lparr>sf_heap := (sf_heap g)(c \<mapsto> new_call), sf_next := c + 1,
                     sf_m := Some (m(key \<mapsto> c)), sf_flights := (sf_flights g)(c \<mapsto> (key, t, None))\<rparr>))"

definition end_flight :: "nat \<Rightarrow> 'v outcome \<Rightarrow> 'v sf_group \<Rightarrow> 'v sf_group" where
  "end_flight c out g =
     g\<lparr>sf_flights := (\<lambda>p. if p = c then map_option (\<lambda>(k, t, _). (k, t, Some out)) (sf_flights g p)
                         else sf_flights g p)\<rparr>"

fun sf_step :: "'v sf_action \<Rightarrow> 'v sf_group \<Rightarrow> 'v sf_group option" where
  "sf_step (DoEnter t key) g =
     (case sf_pc g t of
        Free _ \<Rightarrow> if sf_mu g = None then Some (do_enter t key g) else None
      | _ \<Rightarrow> None)"
| "sf_step (WaitReturn t) g =
     (case sf_pc g t of
        Waiting key c \<Rightarrow>
          (case sf_heap g c of
             Some x \<Rightarrow> if c_wg x = 0
                       then Some (set_pc t (Free (Some (Returned (c_val x) (c_err x)))) g) else None
           | None \<Rightarrow> None)
      | _ \<Rightarrow> None)"
| "sf_step (FnReturn t v e) g =
     (case sf_pc g t of
        Running key c \<Rightarrow>
          (case sf_heap g c of
             Some x \<Rightarrow> Some (set_pc t (Deferred key c (Returned v e))
               (end_flight c (Returned v e)
                 (g\<lparr>sf_heap := (sf_heap g)(c \<mapsto> x\<lparr>c_val := v, c_err := e\<rparr>)\<rparr>)))
           | None \<Rightarrow> None)
      | _ \<Rightarrow> None)"
| "sf_step (FnPanic t) g =
     (case sf_pc g t of
        Running key c \<Rightarrow> Some (set_pc t (Deferred key c Panicked) (end_flight c Panicked g))
      | _ \<Rightarrow> None)"
| "sf_step (WgDone t) g =
     (case sf_pc g t of
        Deferred key c out \<Rightarrow>
          (case sf_heap g c of
             Some x \<Rightarrow> Some (set_pc t (Deleting key c out)
               (g\<lparr>sf_heap := (sf_heap g)(c \<mapsto> x\<lparr>c_wg := c_wg x - 1\<rparr>)\<rparr>))
           | None \<Rightarrow> None)
      | _ \<Rightarrow> None)"
| "sf_step (DeleteKey t) g =
     (case sf_pc g t of
        Deleting key c out \<Rightarrow>
          if sf_mu g = None
          then Some (set_pc t (Free (Some out)) (g\<lparr>sf_m := map_option (\<lambda>m. m(key := None)) (sf_m g)\<rparr>))
          else None
      | _ \<Rightarrow> None)"
| "sf_step (LockEnter t) g =
     (case sf_pc g t of
        Free _ \<Rightarrow> if sf_mu g = None then Some (set_pc t InLock (g\<lparr>sf_mu := Some t\<rparr>)) else None
      | _ \<Rightarrow> None)"
| "sf_step (LockExit t) g =
     (case sf_pc g t of
        InLock \<Rightarrow> Some (set_pc t (Free None) (g\<lparr>sf_mu := None\<rparr>))
      | _ \<Rightarrow> None)"

fun sf_run :: "'v sf_action list \<Rightarrow> 'v sf_group \<Rightarrow> 'v sf_group option" where
  "sf_run [] g = Some g"
| "sf_run (a # as) g = (case sf_step a g of None \<Rightarrow> None | Some g' \<Rightarrow> sf_run as g')"

inductive sf_reach :: "'v sf_group \<Rightarrow> bool" where
  sf_init: "sf_reach sf_new"
| sf_next: "sf_reach g \<Longrightarrow> sf_step a g = Some g' \<Longrightarrow> sf_reach g'"

section \<open>Invariant\<close>

fun owns :: "'v sf_pc \<Rightarrow> (string \<times> nat) option" where
  "owns (Running k c) = Some (k, c)"
| "owns (Deferred k c out) = Some (k, c)"
| "owns (Deleting k c out) = Some (k, c)"
| "owns _ = None"

definition sf_map :: "'v sf_group \<Rightarrow> string \<rightharpoonup> nat" where
  "sf_map g = (case sf_m g of None \<Rightarrow> Map.empty | Some m \<Rightarrow> m)"

text \<open>What a finished flight leaves in its \<open>*call\<close>.\<close>

fun call_of :: "int \<Rightarrow> 'v outcome \<Rightarrow> 'v call" where
  "call_of n (Returned v e) = \<lparr>c_wg = n, c_val = v, c_err = e\<rparr>"
| "call_of n Panicked = \<lparr>c_wg = n, c_val = None, c_err = Some errPanicked\<rparr>"

definition leader_ok :: "'v sf_group \<Rightarrow> nat \<Rightarrow> 'v sf_pc \<Rightarrow> bool" where
  "leader_ok g t pc =
     (case pc of
        Free _ \<Rightarrow> True
      | InLock \<Rightarrow> sf_mu g = Some t
      | Waiting k c \<Rightarrow> (\<exists>l out. sf_flights g c = Some (k, l, out))
      | Running k c \<Rightarrow>
          sf_map g k = Some c \<and> sf_flights g c = Some (k, t, None) \<and> sf_heap g c = Some new_call
      | Deferred k c out \<Rightarrow>
          sf_map g k = Some c \<and> sf_flights g c = Some (k, t, Some out) \<and>
          sf_heap g c = Some (call_of 1 out)
      | Deleting k c out \<Rightarrow>
          sf_map g k = Some c \<and> sf_flights g c = Some (k, t, Some out) \<and>
          sf_heap g c = Some (call_of 0 out))"

text \<open>A flight that is over has released its waiters; one that is not has its leader at work.\<close>

definition flight_ok :: "'v sf_group \<Rightarrow> nat \<Rightarrow> string \<Rightarrow> nat \<Rightarrow> 'v outcome option \<Rightarrow> bool" where
  "flight_ok g c k l out =
     (case out of
        None \<Rightarrow> sf_pc g l = Running k c
      | Some u \<Rightarrow> sf_pc g l = Deferred k c u \<or> sf_heap g c = Some (call_of 0 u))"

definition sf_inv :: "'v sf_group \<Rightarrow> bool" where
  "sf_inv g \<longleftrightarrow>
     (\<forall>t. leader_ok g t (sf_pc g t)) \<and>
     (\<forall>k c. sf_map g k = Some c \<longrightarrow> (\<exists>t. owns (sf_pc g t) = Some (k, c))) \<and>
     (\<forall>c k l out. sf_flights g c = Some (k, l, out) \<longrightarrow> c < sf_next g \<and> flight_ok g c k l out) \<and>
     (\<forall>t. sf_mu g = Some t \<longrightarrow> sf_pc g t = InLock) \<and>
     finite {t. \<forall>out. sf_pc g t \<noteq> Free out}"

section \<open>Every step keeps the invariant\<close>

lemma sf_inv_leader: "sf_inv g \<Longrightarrow> leader_ok g t (sf_pc g t)"
  by (simp add: sf_inv_def)

lemma owner_flight:
  assumes "sf_inv g" "owns (sf_pc g t) = Some (k, c)"
  shows "sf_map g k = Some c" "\<exists>out. sf_flights g c = Some (k, t, out)"
  using sf_inv_leader [OF assms(1), of t] assms(2)
  by (cases "sf_pc g t"; simp add: leader_ok_def)+

lemma owner_unique:
  assumes "sf_inv g" "owns (sf_pc g t) = Some (k, c)" "owns (sf_pc g t') = Some (k', c')"
    "k = k' \<or> c = c'"
  shows "t = t'"
proof -
  have "c = c'" using assms(4) owner_flight(1) [OF assms(1,2)] owner_flight(1) [OF assms(1,3)] by auto
  then show ?thesis using owner_flight(2) [OF assms(1,2)] owner_flight(2) [OF assms(1,3)] by auto
qed

lemma map_owned: "sf_inv g \<Longrightarrow> sf_map g k = Some c \<Longrightarrow> \<exists>t. owns (sf_pc g t) = Some (k, c)"
  by (simp add: sf_inv_def)

lemma flight_inv:
  "sf_inv g \<Longrightarrow> sf_flights g c = Some (k, l, out) \<Longrightarrow> c < sf_next g \<and> flight_ok g c k l out"
  by (simp add: sf_inv_def)

lemma mu_holder: "sf_inv g \<Longrightarrow> sf_mu g = Some t \<Longrightarrow> sf_pc g t = InLock"
  by (simp add: sf_inv_def)

lemma active_finite: "sf_inv g \<Longrightarrow> finite {t. \<forall>out. sf_pc g t \<noteq> Free out}"
  by (simp add: sf_inv_def)

lemma active_finite_upd:
  assumes "sf_inv g"
  shows "finite {u. \<forall>out. ((sf_pc g)(t := pc)) u \<noteq> Free out}"
  by (rule finite_subset [OF _ finite.insertI [OF active_finite [OF assms], of t]]) auto

text \<open>The leader of a flight works on its own flight, its own \<open>*call\<close> and its own key only.\<close>

lemma leader_ok_other:
  assumes inv: "sf_inv g" and own: "owns (sf_pc g t) = Some (k, c)" and "t' \<noteq> t"
    and "sf_flights g' = (sf_flights g)(c \<mapsto> (k, t, out))" "sf_heap g' = (sf_heap g)(c \<mapsto> x)"
    and "sf_map g' = sf_map g \<or> sf_map g' = (sf_map g)(k := None)" "sf_mu g' = sf_mu g"
  shows "leader_ok g' t' (sf_pc g t')"
proof (cases "owns (sf_pc g t')")
  case (Some kc)
  obtain k' c' where kc: "kc = (k', c')" by (cases kc)
  have "k' \<noteq> k" "c' \<noteq> c"
    using owner_unique [OF inv own] Some kc assms(3) by auto
  moreover have "leader_ok g t' (sf_pc g t')" by (rule sf_inv_leader [OF inv])
  ultimately show ?thesis
    using Some kc assms(4-7) by (cases "sf_pc g t'") (auto simp: leader_ok_def)
next
  case None
  have "leader_ok g t' (sf_pc g t')" by (rule sf_inv_leader [OF inv])
  then show ?thesis
    using None assms(4,7) owner_flight(2) [OF inv own]
    by (cases "sf_pc g t'") (auto simp: leader_ok_def)
qed

lemma flight_ok_other:
  assumes inv: "sf_inv g" and own: "owns (sf_pc g t) = Some (k, c)" and "c' \<noteq> c"
    and "sf_flights g c' = Some (k', l, out')"
    and "sf_pc g' = (sf_pc g)(t := pc')" "sf_heap g' = (sf_heap g)(c \<mapsto> x)"
  shows "flight_ok g' c' k' l out'"
proof -
  have ok: "flight_ok g c' k' l out'" using flight_inv [OF inv assms(4)] by simp
  show ?thesis
  proof (cases "l = t")
    case True
    then have "sf_pc g l \<noteq> Running k' c'" "sf_pc g l \<noteq> Deferred k' c' u" for u
      using own assms(3) by auto
    then show ?thesis using ok assms(3,6) by (auto simp: flight_ok_def split: option.splits)
  next
    case False
    then show ?thesis using ok assms(3,5,6) by (auto simp: flight_ok_def split: option.splits)
  qed
qed

lemma owner_step:
  assumes inv: "sf_inv g" and own: "owns (sf_pc g t) = Some (k, c)"
    and pc: "sf_pc g' = (sf_pc g)(t := pc')"
    and fl: "sf_flights g' = (sf_flights g)(c \<mapsto> (k, t, out))"
    and heap: "sf_heap g' = (sf_heap g)(c \<mapsto> x)"
    and same: "sf_next g' = sf_next g" "sf_mu g' = sf_mu g"
    and m: "owns pc' = Some (k, c) \<and> sf_map g' = sf_map g \<or>
      owns pc' = None \<and> sf_map g' = (sf_map g)(k := None)"
    and new: "leader_ok g' t pc'" "flight_ok g' c k t out"
  shows "sf_inv g'"
  unfolding sf_inv_def
proof (intro conjI allI impI)
  fix t'
  show "leader_ok g' t' (sf_pc g' t')"
    using new(1) pc leader_ok_other [OF inv own _ fl heap _ same(2), of t'] m
    by (cases "t' = t") auto
next
  fix k' c' assume "sf_map g' k' = Some c'"
  then have old: "sf_map g k' = Some c'" and "owns pc' = None \<longrightarrow> k' \<noteq> k"
    using m by (auto split: if_splits)
  from map_owned [OF inv old] obtain t' where t': "owns (sf_pc g t') = Some (k', c')" by blast
  then show "\<exists>t. owns (sf_pc g' t) = Some (k', c')"
    using pc own m \<open>owns pc' = None \<longrightarrow> k' \<noteq> k\<close> by (intro exI [of _ t']) auto
next
  fix c' k' l out' assume f: "sf_flights g' c' = Some (k', l, out')"
  obtain out0 where "sf_flights g c = Some (k, t, out0)" using owner_flight(2) [OF inv own] by blast
  then show "c' < sf_next g'"
    using f fl same(1) flight_inv [OF inv, of c'] flight_inv [OF inv, of c]
    by (cases "c' = c") auto
  show "flight_ok g' c' k' l out'"
    using f fl new(2) flight_ok_other [OF inv own _ _ pc heap, of c' k' l out']
    by (cases "c' = c") auto
next
  fix t' assume "sf_mu g' = Some t'"
  then have "sf_pc g t' = InLock" using inv same(2) by (simp add: sf_inv_def)
  then show "sf_pc g' t' = InLock" using pc own by (cases "t' = t") auto
next
  show "finite {u. \<forall>out. sf_pc g' u \<noteq> Free out}"
    unfolding pc by (rule active_finite_upd [OF inv])
qed

text \<open>A goroutine that leads no flight changes none.\<close>

lemma bystander_step:
  assumes inv: "sf_inv g" and own: "owns (sf_pc g t) = None" "owns pc' = None"
    and pc: "sf_pc g' = (sf_pc g)(t := pc')"
    and same: "sf_flights g' = sf_flights g" "sf_heap g' = sf_heap g" "sf_next g' = sf_next g"
      "sf_map g' = sf_map g"
    and mu: "\<And>u. u \<noteq> t \<Longrightarrow> sf_mu g' = Some u \<longleftrightarrow> sf_mu g = Some u"
      "sf_mu g' = Some t \<longrightarrow> pc' = InLock"
    and new: "leader_ok g' t pc'"
  shows "sf_inv g'"
  unfolding sf_inv_def
proof (intro conjI allI impI)
  fix u
  show "leader_ok g' u (sf_pc g' u)"
    using new pc sf_inv_leader [OF inv, of u] same mu(1) [of u]
    by (cases "u = t"; cases "sf_pc g u") (auto simp: leader_ok_def)
next
  fix k c assume "sf_map g' k = Some c"
  then obtain u where "owns (sf_pc g u) = Some (k, c)" using map_owned [OF inv] same(4) by auto
  then show "\<exists>t. owns (sf_pc g' t) = Some (k, c)" using pc own by (intro exI [of _ u]) auto
next
  fix c k l out assume "sf_flights g' c = Some (k, l, out)"
  then have f: "c < sf_next g" "flight_ok g c k l out" using flight_inv [OF inv] same(1) by auto
  then show "c < sf_next g'" using same(3) by simp
  show "flight_ok g' c k l out"
    using f(2) own(1) pc same(2)
    by (cases "l = t") (auto simp: flight_ok_def split: option.splits)
next
  fix u assume "sf_mu g' = Some u"
  then show "sf_pc g' u = InLock" using mu pc inv by (cases "u = t") (auto simp: sf_inv_def)
next
  show "finite {u. \<forall>out. sf_pc g' u \<noteq> Free out}"
    unfolding pc by (rule active_finite_upd [OF inv])
qed

lemma set_pc_simps [simp]:
  "sf_pc (set_pc t pc g) = (sf_pc g)(t := pc)" "sf_flights (set_pc t pc g) = sf_flights g"
  "sf_heap (set_pc t pc g) = sf_heap g" "sf_next (set_pc t pc g) = sf_next g"
  "sf_map (set_pc t pc g) = sf_map g" "sf_mu (set_pc t pc g) = sf_mu g"
  by (simp_all add: set_pc_def sf_map_def)

lemma end_flight_simps [simp]:
  "sf_pc (end_flight c out g) = sf_pc g" "sf_heap (end_flight c out g) = sf_heap g"
  "sf_next (end_flight c out g) = sf_next g" "sf_map (end_flight c out g) = sf_map g"
  "sf_mu (end_flight c out g) = sf_mu g"
  by (simp_all add: end_flight_def sf_map_def)

lemma end_flight_flights:
  "sf_flights g c = Some (k, t, out0) \<Longrightarrow>
   sf_flights (end_flight c out g) = (sf_flights g)(c \<mapsto> (k, t, Some out))"
  by (auto simp: end_flight_def fun_eq_iff)

lemma sf_map_simps [simp]:
  "sf_map (g\<lparr>sf_heap := h\<rparr>) = sf_map g" "sf_map (g\<lparr>sf_mu := u\<rparr>) = sf_map g"
  "sf_map (g\<lparr>sf_m := Some m\<rparr>) = m"
  "sf_map (g\<lparr>sf_m := map_option f (sf_m g)\<rparr>) = (if sf_m g = None then Map.empty else f (sf_map g))"
  by (auto simp: sf_map_def)

lemma do_enter_inv:
  assumes inv: "sf_inv g" and "owns (sf_pc g t) = None" "sf_mu g \<noteq> Some t"
  shows "sf_inv (do_enter t k g)"
proof (cases "sf_map g k")
  case (Some c)
  have eq: "do_enter t k g = set_pc t (Waiting k c) (g\<lparr>sf_m := Some (sf_map g)\<rparr>)"
    using Some by (simp add: do_enter_def sf_map_def Let_def)
  obtain l out where "sf_flights g c = Some (k, l, out)"
    using map_owned [OF inv Some] owner_flight(2) [OF inv] by blast
  then show ?thesis
    unfolding eq using assms by (intro bystander_step [OF inv, of t "Waiting k c"])
      (auto simp: leader_ok_def)
next
  case None
  let ?c = "sf_next g" and ?g = "do_enter t k g"
  have eq: "sf_pc ?g = (sf_pc g)(t := Running k ?c)" "sf_mu ?g = sf_mu g" "sf_next ?g = ?c + 1"
    "sf_heap ?g = (sf_heap g)(?c \<mapsto> new_call)" "sf_map ?g = (sf_map g)(k \<mapsto> ?c)"
    "sf_flights ?g = (sf_flights g)(?c \<mapsto> (k, t, None))"
    using None by (auto simp: do_enter_def sf_map_def Let_def set_pc_def split: option.splits)
  have fresh: "sf_flights g c = Some (j, l, out) \<Longrightarrow> c \<noteq> ?c" for c j l out
    using flight_inv [OF inv] by blast
  show ?thesis
    unfolding sf_inv_def
  proof (intro conjI allI impI)
    fix u
    have "leader_ok g u (sf_pc g u)" by (rule sf_inv_leader [OF inv])
    then show "leader_ok ?g u (sf_pc ?g u)"
      using None fresh by (cases "u = t"; cases "sf_pc g u") (auto simp: leader_ok_def eq)
  next
    fix j c assume "sf_map ?g j = Some c"
    then consider "j = k" "c = ?c" | "j \<noteq> k" "sf_map g j = Some c" by (auto simp: eq split: if_splits)
    then show "\<exists>u. owns (sf_pc ?g u) = Some (j, c)"
    proof cases
      case 2
      from map_owned [OF inv this(2)] obtain u where "owns (sf_pc g u) = Some (j, c)" by blast
      then show ?thesis using assms(2) by (intro exI [of _ u]) (auto simp: eq)
    qed (auto simp: eq intro: exI [of _ t])
  next
    fix c j l out assume "sf_flights ?g c = Some (j, l, out)"
    then consider "c = ?c" "j = k" "l = t" "out = None" | "c \<noteq> ?c" "sf_flights g c = Some (j, l, out)"
      by (auto simp: eq split: if_splits)
    then show "c < sf_next ?g" "flight_ok ?g c j l out"
      using flight_inv [OF inv, of c j l out] assms(2)
      by (cases; auto simp: eq flight_ok_def split: option.splits)+
  next
    fix u assume "sf_mu ?g = Some u"
    then show "sf_pc ?g u = InLock" using mu_holder [OF inv, of u] assms(3) by (auto simp: eq)
  next
    show "finite {u. \<forall>out. sf_pc ?g u \<noteq> Free out}"
      unfolding eq by (rule active_finite_upd [OF inv])
  qed
qed

lemma sf_step_inv:
  assumes inv: "sf_inv g" and step: "sf_step a g = Some g'"
  shows "sf_inv g'"
proof (cases a)
  case (DoEnter t k)
  then show ?thesis
    using step inv by (auto split: sf_pc.splits if_splits intro!: do_enter_inv)
next
  case (WaitReturn t)
  then obtain k c x where pc: "sf_pc g t = Waiting k c" and x: "sf_heap g c = Some x" "c_wg x = 0"
    using step by (auto split: sf_pc.splits option.splits if_splits)
  have g': "g' = set_pc t (Free (Some (Returned (c_val x) (c_err x)))) g"
    using step WaitReturn pc x by simp
  have "sf_mu g \<noteq> Some t" using mu_holder [OF inv, of t] pc by auto
  then show ?thesis
    unfolding g' using pc
    by (intro bystander_step [OF inv, of t "Free (Some (Returned (c_val x) (c_err x)))"])
      (auto simp: leader_ok_def)
next
  case (FnReturn t v e)
  then obtain k c where pc: "sf_pc g t = Running k c"
    using step by (auto split: sf_pc.splits)
  then have l: "sf_heap g c = Some new_call" "sf_map g k = Some c" "sf_flights g c = Some (k, t, None)"
    using sf_inv_leader [OF inv, of t] by (simp_all add: leader_ok_def)
  have g': "g' = set_pc t (Deferred k c (Returned v e)) (end_flight c (Returned v e)
      (g\<lparr>sf_heap := (sf_heap g)(c \<mapsto> call_of 1 (Returned v e))\<rparr>))"
    using step FnReturn pc l(1) by (simp add: new_call_def)
  show ?thesis
    unfolding g' using pc l
    by (intro owner_step [OF inv, of t k c])
      (auto simp: end_flight_flights leader_ok_def flight_ok_def)
next
  case (FnPanic t)
  then obtain k c where pc: "sf_pc g t = Running k c"
    using step by (auto split: sf_pc.splits)
  then have l: "sf_heap g c = Some new_call" "sf_map g k = Some c" "sf_flights g c = Some (k, t, None)"
    using sf_inv_leader [OF inv, of t] by (simp_all add: leader_ok_def)
  have g': "g' = set_pc t (Deferred k c Panicked) (end_flight c Panicked g)"
    using step FnPanic pc by simp
  show ?thesis
    unfolding g' using pc l
    by (intro owner_step [OF inv, of t k c, where x = new_call])
      (auto simp: end_flight_flights leader_ok_def flight_ok_def new_call_def)
next
  case (WgDone t)
  then obtain k c out where pc: "sf_pc g t = Deferred k c out"
    using step by (auto split: sf_pc.splits)
  then have l: "sf_heap g c = Some (call_of 1 out)" "sf_map g k = Some c"
    "sf_flights g c = Some (k, t, Some out)"
    using sf_inv_leader [OF inv, of t] by (simp_all add: leader_ok_def)
  have g': "g' = set_pc t (Deleting k c out) (g\<lparr>sf_heap := (sf_heap g)(c \<mapsto> call_of 0 out)\<rparr>)"
    using step WgDone pc l(1) by (cases out) simp_all
  show ?thesis
    unfolding g' using pc l
    by (intro owner_step [OF inv, of t k c, where out = "Some out"])
      (auto simp: leader_ok_def flight_ok_def)
next
  case (DeleteKey t)
  then obtain k c out where pc: "sf_pc g t = Deleting k c out"
    using step by (auto split: sf_pc.splits)
  then have l: "sf_heap g c = Some (call_of 0 out)" "sf_map g k = Some c"
    "sf_flights g c = Some (k, t, Some out)"
    using sf_inv_leader [OF inv, of t] by (simp_all add: leader_ok_def)
  have g': "g' = set_pc t (Free (Some out)) (g\<lparr>sf_m := map_option (\<lambda>m. m(k := None)) (sf_m g)\<rparr>)"
    using step DeleteKey pc by (simp split: if_splits)
  have "sf_m g \<noteq> None" using l(2) by (auto simp: sf_map_def split: option.splits)
  then show ?thesis
    unfolding g' using pc l
    by (intro owner_step [OF inv, of t k c, where out = "Some out" and x = "call_of 0 out"])
      (auto simp: leader_ok_def flight_ok_def)
next
  case (LockEnter t)
  then show ?thesis
    using step
    by (auto split: sf_pc.splits if_splits simp: leader_ok_def intro!: bystander_step [OF inv, of t])
next
  case (LockExit t)
  then have "sf_pc g t = InLock" using step by (auto split: sf_pc.splits)
  moreover from this have "sf_mu g = Some t"
    using sf_inv_leader [OF inv, of t] by (simp add: leader_ok_def)
  ultimately show ?thesis
    using step LockExit by (auto simp: leader_ok_def intro!: bystander_step [OF inv, of t])
qed

lemma sf_new_inv: "sf_inv sf_new"
  by (simp add: sf_inv_def sf_new_def leader_ok_def sf_map_def)

lemma sf_reach_inv: "sf_reach g \<Longrightarrow> sf_inv g"
  by (induction rule: sf_reach.induct) (auto intro: sf_new_inv sf_step_inv)

lemma sf_run_append:
  "sf_run (as @ bs) g = (case sf_run as g of None \<Rightarrow> None | Some g' \<Rightarrow> sf_run bs g')"
  by (induction as arbitrary: g) (auto split: option.split)

lemma sf_run_reach: "sf_run as g = Some g' \<Longrightarrow> sf_reach g \<Longrightarrow> sf_reach g'"
  by (induction as arbitrary: g) (auto split: option.splits intro: sf_reach.sf_next)

section \<open>Progress\<close>

text \<open>The steps the group takes by itself, without \<open>fn\<close> returning or a new call coming in.\<close>

fun internal :: "'v sf_action \<Rightarrow> bool" where
  "internal (WaitReturn t) = True"
| "internal (WgDone t) = True"
| "internal (DeleteKey t) = True"
| "internal _ = False"

text \<open>The internal steps a goroutine still has to take.\<close>

fun pc_weight :: "'v sf_pc \<Rightarrow> nat" where
  "pc_weight (Waiting k c) = 1"
| "pc_weight (Deferred k c out) = 2"
| "pc_weight (Deleting k c out) = 1"
| "pc_weight _ = 0"

definition sf_work :: "'v sf_group \<Rightarrow> nat" where
  "sf_work g = (\<Sum>t | pc_weight (sf_pc g t) \<noteq> 0. pc_weight (sf_pc g t))"

definition at_rest :: "'v sf_group \<Rightarrow> bool" where
  "at_rest g \<longleftrightarrow> sf_mu g = None \<and> (\<forall>t k c. sf_pc g t \<noteq> Running k c)"

lemma working_finite: "sf_inv g \<Longrightarrow> finite {t. pc_weight (sf_pc g t) \<noteq> 0}"
  by (rule finite_subset [OF _ active_finite]) auto

lemma sf_work_less:
  assumes "sf_inv g" "sf_pc g' = (sf_pc g)(t := pc')" "pc_weight pc' < pc_weight (sf_pc g t)"
  shows "sf_work g' < sf_work g"
proof -
  let ?W = "{t. pc_weight (sf_pc g t) \<noteq> 0}"
  have fin: "finite ?W" using working_finite [OF assms(1)] .
  have "sf_work g' = (\<Sum>u\<in>?W. pc_weight (sf_pc g' u))"
    unfolding sf_work_def using fin assms(2,3) by (intro sum.mono_neutral_left) auto
  also have "\<dots> < (\<Sum>u\<in>?W. pc_weight (sf_pc g u))"
    using fin assms(2,3) by (intro sum_strict_mono_ex1) auto
  finally show ?thesis by (simp add: sf_work_def)
qed

definition all_free :: "'v sf_group \<Rightarrow> bool" where
  "all_free g \<longleftrightarrow> (\<forall>t. \<exists>out. sf_pc g t = Free out)"

lemma sf_progress:
  assumes inv: "sf_inv g" and rest: "at_rest g" and "\<not> all_free g"
  shows "\<exists>a g'. internal a \<and> sf_step a g = Some g' \<and> at_rest g' \<and> sf_work g' < sf_work g"
proof -
  have wg: "\<exists>a g'. internal a \<and> sf_step a g = Some g' \<and> at_rest g' \<and> sf_work g' < sf_work g"
    if pc: "sf_pc g l = Deferred k c out" for l k c out
  proof -
    have "sf_heap g c = Some (call_of 1 out)"
      using sf_inv_leader [OF inv, of l] pc by (simp add: leader_ok_def)
    then show ?thesis
      using pc rest
      by (intro exI [of _ "WgDone l"]) (auto simp: at_rest_def intro: sf_work_less [OF inv])
  qed
  obtain t where t: "\<And>out. sf_pc g t \<noteq> Free out" using assms(3) by (auto simp: all_free_def)
  have l: "leader_ok g t (sf_pc g t)" by (rule sf_inv_leader [OF inv])
  show ?thesis
  proof (cases "sf_pc g t")
    case (Waiting k c)
    then obtain u out where f: "sf_flights g c = Some (k, u, out)"
      using l by (auto simp: leader_ok_def)
    then have "flight_ok g c k u out" using flight_inv [OF inv] by blast
    then consider o' where "sf_pc g u = Deferred k c o'" | o' where "sf_heap g c = Some (call_of 0 o')"
      using rest by (auto simp: flight_ok_def at_rest_def split: option.splits)
    then show ?thesis
    proof cases
      case 2
      have "c_wg (call_of 0 o') = 0" by (cases o') simp_all
      then show ?thesis
        using Waiting 2 rest
        by (intro exI [of _ "WaitReturn t"]) (auto simp: at_rest_def intro: sf_work_less [OF inv])
    qed (rule wg)
  next
    case (Deleting k c out)
    then show ?thesis
      using rest
      by (intro exI [of _ "DeleteKey t"]) (auto simp: at_rest_def intro: sf_work_less [OF inv])
  qed (use t l rest wg in \<open>auto simp: at_rest_def leader_ok_def\<close>)
qed

lemma sf_drain:
  assumes "sf_inv g" "at_rest g"
  shows "\<exists>as g'. list_all internal as \<and> sf_run as g = Some g' \<and> sf_inv g' \<and> all_free g'"
  using assms
proof (induction "sf_work g" arbitrary: g rule: less_induct)
  case less
  show ?case
  proof (cases "all_free g")
    case True
    then show ?thesis using less.prems by (intro exI [of _ "[]"]) simp
  next
    case False
    then obtain a g1 where a: "internal a" "sf_step a g = Some g1" "at_rest g1" "sf_work g1 < sf_work g"
      using sf_progress less.prems by blast
    with less.hyps [OF a(4) sf_step_inv [OF less.prems(1) a(2)] a(3)] obtain as g'
      where "list_all internal as" "sf_run as g1 = Some g'" "sf_inv g'" "all_free g'" by blast
    then show ?thesis using a by (intro exI [of _ "a # as"]) auto
  qed
qed

lemma all_free_empty: "sf_inv g \<Longrightarrow> all_free g \<Longrightarrow> sf_map g = Map.empty"
proof
  fix k assume "sf_inv g" "all_free g"
  then show "sf_map g k = None"
  proof (cases "sf_map g k")
    case (Some c)
    then obtain t where "owns (sf_pc g t) = Some (k, c)" using map_owned \<open>sf_inv g\<close> by blast
    moreover obtain out where "sf_pc g t = Free out" using \<open>all_free g\<close> by (auto simp: all_free_def)
    ultimately show ?thesis by simp
  qed
qed

section \<open>Properties\<close>

text \<open>C26.  Duplicate suppression: in every reachable state at most one goroutine is executing the
  function for a key.\<close>

theorem sf_one_flight:
  assumes "sf_reach g" "sf_pc g t = Running k c" "sf_pc g t' = Running k c'"
  shows "t = t'"
  using owner_unique [OF sf_reach_inv [OF assms(1)], of t k c t' k c'] assms(2,3) by simp

theorem sf_one_flight_witness:
  "\<exists>g. sf_run [DoEnter 0 ''k'', DoEnter 1 ''k'', DoEnter 2 ''j''] (sf_new :: nat sf_group) = Some g \<and>
     (\<forall>t c. sf_pc g t = Running ''k'' c \<longrightarrow> t = 0)"
proof -
  obtain g where g: "sf_run [DoEnter 0 ''k'', DoEnter 1 ''k'', DoEnter 2 ''j'']
      (sf_new :: nat sf_group) = Some g" "sf_pc g 0 = Running ''k'' 0"
    by (simp add: sf_new_def do_enter_def set_pc_def)
  have "sf_reach g" using sf_run_reach [OF g(1)] sf_reach.sf_init by blast
  from sf_one_flight [OF this _ g(2)] show ?thesis using g(1) by blast
qed

text \<open>C25.  Sharing of results: a goroutine that joined a flight comes back with what the leader's
  function returned for the same key, and with the error \<open>singleflight leader panicked\<close> if that
  function panicked; it never comes back while the function is still running.\<close>

theorem sf_shared_result:
  assumes "sf_reach g" "sf_pc g t = Waiting k c" "sf_step (WaitReturn t) g = Some g'"
  shows "\<exists>l out. sf_flights g c = Some (k, l, Some out) \<and>
    sf_pc g' t = Free (Some (case out of
        Returned v e \<Rightarrow> Returned v e
      | Panicked \<Rightarrow> Returned None (Some (ErrString ''singleflight leader panicked''))))"
proof -
  have inv: "sf_inv g" by (rule sf_reach_inv [OF assms(1)])
  obtain x where x: "sf_heap g c = Some x" "c_wg x = 0"
    "g' = set_pc t (Free (Some (Returned (c_val x) (c_err x)))) g"
    using assms(2,3) by (auto split: option.splits if_splits)
  obtain l out where f: "sf_flights g c = Some (k, l, out)"
    using sf_inv_leader [OF inv, of t] assms(2) by (auto simp: leader_ok_def)
  have ok: "flight_ok g c k l out" using flight_inv [OF inv f] by simp
  have lo: "leader_ok g l (sf_pc g l)" by (rule sf_inv_leader [OF inv])
  obtain u where u: "out = Some u" "x = call_of 0 u"
  proof (cases out)
    case None
    then have "x = new_call" using ok lo x(1) by (simp add: flight_ok_def leader_ok_def)
    then show ?thesis using x(2) by (simp add: new_call_def)
  next
    case (Some u)
    have "c_wg (call_of 1 u) = 1" by (cases u) simp_all
    then show ?thesis
      using Some ok lo x(1,2) that [of u] by (auto simp: flight_ok_def leader_ok_def)
  qed
  then show ?thesis using f x(3) by (cases u) (auto simp: errPanicked_def)
qed

theorem sf_shared_result_witness:
  "\<exists>g g'. sf_run [DoEnter 0 ''k'', DoEnter 1 ''k'', FnPanic 0, WgDone 0] (sf_new :: nat sf_group) = Some g
     \<and> sf_step (WaitReturn 1) g = Some g' \<and>
     sf_pc g' 1 = Free (Some (Returned None (Some (ErrString ''singleflight leader panicked''))))"
proof -
  obtain g g' where g: "sf_run [DoEnter 0 ''k'', DoEnter 1 ''k'', FnPanic 0, WgDone 0]
      (sf_new :: nat sf_group) = Some g" "sf_pc g 1 = Waiting ''k'' 0"
    "sf_flights g 0 = Some (''k'', 0, Some Panicked)" "sf_step (WaitReturn 1) g = Some g'"
    by (simp add: sf_new_def do_enter_def set_pc_def end_flight_def new_call_def)
  have "sf_reach g" using sf_run_reach [OF g(1)] sf_reach.sf_init by blast
  from sf_shared_result [OF this g(2,4)] show ?thesis using g by auto
qed

text \<open>C27.  No lost wake-up and no leaked key: from every reachable state in which no function is
  running and the mutex is free, the goroutines inside \<open>Do\<close> can all return by steps of their own,
  after which no key is marked as in flight; no panic of \<open>fn\<close> prevents it.\<close>

theorem sf_drains:
  assumes "sf_reach g" "sf_mu g = None" "\<forall>t k c. sf_pc g t \<noteq> Running k c"
  shows "\<exists>as g'. list_all internal as \<and> sf_run as g = Some g' \<and>
    (\<forall>t. \<exists>out. sf_pc g' t = Free out) \<and> sf_map g' = Map.empty"
proof -
  have "at_rest g" using assms(2,3) by (simp add: at_rest_def)
  from sf_drain [OF sf_reach_inv [OF assms(1)] this] show ?thesis
    using all_free_empty by (auto simp: all_free_def)
qed

theorem sf_drains_witness:
  "\<exists>g as g'. sf_run [DoEnter 0 ''k'', DoEnter 1 ''k'', FnPanic 0] (sf_new :: nat sf_group) = Some g \<and>
     sf_run as g = Some g' \<and> sf_map g' = Map.empty"
proof -
  obtain g where g: "sf_run [DoEnter 0 ''k'', DoEnter 1 ''k'', FnPanic 0]
      (sf_new :: nat sf_group) = Some g" "sf_mu g = None" "\<forall>t k c. sf_pc g t \<noteq> Running k c"
    by (simp add: sf_new_def do_enter_def set_pc_def end_flight_def new_call_def)
  have "sf_reach g" using sf_run_reach [OF g(1)] sf_reach.sf_init by blast
  from sf_drains [OF this g(2,3)] show ?thesis using g(1) by blast
qed

lemma in_lock_mu: "sf_inv g \<Longrightarrow> sf_pc g t = InLock \<Longrightarrow> sf_mu g = Some t"
  using sf_inv_leader [of g t] by (simp add: leader_ok_def)

lemma end_flight_dom: "dom (sf_flights (end_flight c out g)) = dom (sf_flights g)"
  by (rule set_eqI) (simp add: end_flight_def domIff)

lemma in_lock_step:
  assumes "sf_inv g" "sf_pc g t = InLock" "sf_step a g = Some g'" "a \<noteq> LockExit t"
  shows "sf_pc g' t = InLock" "sf_map g' = sf_map g" "dom (sf_flights g') = dom (sf_flights g)"
proof -
  have mu: "sf_mu g = Some t" by (rule in_lock_mu [OF assms(1,2)])
  have other: "sf_pc g u \<noteq> InLock" if "u \<noteq> t" for u
    using in_lock_mu [OF assms(1), of u] mu that by auto
  have "sf_pc g' t = InLock \<and> sf_map g' = sf_map g \<and> dom (sf_flights g') = dom (sf_flights g)"
  proof (cases a)
    case (LockExit u)
    then show ?thesis using assms(3,4) other [of u] by (simp split: sf_pc.splits)
  next
    case (FnReturn u v e)
    then show ?thesis
      using assms(2,3) by (cases "u = t") (auto simp: end_flight_dom split: sf_pc.splits option.splits del: equalityI)
  next
    case (FnPanic u)
    then show ?thesis
      using assms(2,3) by (cases "u = t") (auto simp: end_flight_dom split: sf_pc.splits del: equalityI)
  qed (use assms(2,3) mu in \<open>auto split: sf_pc.splits option.splits if_splits\<close>)
  then show "sf_pc g' t = InLock" "sf_map g' = sf_map g" "dom (sf_flights g') = dom (sf_flights g)"
    by simp_all
qed

lemma in_lock_run:
  assumes "sf_reach g" "sf_pc g t = InLock" "sf_run as g = Some g'" "LockExit t \<notin> set as"
  shows "sf_pc g' t = InLock \<and> sf_map g' = sf_map g \<and> dom (sf_flights g') = dom (sf_flights g)"
  using assms
proof (induction as arbitrary: g)
  case (Cons a as)
  then obtain h where h: "sf_step a g = Some h" "sf_run as h = Some g'"
    by (auto split: option.splits)
  have "a \<noteq> LockExit t" using Cons.prems(4) by auto
  note step = in_lock_step [OF sf_reach_inv [OF Cons.prems(1)] Cons.prems(2) h(1) this]
  show ?case
    using Cons.IH [OF sf_reach.sf_next [OF Cons.prems(1) h(1)] step(1) h(2)] step Cons.prems(4) by simp
qed simp

text \<open>C28.  What \<open>Lock\<close> excludes.  While a goroutine is inside it nobody else enters \<open>Lock\<close>, no call of
  \<open>Do\<close> gets past its first statement and none can remove its key: until that goroutine leaves, whatever
  the others do, it stays inside, no flight starts and the keys with a flight stay the same.  But a
  flight that has already started goes on: the function of a leader can be running, and can return,
  while another goroutine is inside \<open>Lock\<close>.\<close>

theorem sf_lock_excludes_starts_only:
  "(\<forall>(g :: nat sf_group) t. sf_reach g \<and> sf_pc g t = InLock \<longrightarrow>
      (\<forall>u k. sf_step (LockEnter u) g = None \<and> sf_step (DoEnter u k) g = None \<and>
         sf_step (DeleteKey u) g = None) \<and>
      (\<forall>as g'. sf_run as g = Some g' \<and> LockExit t \<notin> set as \<longrightarrow>
         sf_pc g' t = InLock \<and> sf_map g' = sf_map g \<and> dom (sf_flights g') = dom (sf_flights g))) \<and>
   (\<exists>g g' t u k c v. sf_reach (g :: nat sf_group) \<and> sf_pc g t = InLock \<and> sf_pc g u = Running k c \<and>
      sf_step (FnReturn u (Some v) None) g = Some g' \<and> sf_pc g' t = InLock)"
proof (rule conjI, intro allI impI)
  fix g :: "nat sf_group" and t
  assume g: "sf_reach g \<and> sf_pc g t = InLock"
  then have "sf_mu g = Some t" using in_lock_mu sf_reach_inv by blast
  then have "\<forall>u k. sf_step (LockEnter u) g = None \<and> sf_step (DoEnter u k) g = None \<and>
      sf_step (DeleteKey u) g = None"
    by (simp split: sf_pc.split)
  then show "(\<forall>u k. sf_step (LockEnter u) g = None \<and> sf_step (DoEnter u k) g = None \<and>
         sf_step (DeleteKey u) g = None) \<and>
      (\<forall>as g'. sf_run as g = Some g' \<and> LockExit t \<notin> set as \<longrightarrow>
         sf_pc g' t = InLock \<and> sf_map g' = sf_map g \<and> dom (sf_flights g') = dom (sf_flights g))"
    using in_lock_run g by blast
next
  obtain g where g: "sf_run [DoEnter 0 ''k'', LockEnter 1] (sf_new :: nat sf_group) = Some g"
    "sf_pc g 1 = InLock" "sf_pc g 0 = Running ''k'' 0" "sf_heap g 0 = Some new_call"
    by (simp add: sf_new_def do_enter_def set_pc_def)
  have "sf_reach g" using sf_run_reach [OF g(1)] sf_reach.sf_init by blast
  moreover obtain g' where "sf_step (FnReturn 0 (Some 7) None) g = Some g'" "sf_pc g' 1 = InLock"
    using g(2-4) by simp
  ultimately show "\<exists>g g' t u k c v. sf_reach (g :: nat sf_group) \<and> sf_pc g t = InLock \<and>
      sf_pc g u = Running k c \<and> sf_step (FnReturn u (Some v) None) g = Some g' \<and>
      sf_pc g' t = InLock"
    using g(2,3) by blast
qed

theorem sf_lock_witness:
  "\<exists>g. sf_run [LockEnter 1] (sf_new :: nat sf_group) = Some g \<and> sf_step (DoEnter 0 ''k'') g = None"
proof -
  obtain g where g: "sf_run [LockEnter 1] (sf_new :: nat sf_group) = Some g" "sf_pc g 1 = InLock"
    by (simp add: sf_new_def set_pc_def)
  have "sf_reach g" using sf_run_reach [OF g(1)] sf_reach.sf_init by blast
  then show ?thesis using g sf_lock_excludes_starts_only by blast
qed

end
