(* ===== verification/Tracing.thy ===== *)
theory Tracing
  imports HttpLaws
begin

text \<open>
  Tracing of the HTTP client, src/transport/tracer.go and the spans of src/transport/http_transport.go.
  The tracing library is a table of the methods the code calls, over a state of its own.  A
  \<open>sync.Pool\<close> of slices is a memory of slices with the references that are free; which of them \<open>Get\<close>
  takes, or whether it makes a new one, is a parameter.
\<close>

section \<open>Pools of slices\<close>

record 'a pool =
  pl_data :: "nat \<Rightarrow> 'a list"
  pl_next :: nat
  pl_free :: "nat list"

definition new_pool :: "'a pool" where
  "new_pool = \<lparr>pl_data = (\<lambda>_. []), pl_next = 0, pl_free = []\<rparr>"

definition pool_Get :: "(nat list \<Rightarrow> nat option) \<Rightarrow> 'a pool \<Rightarrow> nat \<times> 'a pool" where
  "pool_Get pick p =
     (let fresh = (pl_next p, p\<lparr>pl_data := (pl_data p)(pl_next p := []), pl_next := Suc (pl_next p)\<rparr>)
      in case pick (pl_free p) of
           None \<Rightarrow> fresh
         | Some b \<Rightarrow> if b \<in> set (pl_free p) then (b, p\<lparr>pl_free := remove1 b (pl_free p)\<rparr>) else fresh)"

definition pool_Put :: "nat \<Rightarrow> 'a pool \<Rightarrow> 'a pool" where
  "pool_Put b p = p\<lparr>pl_free := b # pl_free p\<rparr>"

section \<open>The tracer\<close>

datatype span_kind = SpanKindClient
datatype status_code = StatusError | StatusOk
datatype 'kv span_option = WithAttributes "'kv list" | WithSpanKind span_kind

record ('tp, 'tr, 'kv) Tracer =
  tr_traceProvider :: 'tp
  tr_tracer :: "'tr option"
  tr_traceAttributes :: "'kv list"

type_synonym ('tp, 'tr, 'kv) TracerOption = "('tp, 'tr, 'kv) Tracer \<Rightarrow> ('tp, 'tr, 'kv) Tracer"

record 'kv tracer_pools =
  tp_spanStartOptions :: "'kv span_option pool"
  tp_attributes :: "'kv pool"

definition WithTraceProvider :: "'tp option \<Rightarrow> ('tp, 'tr, 'kv) TracerOption" where
  "WithTraceProvider tp = (\<lambda>t. case tp of Some p \<Rightarrow> t\<lparr>tr_traceProvider := p\<rparr> | None \<Rightarrow> t)"

definition WithTracerAttributes :: "'kv list \<Rightarrow> ('tp, 'tr, 'kv) TracerOption" where
  "WithTracerAttributes attrs = (\<lambda>t. t\<lparr>tr_traceAttributes := tr_traceAttributes t @ attrs\<rparr>)"

definition NewTracer ::
  "'tp \<Rightarrow> ('tp \<Rightarrow> string \<Rightarrow> 'tr) \<Rightarrow> ('tp, 'tr, 'kv) TracerOption list \<Rightarrow>
   ('tp, 'tr, 'kv) Tracer \<times> 'kv tracer_pools" where
  "NewTracer otelProvider tracerOf opts =
     (let t = foldl (\<lambda>t opt. opt t)
                \<lparr>tr_traceProvider = otelProvider, tr_tracer = None, tr_traceAttributes = []\<rparr> opts
      in (t\<lparr>tr_tracer := Some (tracerOf (tr_traceProvider t)
              ''github.com/groupcache/groupcache-go/instrumentation/otel'')\<rparr>,
          \<lparr>tp_spanStartOptions = new_pool, tp_attributes = new_pool\<rparr>))"

definition getTracer :: "('tp, 'tr, 'kv) Tracer \<Rightarrow> 'tr option" where
  "getTracer t = tr_tracer t"

definition getSpanStartOptions ::
  "(nat list \<Rightarrow> nat option) \<Rightarrow> 'kv tracer_pools \<Rightarrow> nat \<times> 'kv tracer_pools" where
  "getSpanStartOptions pick ps =
     (case pool_Get pick (tp_spanStartOptions ps) of (b, p) \<Rightarrow> (b, ps\<lparr>tp_spanStartOptions := p\<rparr>))"

definition putSpanStartOptions :: "nat \<Rightarrow> 'kv tracer_pools \<Rightarrow> 'kv tracer_pools" where
  "putSpanStartOptions b ps =
     (let p = tp_spanStartOptions ps
      in ps\<lparr>tp_spanStartOptions := pool_Put b (p\<lparr>pl_data := (pl_data p)(b := take 0 (pl_data p b))\<rparr>)\<rparr>)"

definition getAttributes ::
  "(nat list \<Rightarrow> nat option) \<Rightarrow> 'kv tracer_pools \<Rightarrow> nat \<times> 'kv tracer_pools" where
  "getAttributes pick ps =
     (case pool_Get pick (tp_attributes ps) of (b, p) \<Rightarrow> (b, ps\<lparr>tp_attributes := p\<rparr>))"

definition putAttributes :: "nat \<Rightarrow> 'kv tracer_pools \<Rightarrow> 'kv tracer_pools" where
  "putAttributes b ps =
     (let p = tp_attributes ps
      in ps\<lparr>tp_attributes := pool_Put b (p\<lparr>pl_data := (pl_data p)(b := take 0 (pl_data p b))\<rparr>)\<rparr>)"

text \<open>A tracer has all the attributes it was given, in order.\<close>

lemma NewTracer_attributes:
  fixes tp :: 'tp and f :: "'tp \<Rightarrow> string \<Rightarrow> 'tr" and attrs :: "'kv list list"
  shows "tr_traceAttributes (fst (NewTracer tp f (map WithTracerAttributes attrs))) = concat attrs"
proof -
  have "tr_traceAttributes (foldl (\<lambda>t opt. opt t) t (map WithTracerAttributes attrs)) =
      tr_traceAttributes t @ concat attrs" for t :: "('tp, 'tr, 'kv) Tracer"
    by (induction attrs arbitrary: t) (simp_all add: WithTracerAttributes_def)
  then show ?thesis by (simp add: NewTracer_def Let_def)
qed

section \<open>Spans\<close>

record ('tr, 'sp, 'kv, 'x) trace_lib =
  ts_Start :: "'tr option \<Rightarrow> string \<Rightarrow> 'kv span_option list \<Rightarrow> 'x \<Rightarrow> 'sp \<times> 'x"
  ts_End :: "'sp \<Rightarrow> 'x \<Rightarrow> 'x"
  ts_IsRecording :: "'sp \<Rightarrow> 'x \<Rightarrow> bool"
  ts_RecordError :: "'sp \<Rightarrow> goerr \<Rightarrow> 'x \<Rightarrow> 'x"
  ts_SetStatus :: "'sp \<Rightarrow> status_code \<Rightarrow> string \<Rightarrow> 'x \<Rightarrow> 'x"

text \<open>\<open>startSpan\<close>; the closure it returns is the span with the slices to give back, or nothing.\<close>

definition startSpan ::
  "(nat list \<Rightarrow> nat option) \<Rightarrow> ('tr, 'sp, 'kv, 'x) trace_lib \<Rightarrow> ('tp, 'tr, 'kv) Tracer option \<Rightarrow> string \<Rightarrow>
   'kv tracer_pools \<times> 'x \<Rightarrow> ('sp \<times> nat \<times> nat) option \<times> 'kv tracer_pools \<times> 'x" where
  "startSpan pick lib tracer spanName s =
     (case tracer of
        None \<Rightarrow> (None, s)
      | Some t \<Rightarrow>
          (case getSpanStartOptions pick (fst s) of (spanOptions, ps1) \<Rightarrow>
           case getAttributes pick ps1 of (attributes, ps2) \<Rightarrow>
             let opts = take 0 (pl_data (tp_spanStartOptions ps2) spanOptions);
                 attrs = take 0 (pl_data (tp_attributes ps2) attributes);
                 attrs = (if 0 < length (tr_traceAttributes t) then attrs @ tr_traceAttributes t else attrs);
                 opts = (if 0 < length attrs then opts @ [WithAttributes attrs] else opts);
                 opts = opts @ [WithSpanKind SpanKindClient]
             in case ts_Start lib (getTracer t) spanName opts (snd s) of
                  (span, x) \<Rightarrow> (Some (span, spanOptions, attributes), ps2, x)))"

definition endSpan ::
  "('tr, 'sp, 'kv, 'x) trace_lib \<Rightarrow> ('sp \<times> nat \<times> nat) option \<Rightarrow> 'kv tracer_pools \<times> 'x \<Rightarrow> 'kv tracer_pools \<times> 'x" where
  "endSpan lib k s =
     (case k of
        None \<Rightarrow> s
      | Some (span, spanOptions, attributes) \<Rightarrow>
          (putAttributes attributes (putSpanStartOptions spanOptions (fst s)), ts_End lib span (snd s)))"

definition recordSpanError ::
  "('tr, 'sp, 'kv, 'x) trace_lib \<Rightarrow> 'sp option \<Rightarrow> goerr option \<Rightarrow> 'x \<Rightarrow> goerr option \<times> 'x" where
  "recordSpanError lib span err x =
     (case err of
        None \<Rightarrow> (None, x)
      | Some e \<Rightarrow>
          (case span of
             Some sp \<Rightarrow>
               if ts_IsRecording lib sp x
               then (err, ts_SetStatus lib sp StatusError (Error e) (ts_RecordError lib sp e x))
               else (err, x)
           | None \<Rightarrow> (err, x)))"

definition markSpanOK :: "('tr, 'sp, 'kv, 'x) trace_lib \<Rightarrow> 'sp option \<Rightarrow> 'x \<Rightarrow> 'x" where
  "markSpanOK lib span x =
     (case span of
        Some sp \<Rightarrow> if ts_IsRecording lib sp x then ts_SetStatus lib sp StatusOk ''OK'' x else x
      | None \<Rightarrow> x)"

text \<open>A method of the client inside its span: it returns an error through \<open>recordSpanError\<close>, or marks
  the span and returns nil, and the span ends when it returns.\<close>

definition traced ::
  "(nat list \<Rightarrow> nat option) \<Rightarrow> ('tr, 'sp, 'kv, 'x) trace_lib \<Rightarrow> ('tp, 'tr, 'kv) Tracer option \<Rightarrow> string \<Rightarrow>
   ('w \<Rightarrow> goerr option \<times> 'r \<times> 'w) \<Rightarrow> ('kv tracer_pools \<times> 'x) \<times> 'w \<Rightarrow>
   goerr option \<times> 'r \<times> ('kv tracer_pools \<times> 'x) \<times> 'w" where
  "traced pick lib tracer spanName body s =
     (case startSpan pick lib tracer spanName (fst s) of (k, ps, x) \<Rightarrow>
      case body (snd s) of (err, r, w) \<Rightarrow>
        let span = map_option fst k;
            (err', x') = (case err of
                            Some e \<Rightarrow> recordSpanError lib span (Some e) x
                          | None \<Rightarrow> (None, markSpanOK lib span x))
        in (err', r, endSpan lib k (ps, x'), w))"

definition traced_ops ::
  "(nat list \<Rightarrow> nat option) \<Rightarrow> ('tr, 'sp, 'kv, 'x) trace_lib \<Rightarrow> ('tp, 'tr, 'kv) Tracer option \<Rightarrow>
   'w network \<Rightarrow> wire \<Rightarrow> (HttpClient, ('kv tracer_pools \<times> 'x) \<times> 'w) Client" where
  "traced_ops pick lib tracer Do wire =
     (let call = (\<lambda>name body s. case traced pick lib tracer name (\<lambda>w. case body w of (err, w') \<Rightarrow> (err, (), w')) s of
                    (err, _, s') \<Rightarrow> (err, s'))
      in \<lparr>Client_Get = (\<lambda>h req out. traced pick lib tracer ''GroupCache.Get'' (HttpClient_Get Do wire h req out)),
          Client_Remove = (\<lambda>h req. call ''GroupCache.Remove'' (HttpClient_Remove Do h req)),
          Client_Set = (\<lambda>h req. call ''GroupCache.Set'' (HttpClient_Set Do wire h req)),
          Client_RemoveKeys = (\<lambda>h req. call ''GroupCache.RemoveKeys'' (HttpClient_RemoveKeys Do wire h req)),
          Client_PeerInfo = HttpClient_PeerInfo, Client_HashKey = HttpClient_HashKey\<rparr>)"

section \<open>One span for every call\<close>

text \<open>The calls that reach the tracing library, in order; \<open>events\<close> is such a record for a library.\<close>

datatype ('sp, 'kv) trace_event =
  Started 'sp string "'kv span_option list" | ErrorRecorded 'sp goerr | StatusSet 'sp status_code string | Ended 'sp

definition trace_log :: "('tr, 'sp, 'kv, 'x) trace_lib \<Rightarrow> ('x \<Rightarrow> ('sp, 'kv) trace_event list) \<Rightarrow> bool" where
  "trace_log lib events \<longleftrightarrow>
     (\<forall>tr n opts x sp x'. ts_Start lib tr n opts x = (sp, x') \<longrightarrow> events x' = events x @ [Started sp n opts]) \<and>
     (\<forall>sp x. events (ts_End lib sp x) = events x @ [Ended sp]) \<and>
     (\<forall>sp e x. events (ts_RecordError lib sp e x) = events x @ [ErrorRecorded sp e]) \<and>
     (\<forall>sp c m x. events (ts_SetStatus lib sp c m x) = events x @ [StatusSet sp c m])"

text \<open>The span of one call: started with the attributes of the tracer, given the status that belongs to
  the result exactly when the library records the span, and ended.  Without a tracer nothing happens.\<close>

definition outcome_events :: "'sp \<Rightarrow> goerr option \<Rightarrow> ('sp, 'kv) trace_event list" where
  "outcome_events sp err =
     (case err of
        Some e \<Rightarrow> [ErrorRecorded sp e, StatusSet sp StatusError (Error e)]
      | None \<Rightarrow> [StatusSet sp StatusOk ''OK''])"

definition span_options :: "('tp, 'tr, 'kv) Tracer \<Rightarrow> 'kv span_option list" where
  "span_options t =
     (if tr_traceAttributes t = [] then [] else [WithAttributes (tr_traceAttributes t)]) @ [WithSpanKind SpanKindClient]"

definition spanned ::
  "('tr, 'sp, 'kv, 'x) trace_lib \<Rightarrow> ('x \<Rightarrow> ('sp, 'kv) trace_event list) \<Rightarrow> ('tp, 'tr, 'kv) Tracer option \<Rightarrow>
   string \<Rightarrow> goerr option \<Rightarrow> 'kv tracer_pools \<times> 'x \<Rightarrow> 'kv tracer_pools \<times> 'x \<Rightarrow> bool" where
  "spanned lib events tracer name err s s' \<longleftrightarrow>
     (case tracer of
        None \<Rightarrow> s' = s
      | Some t \<Rightarrow>
          (case ts_Start lib (getTracer t) name (span_options t) (snd s) of (sp, started) \<Rightarrow>
             events (snd s') = events (snd s) @ [Started sp name (span_options t)] @
               (if ts_IsRecording lib sp started then outcome_events sp err else []) @ [Ended sp]))"

text \<open>The free slices of the pools are different and show nothing.\<close>

definition pool_ok :: "'a pool \<Rightarrow> bool" where
  "pool_ok p \<longleftrightarrow> distinct (pl_free p) \<and> (\<forall>b\<in>set (pl_free p). b < pl_next p \<and> pl_data p b = [])"

definition pools_ok :: "'kv tracer_pools \<Rightarrow> bool" where
  "pools_ok ps \<longleftrightarrow> pool_ok (tp_spanStartOptions ps) \<and> pool_ok (tp_attributes ps)"

text \<open>The slices that were made and are not free are in use.  A call gives everything back when the
  same slices are in use after it as before it, and the pools are in order.\<close>

definition in_use :: "'a pool \<Rightarrow> nat set" where
  "in_use p = {..<pl_next p} - set (pl_free p)"

definition pools_back :: "'kv tracer_pools \<Rightarrow> 'kv tracer_pools \<Rightarrow> bool" where
  "pools_back ps ps' \<longleftrightarrow> pools_ok ps' \<and>
     in_use (tp_spanStartOptions ps') = in_use (tp_spanStartOptions ps) \<and>
     in_use (tp_attributes ps') = in_use (tp_attributes ps)"

lemma pool_cycle:
  assumes "pool_ok p" "pool_Get pick p = (b, p')"
  shows "pool_ok (pool_Put b (p'\<lparr>pl_data := (pl_data p')(b := [])\<rparr>))"
    "in_use (pool_Put b (p'\<lparr>pl_data := (pl_data p')(b := [])\<rparr>)) = in_use p"
  using assms
  by (auto simp: pool_ok_def in_use_def pool_Get_def pool_Put_def Let_def distinct_remove1 set_remove1_eq less_Suc_eq
      split: option.splits if_splits)

lemma startSpan_spec:
  assumes "pools_ok ps" "startSpan pick lib (Some t) name (ps, x) = (k, ps1, x1)"
  shows "\<exists>sp b c. k = Some (sp, b, c) \<and> ts_Start lib (getTracer t) name (span_options t) x = (sp, x1) \<and>
    pools_back ps (putAttributes c (putSpanStartOptions b ps1))"
proof -
  obtain b p where b: "pool_Get pick (tp_spanStartOptions ps) = (b, p)" by fastforce
  obtain c q where c: "pool_Get pick (tp_attributes ps) = (c, q)" by fastforce
  obtain sp x' where sp: "ts_Start lib (getTracer t) name (span_options t) x = (sp, x')" by fastforce
  have run: "k = Some (sp, b, c)" "ps1 = ps\<lparr>tp_spanStartOptions := p, tp_attributes := q\<rparr>" "x1 = x'"
    using assms(2) b c sp
    by (auto simp: startSpan_def span_options_def getSpanStartOptions_def getAttributes_def Let_def split: if_splits)
  have "pools_back ps (putAttributes c (putSpanStartOptions b ps1))"
    using assms(1) pool_cycle [OF _ b] pool_cycle [OF _ c] run(2)
    by (simp add: pools_back_def pools_ok_def putAttributes_def putSpanStartOptions_def Let_def)
  then show ?thesis using run sp by auto
qed

lemma pools_back_refl: "pools_ok ps \<Longrightarrow> pools_back ps ps"
  by (simp add: pools_back_def)

lemma traced_spec:
  assumes "trace_log lib events" "pools_ok ps" "body w = (err, r, w')"
    and "traced pick lib tracer name body ((ps, x), w) = (err2, r2, s2, w2)"
  shows "err2 = err \<and> r2 = r \<and> w2 = w' \<and> spanned lib events tracer name err (ps, x) s2 \<and> pools_back ps (fst s2)"
proof (cases tracer)
  case None
  then show ?thesis
    using assms(3,4) pools_back_refl [OF assms(2)]
    by (auto simp: traced_def startSpan_def endSpan_def recordSpanError_def markSpanOK_def spanned_def Let_def
        split: option.splits)
next
  case (Some t)
  obtain k ps1 x1 where st: "startSpan pick lib (Some t) name (ps, x) = (k, ps1, x1)" by (metis prod.exhaust)
  from startSpan_spec [OF assms(2) st] obtain sp b c where k: "k = Some (sp, b, c)"
    "ts_Start lib (getTracer t) name (span_options t) x = (sp, x1)"
    "pools_back ps (putAttributes c (putSpanStartOptions b ps1))" by auto
  have x1: "events x1 = events x @ [Started sp name (span_options t)]"
    using assms(1) k(2) unfolding trace_log_def by blast
  let ?rec = "ts_IsRecording lib sp x1"
  define x2 where "x2 = (if ?rec
    then (case err of Some e \<Rightarrow> ts_SetStatus lib sp StatusError (Error e) (ts_RecordError lib sp e x1)
          | None \<Rightarrow> ts_SetStatus lib sp StatusOk ''OK'' x1) else x1)"
  have "events x2 = events x1 @ (if ?rec then outcome_events sp err else [])"
    using assms(1) by (auto simp: x2_def trace_log_def outcome_events_def split: option.split)
  moreover have "err2 = err" "r2 = r" "w2 = w'" and s2: "s2 = (putAttributes c (putSpanStartOptions b ps1), ts_End lib sp x2)"
    using assms(3,4) st k(1) Some
    by (auto simp: traced_def endSpan_def recordSpanError_def markSpanOK_def x2_def Let_def split: option.splits if_splits)
  moreover have "events (ts_End lib sp x2) = events x2 @ [Ended sp]" using assms(1) by (simp add: trace_log_def)
  ultimately show ?thesis using k(2,3) x1 Some by (simp add: spanned_def)
qed

lemma traced_call_spec:
  assumes "trace_log lib events" "pools_ok ps"
    and "(case traced pick lib tracer name (\<lambda>w. case body w of (err, w') \<Rightarrow> (err, (), w')) ((ps, x), w) of
            (err, _, s') \<Rightarrow> (err, s')) = (err, s, w')"
  shows "body w = (err, w') \<and> spanned lib events tracer name err (ps, x) s \<and> pools_back ps (fst s)"
proof -
  let ?body = "\<lambda>w. case body w of (err, w') \<Rightarrow> (err, (), w')"
  obtain e w1 where b: "body w = (e, w1)" by fastforce
  obtain u where "traced pick lib tracer name ?body ((ps, x), w) = (err, u, s, w')"
    using assms(3) by (auto split: prod.splits)
  from traced_spec [OF assms(1,2) _ this, of e "()" w1] b show ?thesis by simp
qed

text \<open>C20.  Tracing does not change what the client does: each of its four calls returns what it returns
  without a tracer and makes the same requests.  With a tracer it starts one span, with the attributes
  the tracer was made with and no others, gives it the status of the result exactly when the library
  says that the span is recorded, and ends it; and the slices it borrowed are back in their pools, empty:
  the same slices are in use after the call as before it.\<close>

theorem traced_calls:
  fixes lib :: "('tr, 'sp, 'kv, 'x) trace_lib" and tracer :: "('tp, 'tr, 'kv) Tracer option"
  assumes "trace_log lib events" "pools_ok ps"
  shows "(\<forall>greq out err out' s w'.
      Client_Get (traced_ops pick lib tracer Do wire) h greq out ((ps, x), w) = (err, out', s, w') \<longrightarrow>
      HttpClient_Get Do wire h greq out w = (err, out', w') \<and>
      spanned lib events tracer ''GroupCache.Get'' err (ps, x) s \<and> pools_back ps (fst s)) \<and>
    (\<forall>sreq err s w'. Client_Set (traced_ops pick lib tracer Do wire) h sreq ((ps, x), w) = (err, s, w') \<longrightarrow>
      HttpClient_Set Do wire h sreq w = (err, w') \<and>
      spanned lib events tracer ''GroupCache.Set'' err (ps, x) s \<and> pools_back ps (fst s)) \<and>
    (\<forall>greq err s w'. Client_Remove (traced_ops pick lib tracer Do wire) h greq ((ps, x), w) = (err, s, w') \<longrightarrow>
      HttpClient_Remove Do h greq w = (err, w') \<and>
      spanned lib events tracer ''GroupCache.Remove'' err (ps, x) s \<and> pools_back ps (fst s)) \<and>
    (\<forall>kreq err s w'. Client_RemoveKeys (traced_ops pick lib tracer Do wire) h kreq ((ps, x), w) = (err, s, w') \<longrightarrow>
      HttpClient_RemoveKeys Do wire h kreq w = (err, w') \<and>
      spanned lib events tracer ''GroupCache.RemoveKeys'' err (ps, x) s \<and> pools_back ps (fst s))"
proof (intro conjI allI impI)
  fix greq out err out' s w'
  assume g: "Client_Get (traced_ops pick lib tracer Do wire) h greq out ((ps, x), w) = (err, out', s, w')"
  obtain e o1 w1 where b: "HttpClient_Get Do wire h greq out w = (e, o1, w1)" by (metis prod.exhaust)
  from g have "traced pick lib tracer ''GroupCache.Get'' (HttpClient_Get Do wire h greq out) ((ps, x), w) = (err, out', s, w')"
    by (simp add: traced_ops_def Let_def)
  note t = traced_spec [OF assms b this]
  show "HttpClient_Get Do wire h greq out w = (err, out', w')" using b t by simp
  show "spanned lib events tracer ''GroupCache.Get'' err (ps, x) s" "pools_back ps (fst s)" using t by simp_all
qed (auto simp: traced_ops_def Let_def dest!: traced_call_spec [OF assms])

text \<open>A tracing library for examples: a span is its name, and it keeps the record of the calls.\<close>

definition demo_lib_trace :: "(unit, string, nat, (string, nat) trace_event list) trace_lib" where
  "demo_lib_trace =
     \<lparr>ts_Start = (\<lambda>tr n opts x. (n, x @ [Started n n opts])), ts_End = (\<lambda>sp x. x @ [Ended sp]),
      ts_IsRecording = (\<lambda>sp x. True), ts_RecordError = (\<lambda>sp e x. x @ [ErrorRecorded sp e]),
      ts_SetStatus = (\<lambda>sp c m x. x @ [StatusSet sp c m])\<rparr>"

definition demo_tracer :: "(unit, unit, nat) Tracer \<times> nat tracer_pools" where
  "demo_tracer = NewTracer () (\<lambda>_ _. ()) [WithTracerAttributes [7, 8]]"

theorem traced_calls_witness:
  "\<exists>s w'. Client_Remove (traced_ops (\<lambda>_. None) demo_lib_trace (Some (fst demo_tracer)) (\<lambda>r w. (Inl EOF, w)) demo_wire)
       (client_of demo_http (demo_peer ''b:80'')) (get_req ''g'' ''k'') ((snd demo_tracer, []), ()) = (Some EOF, s, w') \<and>
     spanned demo_lib_trace (\<lambda>x. x) (Some (fst demo_tracer)) ''GroupCache.Remove'' (Some EOF) (snd demo_tracer, []) s"
proof -
  have log: "trace_log demo_lib_trace (\<lambda>x. x)" by (simp add: trace_log_def demo_lib_trace_def)
  have ok: "pools_ok (snd demo_tracer)"
    by (simp add: demo_tracer_def NewTracer_def Let_def pools_ok_def pool_ok_def new_pool_def)
  let ?h = "client_of demo_http (demo_peer ''b:80'')" and ?Do = "\<lambda>r w. (Inl EOF, w)"
  obtain err s w' where c: "Client_Remove (traced_ops (\<lambda>_. None) demo_lib_trace (Some (fst demo_tracer)) ?Do demo_wire)
      ?h (get_req ''g'' ''k'') ((snd demo_tracer, []), ()) = (err, s, w')" by (metis prod.exhaust)
  from traced_calls [OF log ok, of "\<lambda>_. None" "Some (fst demo_tracer)" ?Do demo_wire ?h "[]" "()"] c
  have r: "HttpClient_Remove ?Do ?h (get_req ''g'' ''k'') () = (err, w')"
    "spanned demo_lib_trace (\<lambda>x. x) (Some (fst demo_tracer)) ''GroupCache.Remove'' err (snd demo_tracer, []) s" by blast+
  have "send_request ?Do m (hc_endpoint ?h @ PathEscape ''g'' @ ''/'' @ PathEscape ''k'') b () = (Inl EOF, ())" for m b
  proof -
    have un: "unescape (PathEscape ''k'') = Some ''k''" using unescape_PathEscape [of "''k''" "[]"] by simp
    show ?thesis
      unfolding send_request_def http_NewRequest_def url_Parse_client [OF demo_http_ok(2) PathEscape_plain un] by simp
  qed
  then have "err = Some EOF"
    using r(1) by (simp add: HttpClient_Remove_def makeRequest_def GetRequest_GetGroup_def GetRequest_GetKey_def)
  then show ?thesis using c r(2) by auto
qed

end
