(* ===== verification/Spec2Isabelle.thy ===== *)
theory Spec2Isabelle
  imports GroupRemove GroupSizes HttpSafety HttpServer Metrics MockTransport Otter SingleFlight Tracing
begin

text \<open>
  A verification development for groupcache-go (src/): a distributed, read-through cache.  Many
  processes each run an instance; the instances share out the keys of a group with a consistent hash
  ring, ask the owner of a key for its value over HTTP, and keep what they got in two caches.

  \<^bold>\<open>The parts and their theories.\<close>  From the bottom up:

  \<^item> Prelude, GoTime, GoStrings, Md5, GoMonad: what the code uses of Go.  \<open>int64\<close> is a 64-bit word with
    signed comparison and truncating division; a slice is a list of bytes or nil; \<open>time.Time\<close> is
    seconds and nanoseconds; a panic is the result \<open>Crash\<close> and a call that does not come back the
    result \<open>Hang\<close> of an action on a state.  Md5 computes \<open>md5.Sum\<close>; GoStrings has \<open>url.PathEscape\<close>, the
    decoding of URLs and \<open>strings.SplitN\<close>.  \<open>encode_expire\<close> and \<open>decode_expire\<close> of GoTime are the
    conversions of src/group.go and src/transport/http_transport.go.
  \<^item> Errors: src/errors.go and src/transport/errors.go, errors as values and \<open>errors.Is\<close> on them.
  \<^item> ByteView: src/transport/byteview.go.  Sinks: src/transport/sinks.go, the five sinks.
  \<^item> Lru: src/internal/lru/lru.go, a map of pointers into a list, with the callback on eviction.
    CacheApi: the interface \<open>Cache\<close> of src/cache.go with its contract as a locale.  MutexCache: the
    default cache of src/cache.go, which is shown to keep the contract.
  \<^item> SingleFlight: src/internal/singleflight/singleflight.go as a transition system over goroutines.
  \<^item> Peer: the messages of src/transport/pb and the clients of src/transport/peer/client.go.  Picker:
    the hash ring of src/transport/peer/picker.go, over a sort that is a parameter with its promise as
    a locale.
  \<^item> Stats: the counters of src/stats.go.  Group: every operation of src/group.go on values, as actions
    on the group and the world outside it; GroupSafety, GroupOps, GroupLaws, GroupRemove and GroupSizes
    prove what they do.
  \<^item> Instance: src/instance.go.  HttpTransport: the handler and the client of
    src/transport/http_transport.go; ServeMux: how the server cleans the path of a request; HttpLaws and
    HttpSafety prove what client and server do together.
  \<^item> Otter: the alternative cache of src/contrib/otter.go over the module otter, a table of methods with
    its promise \<open>otter_ok\<close>; it keeps the contract of caches.
  \<^item> Metrics: the meter, the instruments and their registration in src/stats.go and src/group.go, over a
    meter of OpenTelemetry, a table of methods with its promise \<open>meter_ok\<close>.
  \<^item> Daemon: src/daemon.go, with the contract of transports as a locale.  Cluster: src/cluster/cluster.go.
    MockTransport: src/transport/mock_transport.go, references into a memory of transports, which keeps
    the contract.
  \<^item> HttpServer: listening and shutting down of src/transport/http_transport.go, which keeps the contract
    of transports.  Tracing: src/transport/tracer.go and the spans of the HTTP client.

  \<^bold>\<open>How they interact.\<close>  \<open>group_Get\<close> looks into the two caches through the table of methods \<open>Cache\<close>, asks
  the owner given by the picker through the table \<open>Client\<close>, and falls back to its getter.  The HTTP
  client is one such table; over the network \<open>deliver\<close> its calls arrive at \<open>ServeHTTP\<close> of another
  instance, which calls the group there.  \<open>instance_SetPeers\<close> makes the ring from the clients of the
  transport.  The concurrency of \<open>singleflight.Do\<close> is proved in SingleFlight; for the group a call of
  \<open>Do\<close> is either the leader, which runs the function, or a follower, which is given the leader's
  result.  Goroutines that an operation starts and waits for run one after the other in the order of a
  schedule, which the theorems take as any order.

  \<^bold>\<open>What the theorems show.\<close>

  \<^item> Caches: the LRU refines a list in order of recency (\<open>lru_run_refines\<close>,
    \<open>lru_conservation\<close>), \<open>Clear\<close> and \<open>Len\<close> included; the default cache counts its bytes exactly
    and keeps its limit (\<open>mutex_accounting\<close>) and evicts no more than it must (\<open>mutex_Add_evicts\<close>); a negative limit makes
    it hang (\<open>mutex_Add_negative_diverges\<close>).
  \<^item> Single flight: one execution per key, shared results, no lost wake-up (\<open>sf_one_flight\<close>,
    \<open>sf_shared_result\<close>, \<open>sf_drains\<close>), and that \<open>Lock\<close> stops flights from
    starting but not those that have started (\<open>sf_lock_excludes_starts_only\<close>).
  \<^item> Ring: the owner is the successor on the ring, all instances agree on it, and a new peer takes over
    keys without moving others (\<open>picker_owner_is_successor\<close>, \<open>picker_nodes_agree\<close>,
    \<open>picker_Add_minimal_disruption\<close>).
  \<^item> Groups: only right values are served and stored (\<open>group_Get_integrity\<close>, \<open>group_run_safe\<close>); which
    peers are told what (\<open>group_Set_reaches_all\<close>, \<open>group_Remove_reaches_all\<close>,
    \<open>group_RemoveKeys_tells\<close>); hits stay local and writes are read back (\<open>group_Get_hit\<close>,
    \<open>group_Set_then_Get\<close>); errors (\<open>group_Get_owner_error\<close>, \<open>group_Set_nil_logger\<close>) and sizes.
  \<^item> Transport: a call of the client is the call of the group at the other end (\<open>http_Get_remote\<close>,
    \<open>http_writes_remote\<close>); the handler answers (\<open>ServeHTTP_answers\<close>), except for unknown groups
    (\<open>http_unknown_group\<close>), and confuses group names that have a slash (\<open>http_slash_group\<close>).
  \<^item> Alternative cache: groups with it are as safe (\<open>otter_group_safe\<close>), but a refused value leaves the
    old one to be read (\<open>otter_rejected_stale\<close>).
  \<^item> Metrics: what is reported is the value of the counter at that time (\<open>metrics_show_counters\<close>).
  \<^item> Clusters: a started cluster agrees on one owner for every key (\<open>cluster_owner_agreed\<close>,
    and over HTTP \<open>http_cluster_owner\<close>), and a restarted one falls apart (\<open>cluster_Restart_isolates\<close>).
  \<^item> Servers and spans: \<open>Shutdown\<close> undoes \<open>ListenAndServe\<close> (\<open>http_server_lifecycle\<close>); tracing changes no
    result and has one span for every call (\<open>traced_calls\<close>).

  \<^bold>\<open>Bounds and fuel.\<close>  No fuel is used.  The eviction loop of the default cache and the loop of
  \<open>waitForConnect\<close> are partial functions whose result \<^term>\<open>None\<close> is not returning; the theorems say
  when they return.  Byte counts below \<open>2 ^ 63\<close> are asked for where a counter could otherwise wrap.

  \<^bold>\<open>Parameters.\<close>  The default hash \<open>fnv1.HashBytes64\<close>, the protobuf and JSON encodings, the order of
  maps, the scheduler, the clock, the network and the getter are arguments of the definitions; what is
  asked of them is a named hypothesis (\<open>ring_sort\<close>, \<open>wire_ok\<close>, \<open>fair\<close>, \<open>trusted\<close>, \<open>otter_ok\<close>,
  \<open>meter_ok\<close>, \<open>trace_log\<close>), shown to hold of a concrete instance by the witness of each theorem.

  \<^bold>\<open>Not modelled.\<close>  Of the HTTP server: what comes of a request that \<open>http.ServeMux\<close> redirects or
  refuses, which is an argument of \<open>deliver\<close>, the handler that traces requests and the labels
  it gives them, and a server that stops by itself, which are the work of net/http and OpenTelemetry.
  The code the protobuf compiler generates beside the messages and their getters.  The command line program
  src/cmd/server, which wires the parts together.
\<close>

end
